(* ===== verification/Net_Prelude.thy ===== *)
theory Net_Prelude
  imports Main "HOL-Library.Word"
begin

text \<open>
  Prelude of the development: the C integer types of the AVR target (8 bit, little-endian,
  16 bit \<open>int\<close> and pointers), the result type of the modelled functions, blocks of bytes with
  bounds-checked access, and the splitting of words into bytes.  Nothing here is specific to one
  source file.
\<close>

unbundle bit_operations_syntax

named_theorems mem_simps \<open>reading from updated byte blocks\<close>
named_theorems byte_simps \<open>splitting words into bytes and back\<close>

section \<open>C integer types\<close>

type_synonym uint8_t = "8 word"
type_synonym uint16_t = "16 word"
type_synonym uint32_t = "32 word"
type_synonym int8_t = "8 word"  \<comment> \<open>read with \<open>sint\<close>\<close>
type_synonym int16_t = "16 word"  \<comment> \<open>read with \<open>sint\<close>\<close>
type_synonym ssize_t = "16 word"  \<comment> \<open>read with \<open>sint\<close>\<close>
type_synonym bytes = "8 word list"
type_synonym addr = nat  \<comment> \<open>identity of an allocated object; 0 is \<open>NULL\<close>\<close>

section \<open>Results\<close>

text \<open>
  A modelled C function yields \<open>Ok\<close> of what it returns (error codes such as \<open>-1\<close> included), or
  \<open>Fault\<close> when the code has no defined result: a null or dangling pointer is followed, a block is
  accessed out of its bounds, an object is freed twice, an uninitialised variable is read, the
  program enters its deliberate endless loop, or the fuel of a busy-wait loop is used up.
\<close>

datatype fault = Null_deref | Dangling | Out_of_bounds | Bad_free | Uninit | Hang | Out_of_fuel

datatype 'a res = Ok 'a | Fault fault

primrec bnd :: "'a res \<Rightarrow> ('a \<Rightarrow> 'b res) \<Rightarrow> 'b res" where
  "bnd (Ok x) f = f x"
| "bnd (Fault e) f = Fault e"

lemma bnd_eq_Ok_iff: "bnd m f = Ok y \<longleftrightarrow> (\<exists>x. m = Ok x \<and> f x = Ok y)"
  by (cases m) auto

lemma bnd_eq_Fault_iff: "bnd m f = Fault e \<longleftrightarrow> m = Fault e \<or> (\<exists>x. m = Ok x \<and> f x = Fault e)"
  by (cases m) auto

lemma bnd_OkE [elim]:
  assumes "bnd m f = Ok y"
  obtains x where "m = Ok x" and "f x = Ok y"
  using assms by (auto simp: bnd_eq_Ok_iff)

lemma bnd_assoc: "bnd (bnd m f) g = bnd m (\<lambda>x. bnd (f x) g)"
  by (cases m) auto

lemma bnd_cong [fundef_cong]: "m = m' \<Longrightarrow> (\<And>x. m' = Ok x \<Longrightarrow> f x = g x) \<Longrightarrow> bnd m f = bnd m' g"
  by (cases m') auto

section \<open>Blocks of bytes\<close>

definition bslice :: "nat \<Rightarrow> nat \<Rightarrow> bytes \<Rightarrow> bytes" where
  "bslice off n m = take n (drop off m)"

definition upd :: "nat \<Rightarrow> bytes \<Rightarrow> bytes \<Rightarrow> bytes" where
  "upd off bs m = take off m @ bs @ drop (off + length bs) m"

text \<open>Reading and writing \<open>n\<close> bytes at an offset of a block, as \<open>memcpy\<close> or a struct access does.\<close>

definition rd :: "nat \<Rightarrow> nat \<Rightarrow> bytes \<Rightarrow> bytes res" where
  "rd off n m = (if off + n \<le> length m then Ok (bslice off n m) else Fault Out_of_bounds)"

definition wr :: "nat \<Rightarrow> bytes \<Rightarrow> bytes \<Rightarrow> bytes res" where
  "wr off bs m = (if off + length bs \<le> length m then Ok (upd off bs m) else Fault Out_of_bounds)"

lemma length_bslice [simp]: "off + n \<le> length m \<Longrightarrow> length (bslice off n m) = n"
  by (simp add: bslice_def)

lemma length_upd [simp]: "off + length bs \<le> length m \<Longrightarrow> length (upd off bs m) = length m"
  by (simp add: upd_def)

lemma nth_bslice: "off + n \<le> length m \<Longrightarrow> i < n \<Longrightarrow> bslice off n m ! i = m ! (off + i)"
  by (simp add: bslice_def)

lemma nth_upd:
  assumes "off + length bs \<le> length m" and "i < length m"
  shows "upd off bs m ! i = (if off \<le> i \<and> i < off + length bs then bs ! (i - off) else m ! i)"
proof -
  consider "i < off" | "off \<le> i" "i < off + length bs" | "off + length bs \<le> i"
    by linarith
  then show ?thesis
    using assms by cases (auto simp: upd_def nth_append)
qed

lemma bslice_upd_same [mem_simps]:
  "off + length bs \<le> length m \<Longrightarrow> n = length bs \<Longrightarrow> bslice off n (upd off bs m) = bs"
  by (simp add: bslice_def upd_def)

lemma bslice_upd_before [mem_simps]:
  assumes "off + n \<le> off'" and "off' + length bs \<le> length m"
  shows "bslice off n (upd off' bs m) = bslice off n m"
  by (rule nth_equalityI) (use assms in \<open>auto simp: nth_bslice nth_upd\<close>)

lemma bslice_upd_after [mem_simps]:
  assumes "off' + length bs \<le> off" and "off + n \<le> length m"
  shows "bslice off n (upd off' bs m) = bslice off n m"
  by (rule nth_equalityI) (use assms in \<open>auto simp: nth_bslice nth_upd\<close>)

lemma bslice_upd_inside [mem_simps]:
  assumes "off' \<le> off" and "off + n \<le> off' + length bs" and "off' + length bs \<le> length m"
  shows "bslice off n (upd off' bs m) = bslice (off - off') n bs"
  by (rule nth_equalityI) (use assms in \<open>auto simp: nth_bslice nth_upd\<close>)

lemma bslice_bslice [mem_simps]:
  "o2 + n2 \<le> n1 \<Longrightarrow> bslice o2 n2 (bslice o1 n1 m) = bslice (o1 + o2) n2 m"
  by (simp add: bslice_def drop_take ac_simps min_def)

lemma upd_bslice_id [mem_simps]: "off + n \<le> length m \<Longrightarrow> upd off (bslice off n m) m = m"
  by (rule nth_equalityI) (auto simp: nth_bslice nth_upd)

lemma upd_bslice_eq:
  assumes "k + n \<le> length m" "length m' = length m"
    and "\<And>j. j < length m \<Longrightarrow> j < k \<or> k + n \<le> j \<Longrightarrow> m' ! j = m ! j"
  shows "upd k (bslice k n m') m = m'"
  by (rule nth_equalityI) (use assms in \<open>auto simp: nth_upd nth_bslice\<close>)

lemma upd_upd_same [mem_simps]:
  "off + length bs \<le> length m \<Longrightarrow> length bs = length bs' \<Longrightarrow> upd off bs (upd off bs' m) = upd off bs m"
  by (rule nth_equalityI) (auto simp: nth_upd)

lemma upd_commute:
  assumes "o1 + length b1 \<le> o2" and "o2 + length b2 \<le> length m"
  shows "upd o1 b1 (upd o2 b2 m) = upd o2 b2 (upd o1 b1 m)"
  by (rule nth_equalityI) (use assms in \<open>auto simp: nth_upd\<close>)

lemma upd_append:
  assumes "off + length a + length b \<le> length m"
  shows "upd off (a @ b) m = upd off a (upd (off + length a) b m)"
  by (rule nth_equalityI) (use assms in \<open>auto simp: nth_upd nth_append diff_diff_left\<close>)

lemma upd_build:
  "length pre = k \<Longrightarrow> k + length bs \<le> length m \<Longrightarrow>
     upd k bs (pre @ drop k m) = (pre @ bs) @ drop (k + length bs) m"
  by (simp add: upd_def add.commute)

lemma bslice_split:
  assumes "off + n' \<le> length m" "n' = n + k" "off' = off + n"
  shows "bslice off n' m = bslice off n m @ bslice off' k m"
  by (rule nth_equalityI) (use assms in \<open>auto simp: nth_bslice nth_append\<close>)

lemma bslice_upd_window:
  assumes "off \<le> off'" "off' + length bs \<le> off + n" "off + n \<le> length m"
  shows "bslice off n (upd off' bs m) = upd (off' - off) bs (bslice off n m)"
  by (rule nth_equalityI) (use assms in \<open>auto simp: nth_bslice nth_upd add.commute\<close>)

lemma bslice_all: "n = length m \<Longrightarrow> bslice 0 n m = m"
  by (simp add: bslice_def)

lemma rd_eq_Ok_iff: "rd off n m = Ok bs \<longleftrightarrow> off + n \<le> length m \<and> bs = bslice off n m"
  by (auto simp: rd_def)

lemma wr_eq_Ok_iff: "wr off bs m = Ok m' \<longleftrightarrow> off + length bs \<le> length m \<and> m' = upd off bs m"
  by (auto simp: wr_def)

lemma rd_Ok [simp]: "off + n \<le> length m \<Longrightarrow> rd off n m = Ok (bslice off n m)"
  by (simp add: rd_def)

lemma wr_Ok [simp]: "off + length bs \<le> length m \<Longrightarrow> wr off bs m = Ok (upd off bs m)"
  by (simp add: wr_def)

lemma fun_upd_eq_iff [simp]: "f(a := x) = f(a := y) \<longleftrightarrow> x = y"
  by (metis fun_upd_same)

section \<open>Words and bytes\<close>

text \<open>The bytes of a word as the little-endian target stores them, lowest first.\<close>

definition byte_of :: "nat \<Rightarrow> 'a::len word \<Rightarrow> uint8_t" where
  "byte_of k x = ucast (drop_bit (8 * k) x)"

definition le16 :: "uint16_t \<Rightarrow> bytes" where
  "le16 x = [byte_of 0 x, byte_of 1 x]"

definition le32 :: "uint32_t \<Rightarrow> bytes" where
  "le32 x = [byte_of 0 x, byte_of 1 x, byte_of 2 x, byte_of 3 x]"

definition mk16 :: "uint8_t \<Rightarrow> uint8_t \<Rightarrow> uint16_t" where
  "mk16 b0 b1 = ucast b0 OR push_bit 8 (ucast b1)"

definition mk32 :: "uint8_t \<Rightarrow> uint8_t \<Rightarrow> uint8_t \<Rightarrow> uint8_t \<Rightarrow> uint32_t" where
  "mk32 b0 b1 b2 b3 = ucast b0 OR push_bit 8 (ucast b1) OR push_bit 16 (ucast b2) OR push_bit 24 (ucast b3)"

definition un16 :: "bytes \<Rightarrow> uint16_t" where
  "un16 bs = mk16 (bs ! 0) (bs ! 1)"

definition un32 :: "bytes \<Rightarrow> uint32_t" where
  "un32 bs = mk32 (bs ! 0) (bs ! 1) (bs ! 2) (bs ! 3)"

lemma length_le16 [simp]: "length (le16 x) = 2"
  by (simp add: le16_def)

lemma length_le32 [simp]: "length (le32 x) = 4"
  by (simp add: le32_def)

lemma bit_byte_of: "bit (byte_of k x) n \<longleftrightarrow> n < 8 \<and> bit x (8 * k + n)" for x :: "'a::len word"
  by (auto simp: byte_of_def bit_simps ac_simps dest: bit_imp_le_length)

lemma bit_mk16: "bit (mk16 b0 b1) n \<longleftrightarrow> (if n < 8 then bit b0 n else n < 16 \<and> bit b1 (n - 8))"
  by (auto simp: mk16_def bit_simps dest: bit_imp_le_length)

lemma bit_mk32:
  "bit (mk32 b0 b1 b2 b3) n \<longleftrightarrow>
     (if n < 8 then bit b0 n else if n < 16 then bit b1 (n - 8)
      else if n < 24 then bit b2 (n - 16) else n < 32 \<and> bit b3 (n - 24))"
  by (auto simp: mk32_def bit_simps dest: bit_imp_le_length)

lemma byte_of_mk16 [byte_simps, simp]:
  "byte_of 0 (mk16 b0 b1) = b0" "byte_of (Suc 0) (mk16 b0 b1) = b1"
  by (auto intro!: bit_word_eqI simp: bit_byte_of bit_mk16)

lemma byte_of_mk32 [byte_simps, simp]:
  "byte_of 0 (mk32 b0 b1 b2 b3) = b0" "byte_of (Suc 0) (mk32 b0 b1 b2 b3) = b1"
  "byte_of 2 (mk32 b0 b1 b2 b3) = b2" "byte_of 3 (mk32 b0 b1 b2 b3) = b3"
  by (auto intro!: bit_word_eqI simp: bit_byte_of bit_mk32)

lemma mk16_byte_of [byte_simps, simp]: "mk16 (byte_of 0 x) (byte_of (Suc 0) x) = x"
  by (auto intro!: bit_word_eqI simp: bit_byte_of bit_mk16 split: if_splits)

lemma mk32_byte_of [byte_simps, simp]:
  "mk32 (byte_of 0 x) (byte_of (Suc 0) x) (byte_of 2 x) (byte_of 3 x) = x"
  by (auto intro!: bit_word_eqI simp: bit_byte_of bit_mk32 split: if_splits)

lemma un16_le16 [byte_simps, simp]: "un16 (le16 x) = x"
  by (simp add: un16_def le16_def)

lemma un32_le32 [byte_simps, simp]: "un32 (le32 x) = x"
  by (simp add: un32_def le32_def numeral_3_eq_3 numeral_2_eq_2 mk32_byte_of[unfolded numeral_3_eq_3 numeral_2_eq_2])

lemma le16_consts: "le16 0 = [0, 0]" "le16 65535 = [255, 255]"
  by code_simp+

lemma mk16_eq_iff [simp]: "mk16 a b = mk16 c d \<longleftrightarrow> a = c \<and> b = d"
  by (metis byte_of_mk16)

lemma unat8_less [simp]: "unat b < 256" for b :: uint8_t
  using unsigned_less[of b, where ?'a = nat] by simp

lemma unat16_less [simp]: "unat x < 65536" for x :: uint16_t
  using unsigned_less[of x, where ?'a = nat] by simp

lemma unat32_less [simp]: "unat x < 4294967296" for x :: uint32_t
  using unsigned_less[of x, where ?'a = nat] by simp

lemma unat8_le [simp]: "unat b \<le> 255" for b :: uint8_t
  using unat8_less[of b] by linarith

lemma unat16_le [simp]: "unat x \<le> 65535" for x :: uint16_t
  using unat16_less[of x] by linarith

lemma unat_ucast_8_16 [simp]: "unat (ucast b :: uint16_t) = unat b" for b :: uint8_t
  by (simp add: unsigned_ucast_eq take_bit_eq_mod order_less_le_trans[OF unat8_less])

lemma unat_ucast_16_32 [simp]: "unat (ucast x :: uint32_t) = unat x" for x :: uint16_t
  by (simp add: unsigned_ucast_eq take_bit_eq_mod order_less_le_trans[OF unat16_less])

lemma unat_ucast_8_32 [simp]: "unat (ucast b :: uint32_t) = unat b" for b :: uint8_t
  by (simp add: unsigned_ucast_eq take_bit_eq_mod order_less_le_trans[OF unat8_less])

lemma unat_mk16: "unat (mk16 b0 b1) = unat b0 + 256 * unat b1"
proof -
  have "(ucast b0 :: uint16_t) AND push_bit 8 (ucast b1) = 0"
    by (rule bit_word_eqI) (auto simp: bit_simps dest: bit_imp_le_length)
  then have "mk16 b0 b1 = ucast b0 + push_bit 8 (ucast b1)"
    unfolding mk16_def by (simp add: disjunctive_add_eq_or)
  moreover have "unat (push_bit 8 (ucast b1 :: uint16_t)) = 256 * unat b1"
    using unat8_le[of b1] by (simp add: push_bit_eq_mult unat_word_ariths)
  ultimately show ?thesis
    using unat8_le[of b0] unat8_le[of b1] by (simp add: unat_word_ariths del: unat8_le unat8_less)
qed

lemma le_exhaust2: "length bs = 2 \<Longrightarrow> \<exists>a b. bs = [a, b]"
  by (auto simp: numeral_2_eq_2 length_Suc_conv)

lemma le_exhaust4: "length bs = 4 \<Longrightarrow> \<exists>a b c d. bs = [a, b, c, d]"
  by (auto simp: eval_nat_numeral length_Suc_conv)

lemma le16_un16 [byte_simps]: "length bs = 2 \<Longrightarrow> le16 (un16 bs) = bs"
  by (auto simp: un16_def le16_def dest!: le_exhaust2)

lemma le32_un32 [byte_simps]: "length bs = 4 \<Longrightarrow> le32 (un32 bs) = bs"
  by (auto simp: un32_def le32_def numeral_3_eq_3 numeral_2_eq_2 dest!: le_exhaust4
      intro: byte_of_mk32[unfolded numeral_3_eq_3 numeral_2_eq_2])

end
