(* ===== verification/Net_Buff.thy ===== *)
theory Net_Buff
  imports Net_Prelude
begin

text \<open>
  Network buffers (\<open>net/net.c\<close>, \<open>struct net_buff_s\<close> of \<open>net/net.h\<close>) and the heap they live in.

  A buffer is a record with the fields of the struct.  Its data block is \<open>nb_mem\<close>, of the size given
  to \<open>malloc\<close>; the pointers \<open>data\<close>, \<open>tail\<close> and \<open>end\<close> are offsets from \<open>head\<close>, so \<open>head\<close> is offset 0.
  The link fields hold values of type \<open>nbp\<close>, the pointers to \<open>struct net_buff_s\<close>: a buffer, a queue
  head cast to a buffer as \<open>net.h\<close> does, or \<open>NULL\<close>.

  The heap maps the addresses of the live buffers to their contents.  \<open>mallocs\<close> lists what the coming
  calls of \<open>malloc\<close> return (0 for \<open>NULL\<close>), so every statement covers every pattern of allocation
  failures; \<open>junk\<close> is the indeterminate contents of a fresh block, and \<open>place\<close> where the data block of the
  buffer at an address lies: pointers have 16 bits, and comparisons of pointers are made on 16-bit addresses.
\<close>

section \<open>Data\<close>

definition ETH_MAC_LEN :: nat where "ETH_MAC_LEN = 6"
definition ETH_HDR_LEN :: nat where "ETH_HDR_LEN = 14"

datatype qref =
    TXQ addr  \<comment> \<open>the \<open>nb_tx_q\<close> of a socket\<close>
  | RXQ addr  \<comment> \<open>the \<open>nb_rx_q\<close> of a socket\<close>
  | QVAR nat  \<comment> \<open>a queue that is a variable of a driver or of the application\<close>

datatype nbp = NULLP | NB addr | QHEAD qref

record net_buff =
  nb_next :: nbp
  nb_prev :: nbp
  nb_net_dev :: addr
  nb_sock :: addr
  nb_pkt_len :: uint16_t
  nb_data_len :: uint16_t
  nb_protocol :: uint16_t
  nb_pkt_type :: "2 word"
  nb_ip_summed :: "2 word"
  nb_transport_hdr_offset :: uint8_t
  nb_network_hdr_offset :: uint8_t
  nb_mac_hdr_offset :: uint8_t
  nb_mem :: bytes
  nb_data :: nat
  nb_tail :: nat
  nb_end :: nat

record nb_queue =
  q_next :: nbp
  q_prev :: nbp
  q_len :: uint8_t

record nb_world =
  nbs :: "addr \<Rightarrow> net_buff option"
  queues :: "qref \<Rightarrow> nb_queue option"
  mallocs :: "addr list"
  junk :: "addr \<Rightarrow> nat \<Rightarrow> uint8_t"
  place :: "addr \<Rightarrow> nat"

definition PKT_HOST :: nat where "PKT_HOST = 0"
definition PKT_BROADCAST :: nat where "PKT_BROADCAST = 1"
definition PKT_MULTICAST :: nat where "PKT_MULTICAST = 2"
definition PKT_OTHERHOST :: nat where "PKT_OTHERHOST = 3"
definition PKT_LOOPBACK :: nat where "PKT_LOOPBACK = 4"

section \<open>Access through a pointer\<close>

definition load_nb :: "('w) nb_world_scheme \<Rightarrow> nbp \<Rightarrow> net_buff res" where
  "load_nb w p =
     (case p of NULLP \<Rightarrow> Fault Null_deref
      | NB a \<Rightarrow> (case nbs w a of None \<Rightarrow> Fault Dangling | Some b \<Rightarrow> Ok b)
      | QHEAD q \<Rightarrow> Fault Out_of_bounds)"

definition store_nb :: "nbp \<Rightarrow> net_buff \<Rightarrow> 'w nb_world_scheme \<Rightarrow> 'w nb_world_scheme" where
  "store_nb p b w = (case p of NB a \<Rightarrow> w\<lparr>nbs := (nbs w)(a \<mapsto> b)\<rparr> | _ \<Rightarrow> w)"

text \<open>
  The address of an offset in the data block of a buffer.  A block lies below the stack, so it ends at least 256
  bytes below the top of the address space; \<open>place\<close> is cut off accordingly, and every such place is possible.
\<close>

definition head_at :: "'w nb_world_scheme \<Rightarrow> nbp \<Rightarrow> net_buff \<Rightarrow> nat" where
  "head_at w p b = (case p of NB a \<Rightarrow> min (place w a) (65279 - length (nb_mem b)) | _ \<Rightarrow> 0)"

definition ptr_at :: "'w nb_world_scheme \<Rightarrow> nbp \<Rightarrow> net_buff \<Rightarrow> nat \<Rightarrow> uint16_t" where
  "ptr_at w p b off = of_nat (head_at w p b + off)"

text \<open>Assignments to fields, and reads and writes of bytes at an offset from \<open>head\<close>.\<close>

definition nb_upd :: "nbp \<Rightarrow> (net_buff \<Rightarrow> net_buff) \<Rightarrow> 'w nb_world_scheme \<Rightarrow> 'w nb_world_scheme res" where
  "nb_upd p f w = bnd (load_nb w p) (\<lambda>b. Ok (store_nb p (f b) w))"

definition nb_rd :: "nbp \<Rightarrow> nat \<Rightarrow> nat \<Rightarrow> 'w nb_world_scheme \<Rightarrow> bytes res" where
  "nb_rd p off n w = bnd (load_nb w p) (\<lambda>b. rd off n (nb_mem b))"

definition nb_wr :: "nbp \<Rightarrow> nat \<Rightarrow> bytes \<Rightarrow> 'w nb_world_scheme \<Rightarrow> 'w nb_world_scheme res" where
  "nb_wr p off bs w =
     bnd (load_nb w p) (\<lambda>b. bnd (wr off bs (nb_mem b)) (\<lambda>m. Ok (store_nb p (b\<lparr>nb_mem := m\<rparr>) w)))"

section \<open>Allocation\<close>

text \<open>An address that is still in use is never handed out again; such an entry counts as a failure.\<close>

definition malloc :: "(addr \<Rightarrow> bool) \<Rightarrow> 'w nb_world_scheme \<Rightarrow> addr \<times> 'w nb_world_scheme" where
  "malloc live w =
     (case mallocs w of [] \<Rightarrow> (0, w)
      | a # as \<Rightarrow> (if live a then 0 else a, w\<lparr>mallocs := as\<rparr>))"

text \<open>What \<open>net_buff_alloc\<close> stores in a new buffer: everything before \<open>head\<close> is zeroed by \<open>memset\<close>.\<close>

definition nb_fresh :: "bytes \<Rightarrow> nat \<Rightarrow> net_buff" where
  "nb_fresh mem size' =
     \<lparr>nb_next = NULLP, nb_prev = NULLP, nb_net_dev = 0, nb_sock = 0, nb_pkt_len = 0, nb_data_len = 0,
      nb_protocol = 0, nb_pkt_type = 0, nb_ip_summed = 0, nb_transport_hdr_offset = 0,
      nb_network_hdr_offset = 0 + of_nat ETH_HDR_LEN, nb_mac_hdr_offset = 0,
      nb_mem = mem, nb_data = 0, nb_tail = 0, nb_end = 0 + size'\<rparr>"

definition net_buff_alloc :: "uint16_t \<Rightarrow> 'w nb_world_scheme \<Rightarrow> nbp \<times> 'w nb_world_scheme" where
  "net_buff_alloc size' w =
     (let (buff, w) = malloc (\<lambda>a. nbs w a \<noteq> None) w in
      if buff = 0 then (NULLP, w) else
      let (head, w) = malloc (\<lambda>a. False) w in
      if head = 0 then (NULLP, w) else
      (NB buff, store_nb (NB buff) (nb_fresh (map (junk w head) [0..<unat size']) (unat size')) w))"

definition ndev_alloc_net_buff ::
  "addr \<Rightarrow> uint16_t \<Rightarrow> 'w nb_world_scheme \<Rightarrow> nbp \<times> 'w nb_world_scheme" where
  "ndev_alloc_net_buff net_dev size' w =
     (let (buff, w) = net_buff_alloc size' w in
      case buff of
        NB a \<Rightarrow> (buff, w\<lparr>nbs := (nbs w)(a := map_option (nb_net_dev_update (\<lambda>_. net_dev)) (nbs w a))\<rparr>)
      | _ \<Rightarrow> (buff, w))"

section \<open>Operations\<close>

text \<open>
  \<open>put_net_buff\<close> returns the old tail; when the new tail lies beyond the end it prints a message and
  enters an endless loop.  The tail is a 16-bit pointer, and its sum with the length can wrap around; an offset is
  kept modulo \<open>2 ^ 16\<close>, so that a tail before the block is an offset that lies beyond it.
\<close>

definition put_net_buff ::
  "nbp \<Rightarrow> uint16_t \<Rightarrow> 'w nb_world_scheme \<Rightarrow> (nat \<times> 'w nb_world_scheme) res" where
  "put_net_buff p len w =
     bnd (load_nb w p) (\<lambda>b.
     let old_tail = nb_tail b;
         b = b\<lparr>nb_tail := (nb_tail b + unat len) mod 2 ^ 16, nb_pkt_len := nb_pkt_len b + len\<rparr> in
     if ptr_at w p b (nb_end b) < ptr_at w p b (nb_tail b) then Fault Hang else Ok (old_tail, store_nb p b w))"

definition free_net_buff :: "nbp \<Rightarrow> 'w nb_world_scheme \<Rightarrow> 'w nb_world_scheme res" where
  "free_net_buff p w =
     (case p of NULLP \<Rightarrow> Fault Null_deref
      | NB a \<Rightarrow> (if nbs w a = None then Fault Bad_free else Ok (w\<lparr>nbs := (nbs w)(a := None)\<rparr>))
      | QHEAD q \<Rightarrow> Fault Bad_free)"

text \<open>The loop over a list of buffers; each round spends one unit of fuel.\<close>

fun free_net_buff_list :: "nat \<Rightarrow> nbp \<Rightarrow> 'w nb_world_scheme \<Rightarrow> 'w nb_world_scheme res" where
  "free_net_buff_list 0 p w = Fault Out_of_fuel"
| "free_net_buff_list (Suc fuel) p w =
     (if p = NULLP then Ok w
      else bnd (load_nb w p) (\<lambda>b. bnd (free_net_buff p w) (free_net_buff_list fuel (nb_next b))))"

section \<open>Lemmas\<close>

named_theorems heap_simps \<open>loads and stores of the buffer heap\<close>

lemma load_nb_NB [heap_simps]: "nbs w a = Some b \<Longrightarrow> load_nb w (NB a) = Ok b"
  by (simp add: load_nb_def)

lemma load_nb_Ok_iff: "load_nb w p = Ok b \<longleftrightarrow> (\<exists>a. p = NB a \<and> nbs w a = Some b)"
  by (auto simp: load_nb_def split: nbp.splits option.splits)

lemma store_nb_sel [heap_simps]:
  "nbs (store_nb (NB a) b w) = (nbs w)(a \<mapsto> b)" "queues (store_nb p b w) = queues w"
  "mallocs (store_nb p b w) = mallocs w" "junk (store_nb p b w) = junk w" "place (store_nb p b w) = place w"
  "nb_world.more (store_nb p b w) = nb_world.more w"
  by (simp_all add: store_nb_def split: nbp.splits)

lemma store_nb_NB: "store_nb (NB a) b w = w\<lparr>nbs := (nbs w)(a \<mapsto> b)\<rparr>"
  by (simp add: store_nb_def)

lemma nb_upd_NB [heap_simps]:
  "nbs w a = Some b \<Longrightarrow> nb_upd (NB a) f w = Ok (w\<lparr>nbs := (nbs w)(a \<mapsto> f b)\<rparr>)"
  by (simp add: nb_upd_def load_nb_NB store_nb_NB)

lemma nb_rd_NB [heap_simps]:
  "nbs w a = Some b \<Longrightarrow> off + n \<le> length (nb_mem b) \<Longrightarrow> nb_rd (NB a) off n w = Ok (bslice off n (nb_mem b))"
  by (simp add: nb_rd_def load_nb_NB)

lemma nb_wr_NB [heap_simps]:
  "nbs w a = Some b \<Longrightarrow> off + length bs \<le> length (nb_mem b) \<Longrightarrow>
     nb_wr (NB a) off bs w = Ok (w\<lparr>nbs := (nbs w)(a \<mapsto> b\<lparr>nb_mem := upd off bs (nb_mem b)\<rparr>)\<rparr>)"
  by (simp add: nb_wr_def load_nb_NB store_nb_NB)

lemma free_net_buff_Ok_iff:
  "free_net_buff p w = Ok w' \<longleftrightarrow> (\<exists>a. p = NB a \<and> nbs w a \<noteq> None \<and> w' = w\<lparr>nbs := (nbs w)(a := None)\<rparr>)"
  by (auto simp: free_net_buff_def split: nbp.splits)

lemma free_net_buff_NB [heap_simps]:
  "nbs w a = Some b \<Longrightarrow> free_net_buff (NB a) w = Ok (w\<lparr>nbs := (nbs w)(a := None)\<rparr>)"
  by (simp add: free_net_buff_def)

text \<open>A buffer is well formed when its pointers lie in order inside its block.\<close>

definition nb_wf :: "net_buff \<Rightarrow> bool" where
  "nb_wf b \<longleftrightarrow> nb_data b \<le> nb_tail b \<and> nb_tail b \<le> nb_end b \<and> nb_end b = length (nb_mem b) \<and> nb_end b < 2 ^ 16"

definition heap_wf :: "'w nb_world_scheme \<Rightarrow> bool" where
  "heap_wf w \<longleftrightarrow> (\<forall>a b. nbs w a = Some b \<longrightarrow> nb_wf b)"

lemma heap_wf_store: "heap_wf w \<Longrightarrow> nb_wf b \<Longrightarrow> heap_wf (store_nb p b w)"
  by (auto simp: heap_wf_def store_nb_def split: nbp.splits)

text \<open>The outcome of an allocation: \<open>NULL\<close> and an unchanged heap, or a fresh buffer.\<close>

lemma malloc_cases:
  assumes "malloc live w = (a, w')"
  shows "(a = 0 \<or> \<not> live a) \<and> (\<exists>ms. w' = w\<lparr>mallocs := ms\<rparr>)"
  using assms by (cases "mallocs w") (auto simp: malloc_def intro: exI[of _ "mallocs w"] split: if_splits)

text \<open>Whether both calls of \<open>malloc\<close> are going to succeed.\<close>

definition alloc_ok :: "'w nb_world_scheme \<Rightarrow> bool" where
  "alloc_ok w \<longleftrightarrow> (case mallocs w of a # h # _ \<Rightarrow> a \<noteq> 0 \<and> h \<noteq> 0 \<and> nbs w a = None | _ \<Rightarrow> False)"

lemma net_buff_alloc_cases:
  assumes "net_buff_alloc size' w = (p, w')"
  obtains (fail) ms where "p = NULLP" "w' = w\<lparr>mallocs := ms\<rparr>" "\<not> alloc_ok w"
  | (ok) a ms j where "p = NB a" "a \<noteq> 0" "nbs w a = None" "alloc_ok w"
      "w' = w\<lparr>mallocs := ms, nbs := (nbs w)(a \<mapsto> nb_fresh (map j [0..<unat size']) (unat size'))\<rparr>"
proof -
  obtain a w1 where m1: "malloc (\<lambda>a. nbs w a \<noteq> None) w = (a, w1)" by fastforce
  obtain h w2 where m2: "malloc (\<lambda>a. False) w1 = (h, w2)" by fastforce
  obtain ms1 ms2 where w: "w1 = w\<lparr>mallocs := ms1\<rparr>" "w2 = w1\<lparr>mallocs := ms2\<rparr>"
    using malloc_cases[OF m1] malloc_cases[OF m2] by blast
  have iff: "alloc_ok w \<longleftrightarrow> \<not> (a = 0 \<or> h = 0)"
    using m1 m2 by (auto simp: alloc_ok_def malloc_def split: list.splits if_splits)
  show ?thesis
  proof (cases "a = 0 \<or> h = 0")
    case True
    then show ?thesis using assms m1 m2 w iff
      by (intro fail[where ms = "if a = 0 then ms1 else ms2"]) (auto simp: net_buff_alloc_def split: if_splits)
  next
    case False
    then show ?thesis using assms m1 m2 w malloc_cases[OF m1] iff
      by (intro ok[where a = a and ms = ms2 and j = "junk w2 h"]) (auto simp: net_buff_alloc_def store_nb_NB)
  qed
qed

lemma nb_fresh_sel [simp]:
  "nb_next (nb_fresh m n) = NULLP" "nb_prev (nb_fresh m n) = NULLP" "nb_pkt_len (nb_fresh m n) = 0"
  "nb_net_dev (nb_fresh m n) = 0" "nb_protocol (nb_fresh m n) = 0" "nb_sock (nb_fresh m n) = 0"
  "nb_data_len (nb_fresh m n) = 0" "nb_pkt_type (nb_fresh m n) = 0" "nb_ip_summed (nb_fresh m n) = 0"
  "nb_mem (nb_fresh m n) = m" "nb_data (nb_fresh m n) = 0" "nb_tail (nb_fresh m n) = 0"
  "nb_end (nb_fresh m n) = n" "nb_transport_hdr_offset (nb_fresh m n) = 0"
  "nb_network_hdr_offset (nb_fresh m n) = 14" "nb_mac_hdr_offset (nb_fresh m n) = 0"
  by (simp_all add: nb_fresh_def ETH_HDR_LEN_def)

lemma ndev_alloc_net_buff_cases:
  assumes "ndev_alloc_net_buff d size' w = (p, w')"
  obtains (fail) ms where "p = NULLP" "w' = w\<lparr>mallocs := ms\<rparr>" "\<not> alloc_ok w"
  | (ok) a ms m where "p = NB a" "a \<noteq> 0" "nbs w a = None" "alloc_ok w" "length m = unat size'"
      "w' = w\<lparr>mallocs := ms, nbs := (nbs w)(a \<mapsto> (nb_fresh m (unat size'))\<lparr>nb_net_dev := d\<rparr>)\<rparr>"
proof -
  obtain q w1 where q: "net_buff_alloc size' w = (q, w1)" by fastforce
  from q show ?thesis
  proof (cases rule: net_buff_alloc_cases)
    case (fail ms)
    with assms q show ?thesis by (intro that(1)[of ms]) (auto simp: ndev_alloc_net_buff_def)
  next
    case (ok a ms j)
    with assms q show ?thesis
      by (intro that(2)[of a "map j [0..<unat size']" ms]) (auto simp: ndev_alloc_net_buff_def)
  qed
qed

lemma nb_wf_fresh: "n = length m \<Longrightarrow> n < 2 ^ 16 \<Longrightarrow> nb_wf (nb_fresh m n)"
  by (simp add: nb_wf_def)

text \<open>A null-terminated list of distinct live buffers.\<close>

fun nb_list :: "(addr \<Rightarrow> net_buff option) \<Rightarrow> nbp \<Rightarrow> addr list \<Rightarrow> bool" where
  "nb_list h p [] \<longleftrightarrow> p = NULLP"
| "nb_list h p (a # as) \<longleftrightarrow> p = NB a \<and> a \<notin> set as \<and> (\<exists>b. h a = Some b \<and> nb_list h (nb_next b) as)"

lemma nb_list_cong:
  "(\<And>a. a \<in> set as \<Longrightarrow> h' a = h a) \<Longrightarrow> nb_list h' p as = nb_list h p as"
  by (induction as arbitrary: p) auto

lemma nb_list_upd [simp]: "a \<notin> set as \<Longrightarrow> nb_list (h(a := x)) p as = nb_list h p as"
  by (rule nb_list_cong) auto

lemma free_net_buff_list_Ok:
  "nb_list (nbs w) p as \<Longrightarrow> length as < fuel \<Longrightarrow>
     free_net_buff_list fuel p w = Ok (w\<lparr>nbs := (\<lambda>a. if a \<in> set as then None else nbs w a)\<rparr>)"
proof (induction as arbitrary: p w fuel)
  case Nil
  then show ?case by (cases fuel) simp_all
next
  case (Cons a as)
  then obtain b fuel' where b: "nbs w a = Some b" "nb_list (nbs w) (nb_next b) as" "a \<notin> set as"
    and p: "p = NB a" and fuel: "fuel = Suc fuel'" by (cases fuel) auto
  let ?w = "w\<lparr>nbs := (nbs w)(a := None)\<rparr>"
  have w: "nbs ?w = (nbs w)(a := None)" by simp
  have "nb_list (nbs ?w) (nb_next b) as" unfolding w using b by simp
  then have "free_net_buff_list fuel' (nb_next b) ?w =
      Ok (?w\<lparr>nbs := (\<lambda>x. if x \<in> set as then None else nbs ?w x)\<rparr>)"
    by (rule Cons.IH) (use Cons.prems(2) fuel in simp)
  moreover have "(\<lambda>x. if x \<in> set as then None else nbs ?w x) =
      (\<lambda>x. if x \<in> set (a # as) then None else nbs w x)"
    by auto
  ultimately show ?case by (simp add: fuel p b heap_simps)
qed

text \<open>Addresses in a block of less than \<open>2 ^ 16\<close> bytes, and one step beyond it.\<close>

lemma ptr_at_unat:
  assumes "nb_end b < 2 ^ 16" "nb_end b \<le> length (nb_mem b)" "i < nb_end b + 2 ^ 16"
  shows "unat (ptr_at w p b (i mod 2 ^ 16)) = (if head_at w p b + i < 2 ^ 16 then head_at w p b + i else head_at w p b + i - 2 ^ 16)"
    and "head_at w p b + nb_end b < 2 ^ 16"
proof -
  show h: "head_at w p b + nb_end b < 2 ^ 16" using assms(1,2) by (auto simp: head_at_def split: nbp.split)
  have i: "head_at w p b + i < 2 * 2 ^ 16" using h assms(3) by simp
  have "unat (ptr_at w p b (i mod 2 ^ 16)) = (head_at w p b + i mod 2 ^ 16) mod 2 ^ 16"
    by (simp add: ptr_at_def unsigned_of_nat take_bit_eq_mod flip: of_nat_add)
  also have "\<dots> = (head_at w p b + i) mod 2 ^ 16" by (rule mod_add_right_eq)
  finally show "unat (ptr_at w p b (i mod 2 ^ 16)) = (if head_at w p b + i < 2 ^ 16 then head_at w p b + i else head_at w p b + i - 2 ^ 16)"
    using i by (simp add: mod_if le_mod_geq)
qed

lemma put_net_buff_unfold:
  fixes len :: uint16_t
  assumes "nbs w a = Some b" "nb_tail b \<le> nb_end b" "nb_end b \<le> length (nb_mem b)" "nb_end b < 2 ^ 16"
  defines "h \<equiv> head_at w (NB a) b" and "t \<equiv> (nb_tail b + unat len) mod 2 ^ 16"
  shows "put_net_buff (NB a) len w =
    (if nb_end b < nb_tail b + unat len \<and> h + nb_tail b + unat len < 2 ^ 16 then Fault Hang
     else Ok (nb_tail b, w\<lparr>nbs := (nbs w)(a \<mapsto> b\<lparr>nb_tail := t, nb_pkt_len := nb_pkt_len b + len\<rparr>)\<rparr>))"
    and "2 ^ 16 \<le> h + nb_tail b + unat len \<Longrightarrow> ptr_at w (NB a) b t < ptr_at w (NB a) b (nb_tail b)"
proof -
  define n where "n = unat len"
  have n: "n < 2 ^ 16" by (simp add: n_def)
  let ?b = "b\<lparr>nb_tail := t, nb_pkt_len := nb_pkt_len b + len\<rparr>"
  have p: "ptr_at w (NB a) (b\<lparr>nb_tail := x, nb_pkt_len := y\<rparr>) i = ptr_at w (NB a) b i" for x y i
    by (simp add: ptr_at_def head_at_def)
  note u = ptr_at_unat(1)[OF assms(4,3), of _ w "NB a", folded h_def] and e = ptr_at_unat(2)[OF assms(4,3), of 0 w "NB a", folded h_def]
  have at: "unat (ptr_at w (NB a) b (nb_end b)) = h + nb_end b" "unat (ptr_at w (NB a) b (nb_tail b)) = h + nb_tail b"
    "unat (ptr_at w (NB a) b t) = (if h + (nb_tail b + n) < 2 ^ 16 then h + (nb_tail b + n) else h + (nb_tail b + n) - 2 ^ 16)"
    using u[of "nb_end b"] u[of "nb_tail b"] u[of "nb_tail b + n"] e assms(2,4) n by (simp_all add: t_def n_def[symmetric])
  have "ptr_at w (NB a) b (nb_end b) < ptr_at w (NB a) b t \<longleftrightarrow> nb_end b < nb_tail b + n \<and> h + nb_tail b + n < 2 ^ 16"
    unfolding word_less_nat_alt at using assms(2) n by auto
  then show "put_net_buff (NB a) len w =
    (if nb_end b < nb_tail b + unat len \<and> h + nb_tail b + unat len < 2 ^ 16 then Fault Hang
     else Ok (nb_tail b, w\<lparr>nbs := (nbs w)(a \<mapsto> ?b)\<rparr>))"
    unfolding put_net_buff_def load_nb_NB[OF assms(1)] bnd.simps Let_def t_def by (simp add: store_nb_NB p n_def)
  show "ptr_at w (NB a) b t < ptr_at w (NB a) b (nb_tail b)" if "2 ^ 16 \<le> h + nb_tail b + unat len"
    unfolding word_less_nat_alt at using that n by (simp add: n_def[symmetric])
qed

lemma put_net_buff_fits:
  assumes "nbs w a = Some b" "nb_tail b + unat len \<le> nb_end b" "nb_end b \<le> length (nb_mem b)" "nb_end b < 65536"
  shows "put_net_buff (NB a) len w =
    Ok (nb_tail b, w\<lparr>nbs := (nbs w)(a \<mapsto> b\<lparr>nb_tail := nb_tail b + unat len, nb_pkt_len := nb_pkt_len b + len\<rparr>)\<rparr>)"
  using assms by (subst put_net_buff_unfold(1)[OF assms(1)]) simp_all

section \<open>Properties\<close>

text \<open>C36: on a buffer whose pointers are in order inside its block, \<open>put_net_buff\<close> reserves the bytes when they fit
  before the end: it returns the old tail as the start of the reserved range, keeps the buffer well formed and adds to the
  packet length.  When they do not fit and the new tail is still an address, it never returns (its endless loop).
  When the sum of the tail and the length wraps around at \<open>2 ^ 16\<close>, the check passes, and it returns as if the
  bytes were there, with the tail moved backwards.\<close>

theorem put_net_buff_reserves:
  assumes "nbs w a = Some b" "nb_wf b"
  shows "if nb_tail b + unat len \<le> nb_end b
    then \<exists>w' b'. put_net_buff (NB a) len w = Ok (nb_tail b, w') \<and> nbs w' = (nbs w)(a \<mapsto> b') \<and> nb_wf b' \<and>
           b' = b\<lparr>nb_tail := nb_tail b + unat len, nb_pkt_len := nb_pkt_len b + len\<rparr> \<and>
           nb_tail b + unat len \<le> length (nb_mem b')
    else if head_at w (NB a) b + nb_tail b + unat len < 2 ^ 16 then put_net_buff (NB a) len w = Fault Hang
    else \<exists>w' b'. put_net_buff (NB a) len w = Ok (nb_tail b, w') \<and> nbs w' = (nbs w)(a \<mapsto> b') \<and> nb_pkt_len b' = nb_pkt_len b + len \<and>
           ptr_at w (NB a) b (nb_tail b') < ptr_at w (NB a) b (nb_tail b)"
proof -
  have b: "nb_tail b \<le> nb_end b" "nb_end b \<le> length (nb_mem b)" "nb_end b < 2 ^ 16" "nb_end b = length (nb_mem b)"
    using assms(2) by (simp_all add: nb_wf_def)
  note run = put_net_buff_unfold[OF assms(1) b(1-3), of len]
  show ?thesis
  proof (cases "nb_tail b + unat len \<le> nb_end b")
    case True
    then show ?thesis using put_net_buff_fits[OF assms(1) _ b(2)] b assms(2) by (simp add: nb_wf_def)
  next
    case False
    then show ?thesis using run by simp
  qed
qed

definition demo_block :: "nat \<Rightarrow> unit nb_world_scheme" where
  "demo_block at = \<lparr>nbs = [3 \<mapsto> nb_fresh [0, 0, 0, 0] 4], queues = Map.empty, mallocs = [], junk = \<lambda>_ _. 0, place = \<lambda>_. at\<rparr>"

theorem put_net_buff_reserves_witness:
  "put_net_buff (NB 3) 5 (demo_block 0x200) = Fault Hang \<and> (\<exists>w'. put_net_buff (NB 3) 0xFE00 (demo_block 0x200) = Ok (0, w'))"
proof -
  have w: "nbs (demo_block 0x200) 3 = Some (nb_fresh [0, 0, 0, 0] 4)" "nb_wf (nb_fresh [0, 0, 0, 0] 4)"
    "head_at (demo_block 0x200) (NB 3) (nb_fresh [0, 0, 0, 0] 4) = 0x200"
    by (simp_all add: demo_block_def nb_wf_def head_at_def)
  show ?thesis using put_net_buff_reserves[OF w(1,2), where len = 5] put_net_buff_reserves[OF w(1,2), where len = "0xFE00"] w(3) by auto
qed

text \<open>Whatever the two calls of \<open>malloc\<close> return, \<open>net_buff_alloc\<close> keeps every live buffer, and
  either returns \<open>NULL\<close> with no buffer left behind, or a new well-formed empty buffer of exactly the
  size asked for, with all descriptive fields zero and the network header offset behind an Ethernet
  header.\<close>

lemma net_buff_alloc_fresh:
  assumes "net_buff_alloc size' w = (p, w')"
  shows "if \<not> alloc_ok w then p = NULLP \<and> nbs w' = nbs w else
    (\<exists>a b. p = NB a \<and> nbs w a = None \<and> nbs w' = (nbs w)(a \<mapsto> b) \<and> nb_wf b \<and>
      length (nb_mem b) = unat size' \<and> nb_tail b = 0 \<and> nb_pkt_len b = 0 \<and> nb_next b = NULLP \<and>
      nb_prev b = NULLP \<and> nb_net_dev b = 0 \<and> nb_mac_hdr_offset b = 0 \<and> nb_network_hdr_offset b = 14)"
  using assms by (cases rule: net_buff_alloc_cases) (auto simp: nb_wf_fresh)

end
