(* ===== verification/Nb_Queue.thy ===== *)
theory Nb_Queue
  imports Net_Buff
begin

text \<open>
  The queues of network buffers of \<open>net/net.h\<close>: circular doubly-linked lists threaded through the
  buffers, closed by the queue head, which the code casts to a buffer (both structs start with the
  two links).  Every operation is translated store by store; the abstraction \<open>queue_rep\<close> relates the
  links to an Isabelle list, and the interpretation of the FIFO interface at the end says that the
  operations implement a first-in-first-out queue on that list.
\<close>

section \<open>The code\<close>

definition load_q :: "'w nb_world_scheme \<Rightarrow> qref \<Rightarrow> nb_queue res" where
  "load_q w q = (case queues w q of None \<Rightarrow> Fault Dangling | Some x \<Rightarrow> Ok x)"

text \<open>The links of a buffer or, through the cast, of a queue head.\<close>

definition get_next :: "'w nb_world_scheme \<Rightarrow> nbp \<Rightarrow> nbp res" where
  "get_next w p = (case p of QHEAD q \<Rightarrow> bnd (load_q w q) (\<lambda>x. Ok (q_next x))
     | _ \<Rightarrow> bnd (load_nb w p) (\<lambda>b. Ok (nb_next b)))"

definition get_prev :: "'w nb_world_scheme \<Rightarrow> nbp \<Rightarrow> nbp res" where
  "get_prev w p = (case p of QHEAD q \<Rightarrow> bnd (load_q w q) (\<lambda>x. Ok (q_prev x))
     | _ \<Rightarrow> bnd (load_nb w p) (\<lambda>b. Ok (nb_prev b)))"

definition set_next :: "nbp \<Rightarrow> nbp \<Rightarrow> 'w nb_world_scheme \<Rightarrow> 'w nb_world_scheme res" where
  "set_next p x w = (case p of
       QHEAD q \<Rightarrow> bnd (load_q w q) (\<lambda>h. Ok (w\<lparr>queues := (queues w)(q \<mapsto> h\<lparr>q_next := x\<rparr>)\<rparr>))
     | _ \<Rightarrow> bnd (load_nb w p) (\<lambda>b. Ok (store_nb p (b\<lparr>nb_next := x\<rparr>) w)))"

definition set_prev :: "nbp \<Rightarrow> nbp \<Rightarrow> 'w nb_world_scheme \<Rightarrow> 'w nb_world_scheme res" where
  "set_prev p x w = (case p of
       QHEAD q \<Rightarrow> bnd (load_q w q) (\<lambda>h. Ok (w\<lparr>queues := (queues w)(q \<mapsto> h\<lparr>q_prev := x\<rparr>)\<rparr>))
     | _ \<Rightarrow> bnd (load_nb w p) (\<lambda>b. Ok (store_nb p (b\<lparr>nb_prev := x\<rparr>) w)))"

definition add_q_len :: "qref \<Rightarrow> uint8_t \<Rightarrow> 'w nb_world_scheme \<Rightarrow> 'w nb_world_scheme res" where
  "add_q_len q n w =
     bnd (load_q w q) (\<lambda>h. Ok (w\<lparr>queues := (queues w)(q \<mapsto> h\<lparr>q_len := q_len h + n\<rparr>)\<rparr>))"

definition nb_queue_init :: "qref \<Rightarrow> 'w nb_world_scheme \<Rightarrow> 'w nb_world_scheme res" where
  "nb_queue_init q w =
     bnd (set_prev (QHEAD q) (QHEAD q) w) (\<lambda>w.
     bnd (set_next (QHEAD q) (QHEAD q) w) (\<lambda>w.
     bnd (load_q w q) (\<lambda>h. Ok (w\<lparr>queues := (queues w)(q \<mapsto> h\<lparr>q_len := 0\<rparr>)\<rparr>))))"

definition nb_peek :: "qref \<Rightarrow> 'w nb_world_scheme \<Rightarrow> nbp res" where
  "nb_peek q w = bnd (get_next w (QHEAD q)) (\<lambda>nb. Ok (if nb = QHEAD q then NULLP else nb))"

definition nb_enqueue :: "nbp \<Rightarrow> qref \<Rightarrow> 'w nb_world_scheme \<Rightarrow> 'w nb_world_scheme res" where
  "nb_enqueue new q w =
     (let next' = QHEAD q in
      bnd (get_prev w next') (\<lambda>prev.
      bnd (set_next new next' w) (\<lambda>w.
      bnd (set_prev new prev w) (\<lambda>w.
      bnd (set_next prev new w) (\<lambda>w.
      bnd (set_prev next' new w) (\<lambda>w.
      add_q_len q 1 w))))))"

definition nb_dequeue :: "qref \<Rightarrow> 'w nb_world_scheme \<Rightarrow> (nbp \<times> 'w nb_world_scheme) res" where
  "nb_dequeue q w =
     bnd (nb_peek q w) (\<lambda>ret.
     if ret = NULLP then Ok (NULLP, w) else
     bnd (add_q_len q (- 1) w) (\<lambda>w.
     bnd (get_next w ret) (\<lambda>next'.
     bnd (get_prev w ret) (\<lambda>prev.
     bnd (set_next ret NULLP w) (\<lambda>w.
     bnd (set_prev ret NULLP w) (\<lambda>w.
     bnd (set_prev next' prev w) (\<lambda>w.
     bnd (set_next prev next' w) (\<lambda>w.
     Ok (ret, w)))))))))"

text \<open>The loop of \<open>nb_queue_clear\<close>; each round spends one unit of fuel.\<close>

fun nb_queue_clear :: "nat \<Rightarrow> qref \<Rightarrow> 'w nb_world_scheme \<Rightarrow> 'w nb_world_scheme res" where
  "nb_queue_clear 0 q w = Fault Out_of_fuel"
| "nb_queue_clear (Suc fuel) q w =
     bnd (nb_dequeue q w) (\<lambda>(nb, w).
       if nb = NULLP then Ok w else bnd (free_net_buff nb w) (nb_queue_clear fuel q))"

section \<open>Abstraction\<close>

definition links :: "'w nb_world_scheme \<Rightarrow> nbp \<Rightarrow> (nbp \<times> nbp) option" where
  "links w p = (case p of NULLP \<Rightarrow> None
     | NB a \<Rightarrow> map_option (\<lambda>b. (nb_next b, nb_prev b)) (nbs w a)
     | QHEAD q \<Rightarrow> map_option (\<lambda>h. (q_next h, q_prev h)) (queues w q))"

text \<open>The inner links from a start node through the listed buffers, and the last node.\<close>

fun chain :: "(nbp \<Rightarrow> (nbp \<times> nbp) option) \<Rightarrow> nbp \<Rightarrow> addr list \<Rightarrow> bool" where
  "chain L p [] \<longleftrightarrow> True"
| "chain L p (x # xs) \<longleftrightarrow>
     map_option fst (L p) = Some (NB x) \<and> map_option snd (L (NB x)) = Some p \<and> chain L (NB x) xs"

fun end_of :: "nbp \<Rightarrow> addr list \<Rightarrow> nbp" where
  "end_of p [] = p"
| "end_of p (x # xs) = end_of (NB x) xs"

definition queue_rep :: "'w nb_world_scheme \<Rightarrow> qref \<Rightarrow> addr list \<Rightarrow> bool" where
  "queue_rep w q xs \<longleftrightarrow>
     distinct xs \<and> set xs \<subseteq> dom (nbs w) \<and> chain (links w) (QHEAD q) xs \<and>
     map_option fst (links w (end_of (QHEAD q) xs)) = Some (QHEAD q) \<and>
     map_option snd (links w (QHEAD q)) = Some (end_of (QHEAD q) xs) \<and>
     map_option q_len (queues w q) = Some (of_nat (length xs))"

lemma chain_cong:
  "(\<And>y. y = p \<or> y \<in> NB ` set xs \<Longrightarrow> map_option fst (L' y) = map_option fst (L y)) \<Longrightarrow>
   (\<And>y. y \<in> NB ` set xs \<Longrightarrow> map_option snd (L' y) = map_option snd (L y)) \<Longrightarrow>
   chain L' p xs = chain L p xs"
proof (induction xs arbitrary: p)
  case (Cons x xs)
  have "chain L' (NB x) xs = chain L (NB x) xs" by (rule Cons.IH) (auto intro: Cons.prems)
  then show ?case using Cons.prems(1)[of p] Cons.prems(2)[of "NB x"] by simp
qed simp

lemma end_of_snoc [simp]: "end_of p (xs @ [x]) = NB x"
  by (induction xs arbitrary: p) auto

lemma chain_snoc: "chain L p (xs @ [x]) \<longleftrightarrow>
   chain L p xs \<and> map_option fst (L (end_of p xs)) = Some (NB x) \<and> map_option snd (L (NB x)) = Some (end_of p xs)"
  by (induction xs arbitrary: p) auto

lemma end_of_cases: "end_of p xs = p \<and> xs = [] \<or> (\<exists>ys y. xs = ys @ [y] \<and> end_of p xs = NB y)"
  by (cases xs rule: rev_cases) auto

lemma end_of_in: "xs \<noteq> [] \<Longrightarrow> end_of p xs \<in> NB ` set xs"
  using end_of_cases[of p xs] by auto

lemma end_of_QHEAD_iff [simp]: "end_of (QHEAD q) xs = QHEAD q' \<longleftrightarrow> xs = [] \<and> q = q'"
  "QHEAD q' = end_of (QHEAD q) xs \<longleftrightarrow> xs = [] \<and> q = q'"
  using end_of_cases[of "QHEAD q" xs] by auto

section \<open>Effects of the stores\<close>

text \<open>What no queue operation touches: the buffers but for their links, and the rest of the world.\<close>

definition payload :: "'w nb_world_scheme \<Rightarrow> addr \<Rightarrow> net_buff option" where
  "payload w a = map_option (\<lambda>b. b\<lparr>nb_next := NULLP, nb_prev := NULLP\<rparr>) (nbs w a)"

definition rest :: "'w nb_world_scheme \<Rightarrow> (addr \<Rightarrow> net_buff option) \<times> addr list \<times> (addr \<Rightarrow> nat \<Rightarrow> uint8_t) \<times>
    (addr \<Rightarrow> nat) \<times> 'w" where
  "rest w = (payload w, mallocs w, junk w, place w, nb_world.more w)"

definition qlens :: "'w nb_world_scheme \<Rightarrow> qref \<Rightarrow> uint8_t option" where
  "qlens w q = map_option q_len (queues w q)"

lemma rest_dom: "rest w' = rest w \<Longrightarrow> dom (nbs w') = dom (nbs w)"
proof -
  assume "rest w' = rest w"
  then have "payload w' a = None \<longleftrightarrow> payload w a = None" for a by (simp add: rest_def)
  then show ?thesis by (auto simp: payload_def dom_def)
qed

lemma queue_rep_alt: "queue_rep w q xs \<longleftrightarrow>
   distinct xs \<and> set xs \<subseteq> dom (nbs w) \<and> chain (links w) (QHEAD q) xs \<and>
   map_option fst (links w (end_of (QHEAD q) xs)) = Some (QHEAD q) \<and>
   map_option snd (links w (QHEAD q)) = Some (end_of (QHEAD q) xs) \<and>
   qlens w q = Some (of_nat (length xs))"
  by (simp add: queue_rep_def qlens_def)

lemma queue_rep_qlens: "queue_rep w q xs \<Longrightarrow> qlens w q = Some (of_nat (length xs))"
  by (simp add: queue_rep_alt)

lemma queue_rep_cong:
  assumes "\<And>y. y = QHEAD q \<or> y \<in> NB ` set xs \<Longrightarrow> links w' y = links w y"
    and "qlens w' q = qlens w q" and "\<And>x. x \<in> set xs \<Longrightarrow> nbs w' x = None \<longleftrightarrow> nbs w x = None"
  shows "queue_rep w' q xs = queue_rep w q xs"
proof -
  have "chain (links w') (QHEAD q) xs = chain (links w) (QHEAD q) xs"
    by (rule chain_cong) (auto simp: assms(1))
  moreover have "links w' (end_of (QHEAD q) xs) = links w (end_of (QHEAD q) xs)"
    using end_of_in[of xs "QHEAD q"] by (cases "xs = []") (auto simp: assms(1))
  moreover have "set xs \<subseteq> dom (nbs w') \<longleftrightarrow> set xs \<subseteq> dom (nbs w)"
    using assms(3) by (simp add: subset_iff domIff)
  ultimately show ?thesis by (simp add: queue_rep_alt assms(1,2))
qed

lemma get_next_links: "get_next w p = Ok n" if "map_option fst (links w p) = Some n"
  using that by (auto simp: get_next_def links_def load_nb_def load_q_def split: nbp.splits)

lemma get_prev_links: "get_prev w p = Ok n" if "map_option snd (links w p) = Some n"
  using that by (auto simp: get_prev_def links_def load_nb_def load_q_def split: nbp.splits)

lemma set_next_links:
  assumes "links w p = Some (n, v)"
  obtains w' where "set_next p x w = Ok w'" "links w' = (links w)(p \<mapsto> (x, v))" "qlens w' = qlens w"
    "rest w' = rest w"
proof (cases p)
  case (NB a)
  then obtain b where "nbs w a = Some b" "nb_prev b = v" using assms by (auto simp: links_def)
  then show ?thesis using NB
    by (intro that[of "store_nb p (b\<lparr>nb_next := x\<rparr>) w"])
      (auto simp: set_next_def load_nb_def store_nb_def links_def rest_def payload_def qlens_def fun_eq_iff split: nbp.splits)
next
  case (QHEAD q)
  then obtain h where "queues w q = Some h" "q_prev h = v" using assms by (auto simp: links_def)
  then show ?thesis using QHEAD
    by (intro that[of "w\<lparr>queues := (queues w)(q \<mapsto> h\<lparr>q_next := x\<rparr>)\<rparr>"])
      (auto simp: set_next_def load_q_def links_def rest_def payload_def qlens_def fun_eq_iff split: nbp.splits)
qed (use assms in \<open>simp add: links_def\<close>)

lemma set_prev_links:
  assumes "links w p = Some (n, v)"
  obtains w' where "set_prev p x w = Ok w'" "links w' = (links w)(p \<mapsto> (n, x))" "qlens w' = qlens w"
    "rest w' = rest w"
proof (cases p)
  case (NB a)
  then obtain b where "nbs w a = Some b" "nb_next b = n" using assms by (auto simp: links_def)
  then show ?thesis using NB
    by (intro that[of "store_nb p (b\<lparr>nb_prev := x\<rparr>) w"])
      (auto simp: set_prev_def load_nb_def store_nb_def links_def rest_def payload_def qlens_def fun_eq_iff split: nbp.splits)
next
  case (QHEAD q)
  then obtain h where "queues w q = Some h" "q_next h = n" using assms by (auto simp: links_def)
  then show ?thesis using QHEAD
    by (intro that[of "w\<lparr>queues := (queues w)(q \<mapsto> h\<lparr>q_prev := x\<rparr>)\<rparr>"])
      (auto simp: set_prev_def load_q_def links_def rest_def payload_def qlens_def fun_eq_iff split: nbp.splits)
qed (use assms in \<open>simp add: links_def\<close>)

lemma add_q_len_links:
  assumes "qlens w q = Some k"
  obtains w' where "add_q_len q n w = Ok w'" "links w' = links w" "qlens w' = (qlens w)(q \<mapsto> k + n)"
    "rest w' = rest w"
proof -
  obtain h where "queues w q = Some h" "q_len h = k" using assms by (auto simp: qlens_def)
  then show ?thesis
    by (intro that[of "w\<lparr>queues := (queues w)(q \<mapsto> h\<lparr>q_len := q_len h + n\<rparr>)\<rparr>"])
      (auto simp: add_q_len_def load_q_def links_def rest_def payload_def qlens_def fun_eq_iff split: nbp.splits)
qed

section \<open>The operations implement a list\<close>

text \<open>Queues other than the one operated on are left alone.\<close>

definition others_kept :: "qref \<Rightarrow> addr set \<Rightarrow> 'w nb_world_scheme \<Rightarrow> 'w nb_world_scheme \<Rightarrow> bool" where
  "others_kept q A w w' \<longleftrightarrow>
     (\<forall>q' ys. q' \<noteq> q \<longrightarrow> set ys \<inter> A = {} \<longrightarrow> queue_rep w q' ys \<longrightarrow> queue_rep w' q' ys)"

lemma others_keptI:
  assumes "\<And>p. p \<noteq> QHEAD q \<Longrightarrow> p \<notin> NB ` A \<Longrightarrow> links w' p = links w p"
    and "\<And>q'. q' \<noteq> q \<Longrightarrow> qlens w' q' = qlens w q'" and "rest w' = rest w"
  shows "others_kept q A w w'"
  unfolding others_kept_def
proof (intro allI impI)
  fix q' ys
  assume *: "q' \<noteq> q" "set ys \<inter> A = {}" "queue_rep w q' ys"
  have "queue_rep w' q' ys = queue_rep w q' ys"
    by (rule queue_rep_cong)
      (use * assms(1,2) rest_dom[OF assms(3)] in \<open>auto simp: set_eq_iff domIff simp del: not_None_eq\<close>)
  with * show "queue_rep w' q' ys" by simp
qed

text \<open>The stores of \<open>nb_enqueue\<close>, one by one, and the links they leave.\<close>

lemma nb_enqueue_links:
  assumes la: "links w (NB a) = Some la" and e: "e \<noteq> NB a" and h: "links w (QHEAD q) = Some (h, e)"
    and v: "links w e = Some (QHEAD q, v)" and len: "qlens w q = Some len"
  obtains w' where "nb_enqueue (NB a) q w = Ok w'" "qlens w' = (qlens w)(q \<mapsto> len + 1)" "rest w' = rest w"
    "links w' = (links w)(NB a \<mapsto> (QHEAD q, e), e \<mapsto> (NB a, v), QHEAD q \<mapsto> (if e = QHEAD q then NB a else h, NB a))"
proof -
  obtain w1 where w1: "set_next (NB a) (QHEAD q) w = Ok w1" "links w1 = (links w)(NB a \<mapsto> (QHEAD q, snd la))"
    "qlens w1 = qlens w" "rest w1 = rest w"
    using set_next_links[of w "NB a" "fst la" "snd la"] la by (metis prod.collapse)
  obtain w2 where w2: "set_prev (NB a) e w1 = Ok w2" "links w2 = (links w1)(NB a \<mapsto> (QHEAD q, e))"
    "qlens w2 = qlens w1" "rest w2 = rest w1"
    using set_prev_links[of w1 "NB a" "QHEAD q" "snd la" e] w1(2) by (metis fun_upd_same)
  obtain w3 where w3: "set_next e (NB a) w2 = Ok w3" "links w3 = (links w2)(e \<mapsto> (NB a, v))"
    "qlens w3 = qlens w2" "rest w3 = rest w2"
    using set_next_links[of w2 e "QHEAD q" v "NB a"] w1(2) w2(2) v e by (metis fun_upd_other)
  let ?n = "if e = QHEAD q then NB a else h"
  have n: "links w3 (QHEAD q) = Some (?n, e)" using w1(2) w2(2) w3(2) h v by auto
  obtain w4 where w4: "set_prev (QHEAD q) (NB a) w3 = Ok w4" "links w4 = (links w3)(QHEAD q \<mapsto> (?n, NB a))"
    "qlens w4 = qlens w3" "rest w4 = rest w3"
    using set_prev_links[OF n, of "NB a"] by metis
  obtain w5 where w5: "add_q_len q 1 w4 = Ok w5" "links w5 = links w4"
    "qlens w5 = (qlens w4)(q \<mapsto> len + 1)" "rest w5 = rest w4"
    using add_q_len_links[of w4 q len 1] len w1(3) w2(3) w3(3) w4(3) by metis
  have "get_prev w (QHEAD q) = Ok e" using h by (intro get_prev_links) simp
  then have "nb_enqueue (NB a) q w = Ok w5"
    by (simp add: nb_enqueue_def w1(1) w2(1) w3(1) w4(1) w5(1))
  then show ?thesis
    by (rule that) (simp_all add: w1(2-4) w2(2-4) w3(2-4) w4(2-4) w5(2-4))
qed

lemma nb_enqueue_rep:
  assumes rep: "queue_rep w q xs" and a: "a \<notin> set xs" "nbs w a \<noteq> None"
  obtains w' where "nb_enqueue (NB a) q w = Ok w'" "queue_rep w' q (xs @ [a])" "rest w' = rest w"
    "others_kept q (insert a (set xs)) w w'"
proof -
  let ?e = "end_of (QHEAD q) xs"
  have e: "?e \<noteq> NB a" using a(1) end_of_in[of xs "QHEAD q"] by (cases "xs = []") auto
  obtain la where la: "links w (NB a) = Some la" using a(2) by (auto simp: links_def)
  obtain h where h: "links w (QHEAD q) = Some (h, ?e)" using rep by (auto simp: queue_rep_def)
  obtain v where v: "links w ?e = Some (QHEAD q, v)" using rep by (auto simp: queue_rep_def)
  obtain w' where w: "nb_enqueue (NB a) q w = Ok w'" "qlens w' = (qlens w)(q \<mapsto> of_nat (length xs) + 1)" "rest w' = rest w"
    and L: "links w' = (links w)(NB a \<mapsto> (QHEAD q, ?e), ?e \<mapsto> (NB a, v), QHEAD q \<mapsto> (if ?e = QHEAD q then NB a else h, NB a))"
    by (rule nb_enqueue_links[OF la e h v queue_rep_qlens[OF rep]])
  show ?thesis
  proof
    show "nb_enqueue (NB a) q w = Ok w'" "rest w' = rest w" by fact+
    have fst_same: "map_option fst (links w' y) = map_option fst (links w y)" if "y \<noteq> NB a" "y \<noteq> ?e" for y
      using that h v by (auto simp: L split: if_splits)
    have "chain (links w') (QHEAD q) xs"
    proof (cases xs rule: rev_cases)
      case (snoc ys y)
      have "chain (links w') (QHEAD q) ys = chain (links w) (QHEAD q) ys"
        using rep a snoc by (intro chain_cong fst_same) (auto simp: L queue_rep_def)
      then show ?thesis using rep a snoc fst_same[of "end_of (QHEAD q) ys"]
          end_of_in[of ys "QHEAD q"] e h v
        by (cases "ys = []") (auto simp: chain_snoc queue_rep_def L)
    qed simp
    then show "queue_rep w' q (xs @ [a])"
      using rep a rest_dom[OF w(3)] e h v w(2)
      by (cases "xs = []") (auto simp: queue_rep_alt chain_snoc L dom_def)
    show "others_kept q (insert a (set xs)) w w'"
      by (rule others_keptI; use w(2,3) end_of_in[of xs "QHEAD q"] in
        \<open>cases "xs = []"; auto simp: L\<close>)
  qed
qed

lemma nb_dequeue_empty:
  "queue_rep w q [] \<Longrightarrow> nb_dequeue q w = Ok (NULLP, w)"
proof -
  assume "queue_rep w q []"
  then have "get_next w (QHEAD q) = Ok (QHEAD q)" by (intro get_next_links) (simp add: queue_rep_def)
  then show ?thesis by (simp add: nb_dequeue_def nb_peek_def)
qed

text \<open>The stores of \<open>nb_dequeue\<close>.\<close>

lemma nb_dequeue_links:
  assumes hq: "links w (QHEAD q) = Some (NB x, pq)" and lx: "links w (NB x) = Some (nn, QHEAD q)" and nx: "nn \<noteq> NB x"
    and ln: "links w nn = Some ln" and len: "qlens w q = Some len"
  obtains w' where "nb_dequeue q w = Ok (NB x, w')" "qlens w' = (qlens w)(q \<mapsto> len - 1)" "rest w' = rest w"
    "links w' = (links w)(NB x \<mapsto> (NULLP, NULLP), nn \<mapsto> (fst ln, QHEAD q), QHEAD q \<mapsto> (nn, if nn = QHEAD q then nn else pq))"
proof -
  obtain w1 where w1: "add_q_len q (- 1) w = Ok w1" "links w1 = links w"
    "qlens w1 = (qlens w)(q \<mapsto> len + (- 1))" "rest w1 = rest w"
    by (rule add_q_len_links[OF len])
  obtain w2 where w2: "set_next (NB x) NULLP w1 = Ok w2" "links w2 = (links w1)(NB x \<mapsto> (NULLP, QHEAD q))"
    "qlens w2 = qlens w1" "rest w2 = rest w1"
    using set_next_links[of w1 "NB x" nn "QHEAD q" NULLP] w1(2) lx by metis
  obtain w3 where w3: "set_prev (NB x) NULLP w2 = Ok w3" "links w3 = (links w2)(NB x \<mapsto> (NULLP, NULLP))"
    "qlens w3 = qlens w2" "rest w3 = rest w2"
    using set_prev_links[of w2 "NB x" NULLP "QHEAD q" NULLP] w2(2) by (metis fun_upd_same)
  obtain w4 where w4: "set_prev nn (QHEAD q) w3 = Ok w4" "links w4 = (links w3)(nn \<mapsto> (fst ln, QHEAD q))"
    "qlens w4 = qlens w3" "rest w4 = rest w3"
    using set_prev_links[of w3 nn "fst ln" "snd ln" "QHEAD q"] w3(2) w2(2) w1(2) ln nx
    by (metis fun_upd_other prod.collapse)
  obtain lq where lq: "links w4 (QHEAD q) = Some lq"
    using w4(2) w3(2) w2(2) w1(2) hq by (cases "nn = QHEAD q") auto
  obtain w5 where w5: "set_next (QHEAD q) nn w4 = Ok w5" "links w5 = (links w4)(QHEAD q \<mapsto> (nn, snd lq))"
    "qlens w5 = qlens w4" "rest w5 = rest w4"
    using set_next_links[of w4 "QHEAD q" "fst lq" "snd lq" nn] lq by (metis prod.collapse)
  have "get_next w (QHEAD q) = Ok (NB x)" using hq by (intro get_next_links) simp
  moreover have "get_next w1 (NB x) = Ok nn" using lx w1(2) by (intro get_next_links) simp
  moreover have "get_prev w1 (NB x) = Ok (QHEAD q)" using lx w1(2) by (intro get_prev_links) simp
  ultimately have run: "nb_dequeue q w = Ok (NB x, w5)"
    using w1(1) w2(1) w3(1) w4(1) w5(1) by (simp add: nb_dequeue_def nb_peek_def)
  have "snd lq = (if nn = QHEAD q then nn else pq)" using lq hq w1(2) w2(2) w3(2) w4(2) by auto
  with run show ?thesis
    by (intro that[of w5]) (simp_all add: w1(2-4) w2(2-4) w3(2-4) w4(2-4) w5(2-4) fun_upd_twist)
qed

lemma nb_dequeue_rep:
  assumes rep: "queue_rep w q (x # xs)"
  obtains w' where "nb_dequeue q w = Ok (NB x, w')" "queue_rep w' q xs" "rest w' = rest w"
    "links w' (NB x) = Some (NULLP, NULLP)" "others_kept q (set (x # xs)) w w'"
proof -
  define nn where "nn = (case xs of [] \<Rightarrow> QHEAD q | y # _ \<Rightarrow> NB y)"
  let ?e = "end_of (NB x) xs"
  have x: "x \<notin> set xs" "map_option fst (links w (QHEAD q)) = Some (NB x)" using rep by (auto simp: queue_rep_def)
  obtain pq where hq: "links w (QHEAD q) = Some (NB x, pq)" using x(2) by auto
  have lx: "links w (NB x) = Some (nn, QHEAD q)"
    using rep by (cases xs) (auto simp: queue_rep_def nn_def)
  have nx: "nn \<noteq> NB x" using x(1) by (auto simp: nn_def split: list.splits)
  obtain ln where ln: "links w nn = Some ln"
    using rep hq by (cases xs) (auto simp: queue_rep_def nn_def)
  obtain w' where w: "nb_dequeue q w = Ok (NB x, w')" "qlens w' = (qlens w)(q \<mapsto> of_nat (length (x # xs)) - 1)" "rest w' = rest w"
    and L: "links w' = (links w)(NB x \<mapsto> (NULLP, NULLP), nn \<mapsto> (fst ln, QHEAD q), QHEAD q \<mapsto> (nn, if nn = QHEAD q then nn else pq))"
    by (rule nb_dequeue_links[OF hq lx nx ln queue_rep_qlens[OF rep]])
  show ?thesis
  proof
    show "nb_dequeue q w = Ok (NB x, w')" "rest w' = rest w" by fact+
    show "links w' (NB x) = Some (NULLP, NULLP)" using nx by (simp add: L)
    have len: "qlens w' q = Some (of_nat (length xs))" using w(2) by simp
    show "queue_rep w' q xs"
    proof (cases xs)
      case Nil
      then show ?thesis using len by (auto simp: queue_rep_alt L nn_def)
    next
      case (Cons y ys)
      have "chain (links w') (NB y) ys = chain (links w) (NB y) ys"
        using Cons x(1) rep ln by (intro chain_cong) (auto simp: L queue_rep_def nn_def)
      moreover have "map_option fst (links w' ?e) = map_option fst (links w ?e)"
        using Cons x(1) end_of_in[of ys "NB y"] ln by (cases "ys = []") (auto simp: L nn_def)
      ultimately show ?thesis
        using rep Cons len rest_dom[OF w(3)] hq ln by (auto simp: queue_rep_alt L nn_def)
    qed
    show "others_kept q (set (x # xs)) w w'"
      by (rule others_keptI; use w(2,3) in \<open>cases xs; auto simp: L nn_def\<close>)
  qed
qed

section \<open>The FIFO interface\<close>

text \<open>Enqueueing a list of elements, and dequeueing a number of them.\<close>

fun enq_all :: "('x \<Rightarrow> 'w \<Rightarrow> 'w res) \<Rightarrow> 'x list \<Rightarrow> 'w \<Rightarrow> 'w res" where
  "enq_all enq [] w = Ok w"
| "enq_all enq (x # xs) w = bnd (enq x w) (enq_all enq xs)"

fun deq_n :: "('w \<Rightarrow> ('x \<times> 'w) res) \<Rightarrow> nat \<Rightarrow> 'w \<Rightarrow> ('x list \<times> 'w) res" where
  "deq_n deq 0 w = Ok ([], w)"
| "deq_n deq (Suc n) w = bnd (deq w) (\<lambda>(x, w). bnd (deq_n deq n w) (\<lambda>(xs, w). Ok (x # xs, w)))"

locale fifo =
  fixes rep :: "'w \<Rightarrow> 'q \<Rightarrow> 'x list \<Rightarrow> bool"
    and live :: "'w \<Rightarrow> 'x \<Rightarrow> bool"
    and null :: 'x
    and enq :: "'x \<Rightarrow> 'q \<Rightarrow> 'w \<Rightarrow> 'w res"
    and deq :: "'q \<Rightarrow> 'w \<Rightarrow> ('x \<times> 'w) res"
  assumes rep_distinct: "rep w q xs \<Longrightarrow> distinct xs"
    and rep_live: "rep w q xs \<Longrightarrow> x \<in> set xs \<Longrightarrow> live w x"
    and null_not_live: "\<not> live w null"
    and enq_rep: "rep w q xs \<Longrightarrow> x \<notin> set xs \<Longrightarrow> live w x \<Longrightarrow>
      \<exists>w'. enq x q w = Ok w' \<and> rep w' q (xs @ [x]) \<and> live w' = live w"
    and deq_nil: "rep w q [] \<Longrightarrow> deq q w = Ok (null, w)"
    and deq_cons: "rep w q (x # xs) \<Longrightarrow>
      \<exists>w'. deq q w = Ok (x, w') \<and> rep w' q xs \<and> live w' = live w"
begin

lemma enq_all_rep:
  "rep w q xs \<Longrightarrow> distinct ys \<Longrightarrow> set ys \<inter> set xs = {} \<Longrightarrow> (\<forall>y \<in> set ys. live w y) \<Longrightarrow>
     \<exists>w'. enq_all (\<lambda>x. enq x q) ys w = Ok w' \<and> rep w' q (xs @ ys) \<and> live w' = live w"
proof (induction ys arbitrary: w xs)
  case (Cons y ys)
  then obtain w1 where w1: "enq y q w = Ok w1" "rep w1 q (xs @ [y])" "live w1 = live w"
    using enq_rep[of w q xs y] by auto
  have "\<exists>w'. enq_all (\<lambda>x. enq x q) ys w1 = Ok w' \<and> rep w' q ((xs @ [y]) @ ys) \<and> live w' = live w1"
    by (rule Cons.IH) (use Cons.prems w1 in auto)
  then show ?case using w1 by simp
qed simp

lemma deq_n_rep:
  "rep w q (xs @ ys) \<Longrightarrow> \<exists>w'. deq_n (deq q) (length xs) w = Ok (xs, w') \<and> rep w' q ys"
proof (induction xs arbitrary: w)
  case (Cons x xs)
  then obtain w1 where w1: "deq q w = Ok (x, w1)" "rep w1 q (xs @ ys)"
    using deq_cons[of w q x "xs @ ys"] by auto
  then show ?case using Cons.IH[of w1] by auto
qed simp

lemma fifo_order:
  assumes "rep w q xs" "distinct ys" "set ys \<inter> set xs = {}" "\<forall>y \<in> set ys. live w y"
  shows "\<exists>w' w''. enq_all (\<lambda>x. enq x q) ys w = Ok w' \<and>
    deq_n (deq q) (length xs + length ys) w' = Ok (xs @ ys, w'') \<and> rep w'' q [] \<and> deq q w'' = Ok (null, w'')"
proof -
  obtain w' where w': "enq_all (\<lambda>x. enq x q) ys w = Ok w'" "rep w' q ((xs @ ys) @ [])"
    using enq_all_rep[OF assms] by auto
  with deq_n_rep[OF w'(2)] deq_nil show ?thesis by fastforce
qed

end

text \<open>A queue whose elements can be discarded, and the loop that empties it.\<close>

locale clearable_fifo = fifo +
  fixes discard :: "'x \<Rightarrow> 'w \<Rightarrow> 'w res"
    and clear :: "nat \<Rightarrow> 'q \<Rightarrow> 'w \<Rightarrow> 'w res"
  assumes discard_rep: "rep w q xs \<Longrightarrow> x \<notin> set xs \<Longrightarrow> live w x \<Longrightarrow>
      \<exists>w'. discard x w = Ok w' \<and> rep w' q xs \<and> live w' = (\<lambda>y. live w y \<and> y \<noteq> x)"
    and clear_Suc: "clear (Suc n) q w =
      bnd (deq q w) (\<lambda>(x, w). if x = null then Ok w else bnd (discard x w) (clear n q))"
begin

lemma clear_rep:
  "rep w q xs \<Longrightarrow> length xs < fuel \<Longrightarrow>
     \<exists>w'. clear fuel q w = Ok w' \<and> rep w' q [] \<and> live w' = (\<lambda>y. live w y \<and> y \<notin> set xs)"
proof (induction xs arbitrary: w fuel)
  case Nil
  then show ?case by (cases fuel) (auto simp: clear_Suc deq_nil)
next
  case (Cons x xs)
  then obtain n where n: "fuel = Suc n" "length xs < n" by (cases fuel) auto
  obtain w1 where w1: "deq q w = Ok (x, w1)" "rep w1 q xs" "live w1 = live w"
    using deq_cons[OF Cons.prems(1)] by auto
  have x: "live w x" "x \<notin> set xs" "x \<noteq> null"
    using rep_live[OF Cons.prems(1), of x] rep_distinct[OF Cons.prems(1)] null_not_live[of w] by auto
  then obtain w2 where w2: "discard x w1 = Ok w2" "rep w2 q xs" "live w2 = (\<lambda>y. live w1 y \<and> y \<noteq> x)"
    using discard_rep[OF w1(2), of x] w1(3) by auto
  from Cons.IH[OF w2(2) n(2)] show ?case
    using w1 w2 x n by (auto simp: clear_Suc fun_eq_iff)
qed

end

text \<open>Both interfaces hold of the queues of the code, with pointers as elements.\<close>

definition nbp_rep :: "'w nb_world_scheme \<Rightarrow> qref \<Rightarrow> nbp list \<Rightarrow> bool" where
  "nbp_rep w q ps \<longleftrightarrow> (\<exists>xs. ps = map NB xs \<and> queue_rep w q xs)"

definition nbp_live :: "'w nb_world_scheme \<Rightarrow> nbp \<Rightarrow> bool" where
  "nbp_live w p \<longleftrightarrow> (\<exists>a. p = NB a \<and> nbs w a \<noteq> None)"

lemma rest_live: "rest w' = rest w \<Longrightarrow> nbp_live w' = nbp_live w"
  using rest_dom[of w' w] by (auto simp: nbp_live_def fun_eq_iff set_eq_iff domIff simp del: not_None_eq)

lemma map_NB_eq_iff [simp]: "map NB xs = map NB ys \<longleftrightarrow> xs = ys"
  by (simp add: inj_map_eq_map inj_on_def)

lemma nbp_rep_map [simp]: "nbp_rep w q (map NB xs) \<longleftrightarrow> queue_rep w q xs"
  by (auto simp: nbp_rep_def)

lemma nbp_rep_Cons: "nbp_rep w q (p # ps) \<longleftrightarrow> (\<exists>x xs. p = NB x \<and> ps = map NB xs \<and> queue_rep w q (x # xs))"
  by (auto simp: nbp_rep_def Cons_eq_map_conv)

lemma nbp_rep_Nil [simp]: "nbp_rep w q [] \<longleftrightarrow> queue_rep w q []"
  by (simp add: nbp_rep_def)

lemma free_net_buff_rep:
  assumes "queue_rep w q xs" "x \<notin> set xs" "nbs w x \<noteq> None"
  shows "\<exists>w'. free_net_buff (NB x) w = Ok w' \<and> queue_rep w' q xs \<and> nbp_live w' = (\<lambda>y. nbp_live w y \<and> y \<noteq> NB x)"
proof (intro exI conjI)
  let ?w = "w\<lparr>nbs := (nbs w)(x := None)\<rparr>"
  show "free_net_buff (NB x) w = Ok ?w" using assms(3) by (auto simp: free_net_buff_def)
  have "queue_rep ?w q xs = queue_rep w q xs"
    by (rule queue_rep_cong) (use assms in \<open>auto simp: links_def qlens_def\<close>)
  with assms show "queue_rep ?w q xs" by simp
  show "nbp_live ?w = (\<lambda>y. nbp_live w y \<and> y \<noteq> NB x)" by (auto simp: nbp_live_def fun_eq_iff)
qed

interpretation nbq: clearable_fifo nbp_rep nbp_live NULLP nb_enqueue nb_dequeue free_net_buff nb_queue_clear
proof (unfold_locales, goal_cases)
  case (1 w q xs)
  then show ?case by (auto simp: nbp_rep_def queue_rep_def distinct_map inj_on_def)
next
  case (2 w q xs x)
  then show ?case by (auto simp: nbp_rep_def queue_rep_def nbp_live_def subset_iff domIff)
next
  case (4 w q xs x)
  then obtain ys a where ys: "xs = map NB ys" "queue_rep w q ys" "x = NB a" "nbs w a \<noteq> None" "a \<notin> set ys"
    by (fastforce simp: nbp_rep_def nbp_live_def)
  from nb_enqueue_rep[OF ys(2) ys(5) ys(4)] obtain w' where
    "nb_enqueue (NB a) q w = Ok w'" "queue_rep w' q (ys @ [a])" "rest w' = rest w" by blast
  then show ?case using ys rest_live[of w' w] nbp_rep_map[of w' q "ys @ [a]"] by auto
next
  case (5 w q)
  then show ?case by (simp add: nb_dequeue_empty)
next
  case (6 w q x xs)
  then obtain a ys where ys: "xs = map NB ys" "queue_rep w q (a # ys)" "x = NB a"
    by (auto simp: nbp_rep_Cons)
  from nb_dequeue_rep[OF ys(2)] obtain w' where
    "nb_dequeue q w = Ok (NB a, w')" "queue_rep w' q ys" "rest w' = rest w" by blast
  then show ?case using ys rest_live[of w' w] by auto
next
  case (7 w q xs x)
  then obtain ys a where ys: "xs = map NB ys" "queue_rep w q ys" "x = NB a" "nbs w a \<noteq> None" "a \<notin> set ys"
    by (fastforce simp: nbp_rep_def nbp_live_def)
  from free_net_buff_rep[OF ys(2,5,4)] ys(1,3) show ?case by auto
qed (auto simp: nbp_live_def)

lemma nb_queue_init_rep:
  assumes "queues w q \<noteq> None"
  shows "\<exists>w'. nb_queue_init q w = Ok w' \<and> queue_rep w' q [] \<and> nbs w' = nbs w"
  using assms by (auto simp: nb_queue_init_def set_prev_def set_next_def load_q_def queue_rep_def links_def)

section \<open>Properties\<close>

text \<open>C5: from a freshly initialised queue header, enqueueing any list of distinct live buffers and
  dequeueing as many gives the buffers back in the order they were enqueued, after which the queue
  is empty and another dequeue returns \<open>NULL\<close>.\<close>

theorem nb_queue_fifo:
  assumes "queues w q \<noteq> None" "distinct as" "\<forall>a \<in> set as. nbs w a \<noteq> None"
  shows "\<exists>w0 w1 w2. nb_queue_init q w = Ok w0 \<and>
    enq_all (\<lambda>p. nb_enqueue p q) (map NB as) w0 = Ok w1 \<and>
    deq_n (nb_dequeue q) (length as) w1 = Ok (map NB as, w2) \<and> nb_dequeue q w2 = Ok (NULLP, w2)"
proof -
  obtain w0 where w0: "nb_queue_init q w = Ok w0" "queue_rep w0 q []" "nbs w0 = nbs w"
    using nb_queue_init_rep[OF assms(1)] by blast
  have "distinct (map NB as)" "\<forall>p \<in> set (map NB as). nbp_live w0 p"
    using assms w0(3) by (auto simp: distinct_map inj_on_def nbp_live_def)
  with nbq.fifo_order[of w0 q "[]" "map NB as"] w0 show ?thesis by auto
qed

theorem nb_queue_fifo_witness:
  "\<exists>w0 w1 w2. nb_queue_init (QVAR 0)
      \<lparr>nbs = [5 \<mapsto> nb_fresh [] 0, 9 \<mapsto> nb_fresh [] 0], queues = [QVAR 0 \<mapsto> \<lparr>q_next = NULLP, q_prev = NULLP, q_len = 7\<rparr>],
       mallocs = [], junk = \<lambda>_ _. 0, place = \<lambda>_. 0\<rparr> = Ok w0 \<and>
    enq_all (\<lambda>p. nb_enqueue p (QVAR 0)) [NB 9, NB 5] w0 = Ok w1 \<and>
    deq_n (nb_dequeue (QVAR 0)) 2 w1 = Ok ([NB 9, NB 5], w2) \<and> nb_dequeue (QVAR 0) w2 = Ok (NULLP, w2)"
  using nb_queue_fifo[where as = "[9, 5]" and q = "QVAR 0" and w = "\<lparr>nbs = [5 \<mapsto> nb_fresh [] 0, 9 \<mapsto> nb_fresh [] 0],
    queues = [QVAR 0 \<mapsto> \<lparr>q_next = NULLP, q_prev = NULLP, q_len = 7\<rparr>], mallocs = [], junk = \<lambda>_ _. 0, place = \<lambda>_. 0\<rparr>"]
  by (simp add: numeral_2_eq_2 del: deq_n.simps enq_all.simps)

text \<open>C33: \<open>nb_enqueue\<close> refines appending to a list: through all its pointer stores it links a live
  buffer that is not yet in the queue behind the last one, keeps the length counter (modulo 256) and
  the list of every other queue, and changes nothing else: no other field of any buffer, no
  allocation.\<close>

theorem nb_enqueue_refines:
  assumes "queue_rep w q xs" "a \<notin> set xs" "nbs w a \<noteq> None"
  shows "\<exists>w'. nb_enqueue (NB a) q w = Ok w' \<and> queue_rep w' q (xs @ [a]) \<and> rest w' = rest w \<and>
    (\<forall>q' ys. q' \<noteq> q \<longrightarrow> set ys \<inter> insert a (set xs) = {} \<longrightarrow> queue_rep w q' ys \<longrightarrow> queue_rep w' q' ys)"
  using nb_enqueue_rep[OF assms] unfolding others_kept_def by metis

theorem nb_enqueue_refines_witness:
  "\<exists>w'. nb_enqueue (NB 5) (TXQ 1)
      \<lparr>nbs = [5 \<mapsto> nb_fresh [] 0], queues = [TXQ 1 \<mapsto> \<lparr>q_next = QHEAD (TXQ 1), q_prev = QHEAD (TXQ 1), q_len = 0\<rparr>],
       mallocs = [], junk = \<lambda>_ _. 0, place = \<lambda>_. 0\<rparr> = Ok w' \<and> queue_rep w' (TXQ 1) [5]"
proof -
  let ?w = "\<lparr>nbs = [5 \<mapsto> nb_fresh [] 0], queues = [TXQ 1 \<mapsto> \<lparr>q_next = QHEAD (TXQ 1), q_prev = QHEAD (TXQ 1), q_len = 0\<rparr>],
       mallocs = [], junk = \<lambda>_ _. 0, place = \<lambda>_. 0\<rparr>"
  have "queue_rep ?w (TXQ 1) []" by (simp add: queue_rep_def links_def)
  then show ?thesis using nb_enqueue_refines[of ?w "TXQ 1" "[]" 5] by auto
qed

text \<open>C34: \<open>nb_dequeue\<close> refines taking the head of the list: on an empty queue it returns \<open>NULL\<close> and
  changes nothing, otherwise it returns the oldest buffer, unlinked (both its links are \<open>NULL\<close>),
  leaves the rest of the list and every other queue, and changes nothing else.\<close>

theorem nb_dequeue_refines:
  assumes "queue_rep w q xs"
  shows "\<exists>w'. nb_dequeue q w = Ok (case xs of [] \<Rightarrow> NULLP | x # _ \<Rightarrow> NB x, w') \<and> queue_rep w' q (tl xs) \<and>
    rest w' = rest w \<and> (xs \<noteq> [] \<longrightarrow> links w' (NB (hd xs)) = Some (NULLP, NULLP)) \<and> (xs = [] \<longrightarrow> w' = w) \<and>
    (\<forall>q' ys. q' \<noteq> q \<longrightarrow> set ys \<inter> set xs = {} \<longrightarrow> queue_rep w q' ys \<longrightarrow> queue_rep w' q' ys)"
proof (cases xs)
  case Nil
  then show ?thesis using assms nb_dequeue_empty by fastforce
next
  case (Cons x ys)
  from nb_dequeue_rep[OF assms[unfolded Cons]] obtain w' where
    "nb_dequeue q w = Ok (NB x, w')" "queue_rep w' q ys" "rest w' = rest w"
    "links w' (NB x) = Some (NULLP, NULLP)" "others_kept q (set (x # ys)) w w'" by blast
  then show ?thesis by (intro exI[of _ w']) (simp add: Cons others_kept_def)
qed

theorem nb_dequeue_refines_witness:
  "\<exists>w'. nb_dequeue (RXQ 1)
      \<lparr>nbs = [5 \<mapsto> (nb_fresh [] 0)\<lparr>nb_next := QHEAD (RXQ 1), nb_prev := QHEAD (RXQ 1)\<rparr>],
       queues = [RXQ 1 \<mapsto> \<lparr>q_next = NB 5, q_prev = NB 5, q_len = 1\<rparr>], mallocs = [], junk = \<lambda>_ _. 0, place = \<lambda>_. 0\<rparr>
     = Ok (NB 5, w') \<and> queue_rep w' (RXQ 1) []"
proof -
  let ?w = "\<lparr>nbs = [5 \<mapsto> (nb_fresh [] 0)\<lparr>nb_next := QHEAD (RXQ 1), nb_prev := QHEAD (RXQ 1)\<rparr>],
       queues = [RXQ 1 \<mapsto> \<lparr>q_next = NB 5, q_prev = NB 5, q_len = 1\<rparr>], mallocs = [], junk = \<lambda>_ _. 0, place = \<lambda>_. 0\<rparr>"
  have "queue_rep ?w (RXQ 1) [5]" by (simp add: queue_rep_def links_def)
  then show ?thesis using nb_dequeue_refines[of ?w "RXQ 1" "[5]"] by auto
qed

text \<open>C35: given more rounds than the queue has buffers, the loop of \<open>nb_queue_clear\<close> ends; it frees
  every buffer of the queue exactly once and no other, and leaves the queue empty.\<close>

theorem nb_queue_clear_frees:
  assumes "queue_rep w q xs" "length xs < fuel"
  shows "\<exists>w'. nb_queue_clear fuel q w = Ok w' \<and> queue_rep w' q [] \<and> dom (nbs w') = dom (nbs w) - set xs"
proof -
  obtain w' where w': "nb_queue_clear fuel q w = Ok w'" "nbp_rep w' q []"
    "nbp_live w' = (\<lambda>y. nbp_live w y \<and> y \<notin> set (map NB xs))"
    using nbq.clear_rep[of w q "map NB xs" fuel] assms by auto
  have "a \<in> dom (nbs w') \<longleftrightarrow> a \<in> dom (nbs w) \<and> a \<notin> set xs" for a
    using fun_cong[OF w'(3), of "NB a"] by (auto simp: nbp_live_def domIff)
  with w' show ?thesis by auto
qed

theorem nb_queue_clear_frees_witness:
  "\<exists>w'. nb_queue_clear 2 (RXQ 1)
      \<lparr>nbs = [5 \<mapsto> (nb_fresh [] 0)\<lparr>nb_next := QHEAD (RXQ 1), nb_prev := QHEAD (RXQ 1)\<rparr>, 6 \<mapsto> nb_fresh [] 0],
       queues = [RXQ 1 \<mapsto> \<lparr>q_next = NB 5, q_prev = NB 5, q_len = 1\<rparr>], mallocs = [], junk = \<lambda>_ _. 0, place = \<lambda>_. 0\<rparr>
     = Ok w' \<and> dom (nbs w') = {6}"
proof -
  let ?w = "\<lparr>nbs = [5 \<mapsto> (nb_fresh [] 0)\<lparr>nb_next := QHEAD (RXQ 1), nb_prev := QHEAD (RXQ 1)\<rparr>, 6 \<mapsto> nb_fresh [] 0],
       queues = [RXQ 1 \<mapsto> \<lparr>q_next = NB 5, q_prev = NB 5, q_len = 1\<rparr>], mallocs = [], junk = \<lambda>_ _. 0, place = \<lambda>_. 0\<rparr>"
  have "queue_rep ?w (RXQ 1) [5]" by (simp add: queue_rep_def links_def)
  then show ?thesis using nb_queue_clear_frees[of ?w "RXQ 1" "[5]" 2] by auto
qed

end
