(* ===== verification/Nb_Dump.thy ===== *)
theory Nb_Dump
  imports Nb_Queue
begin

text \<open>
  Printing a queue: \<open>nb_queue_dump\<close> of \<open>net/net.h\<close>.  What it writes to the standard output is its result: the
  characters of \<open>putchar\<close> and the pointers printed with the format \<open>"%p, "\<close>.
\<close>

section \<open>The code\<close>

datatype dump_item = Putchar char | Printf_ptr nbp

fun dump_loop :: "'w nb_world_scheme \<Rightarrow> nat \<Rightarrow> qref \<Rightarrow> nbp \<Rightarrow> dump_item list res" where
  "dump_loop w 0 q entry = Fault Out_of_fuel"
| "dump_loop w (Suc fuel) q entry =
     (if entry = QHEAD q then Ok [] else
      bnd (get_next w entry) (\<lambda>next'.
      bnd (dump_loop w fuel q next') (\<lambda>out. Ok (Printf_ptr entry # out))))"

definition nb_queue_dump :: "'w nb_world_scheme \<Rightarrow> nat \<Rightarrow> qref \<Rightarrow> dump_item list res" where
  "nb_queue_dump w fuel q =
     bnd (get_next w (QHEAD q)) (\<lambda>entry.
     bnd (dump_loop w fuel q entry) (\<lambda>out.
     Ok ([Putchar CHR ''[''] @ out @ [Putchar CHR '']'', Putchar (CHR 0x0A)])))"

section \<open>What it prints\<close>

lemma dump_loop_chain:
  "chain (links w) p xs \<Longrightarrow> map_option fst (links w (end_of p xs)) = Some (QHEAD q) \<Longrightarrow> length xs < fuel \<Longrightarrow>
   \<exists>y. map_option fst (links w p) = Some y \<and> dump_loop w fuel q y = Ok (map (Printf_ptr \<circ> NB) xs)"
proof (induction xs arbitrary: p fuel)
  case Nil
  then show ?case by (cases fuel) auto
next
  case (Cons x xs)
  obtain f where f: "fuel = Suc f" "length xs < f" using Cons.prems(3) by (cases fuel) auto
  obtain y where y: "map_option fst (links w (NB x)) = Some y" "dump_loop w f q y = Ok (map (Printf_ptr \<circ> NB) xs)"
    using Cons.IH[of "NB x" f] Cons.prems(1,2) f(2) by auto
  have "dump_loop w fuel q (NB x) = Ok (map (Printf_ptr \<circ> NB) (x # xs))"
    using get_next_links[OF y(1)] y(2) by (simp add: f(1))
  then show ?case using Cons.prems(1) by auto
qed

text \<open>A queue is printed in order, in square brackets and on a line of its own.\<close>

lemma nb_queue_dump_prints:
  assumes "queue_rep w q xs" "length xs < fuel"
  shows "nb_queue_dump w fuel q =
    Ok (Putchar CHR ''['' # map (Printf_ptr \<circ> NB) xs @ [Putchar CHR '']'', Putchar (CHR 0x0A)])"
proof -
  obtain y where "map_option fst (links w (QHEAD q)) = Some y" "dump_loop w fuel q y = Ok (map (Printf_ptr \<circ> NB) xs)"
    using dump_loop_chain[of w "QHEAD q" xs q fuel] assms unfolding queue_rep_def by blast
  then show ?thesis by (simp add: nb_queue_dump_def get_next_links)
qed

end
