(* ===== verification/Nb_Heap.thy ===== *)
theory Nb_Heap
  imports Nb_Queue
begin

text \<open>
  Who owns the network buffers.  The comments of \<open>net/net.h\<close> and \<open>net/net.c\<close> leave it to the callers to hand every buffer
  on exactly once.  Here this is a typing discipline over the operations on buffers and queues: an operation is
  typed when its buffer is one that the caller holds.  The lemmas are preservation and progress for it.
\<close>

section \<open>The operations and their types\<close>

datatype nb_op =
  Op_alloc uint16_t
| Op_dev_alloc addr uint16_t
| Op_put addr uint16_t
| Op_free addr
| Op_init qref
| Op_enqueue addr qref
| Op_dequeue qref
| Op_clear qref

fun nb_run :: "nat \<Rightarrow> nb_op \<Rightarrow> 'w nb_world_scheme \<Rightarrow> (nbp \<times> 'w nb_world_scheme) res" where
  "nb_run fuel (Op_alloc n) w = Ok (net_buff_alloc n w)"
| "nb_run fuel (Op_dev_alloc d n) w = Ok (ndev_alloc_net_buff d n w)"
| "nb_run fuel (Op_put a n) w = bnd (put_net_buff (NB a) n w) (\<lambda>(_, w). Ok (NULLP, w))"
| "nb_run fuel (Op_free a) w = bnd (free_net_buff (NB a) w) (\<lambda>w. Ok (NULLP, w))"
| "nb_run fuel (Op_init q) w = bnd (nb_queue_init q w) (\<lambda>w. Ok (NULLP, w))"
| "nb_run fuel (Op_enqueue a q) w = bnd (nb_enqueue (NB a) q w) (\<lambda>w. Ok (NULLP, w))"
| "nb_run fuel (Op_dequeue q) w = nb_dequeue q w"
| "nb_run fuel (Op_clear q) w = bnd (nb_queue_clear fuel q w) (\<lambda>w. Ok (NULLP, w))"

text \<open>The buffers that the program holds, and those in the queues that have been initialised.\<close>

record nb_owner =
  held :: "addr set"
  queued :: "qref \<Rightarrow> addr list option"

definition queued_bufs :: "nb_owner \<Rightarrow> addr set" where
  "queued_bufs ow = {a. \<exists>q xs. queued ow q = Some xs \<and> a \<in> set xs}"

definition typed :: "'w nb_world_scheme \<Rightarrow> nb_owner \<Rightarrow> bool" where
  "typed w ow \<longleftrightarrow> heap_wf w \<and> (\<forall>q xs. queued ow q = Some xs \<longrightarrow> queue_rep w q xs) \<and>
     (\<forall>q q' xs ys. queued ow q = Some xs \<longrightarrow> queued ow q' = Some ys \<longrightarrow> q \<noteq> q' \<longrightarrow> set xs \<inter> set ys = {}) \<and>
     held ow \<inter> queued_bufs ow = {} \<and> dom (nbs w) = held ow \<union> queued_bufs ow"

text \<open>The type of an operation: what it asks of the owner, and the owner after it, by its result.\<close>

fun op_typed :: "nat \<Rightarrow> 'w nb_world_scheme \<Rightarrow> nb_owner \<Rightarrow> nb_op \<Rightarrow> bool" where
  "op_typed fuel w ow (Op_put a n) = (a \<in> held ow \<and> (\<forall>b. nbs w a = Some b \<longrightarrow> nb_tail b + unat n \<le> nb_end b))"
| "op_typed fuel w ow (Op_free a) = (a \<in> held ow)"
| "op_typed fuel w ow (Op_init q) = (queues w q \<noteq> None \<and> queued ow q \<in> {None, Some []})"
| "op_typed fuel w ow (Op_enqueue a q) = (a \<in> held ow \<and> queued ow q \<noteq> None)"
| "op_typed fuel w ow (Op_dequeue q) = (queued ow q \<noteq> None)"
| "op_typed fuel w ow (Op_clear q) = (\<exists>xs. queued ow q = Some xs \<and> length xs < fuel)"
| "op_typed fuel w ow _ = True"

definition hold :: "nbp \<Rightarrow> addr set" where
  "hold p = (case p of NB a \<Rightarrow> {a} | _ \<Rightarrow> {})"

fun op_owner :: "nb_op \<Rightarrow> nbp \<Rightarrow> nb_owner \<Rightarrow> nb_owner" where
  "op_owner (Op_alloc n) p ow = ow\<lparr>held := held ow \<union> hold p\<rparr>"
| "op_owner (Op_dev_alloc d n) p ow = ow\<lparr>held := held ow \<union> hold p\<rparr>"
| "op_owner (Op_put a n) p ow = ow"
| "op_owner (Op_free a) p ow = ow\<lparr>held := held ow - {a}\<rparr>"
| "op_owner (Op_init q) p ow = ow\<lparr>queued := (queued ow)(q \<mapsto> [])\<rparr>"
| "op_owner (Op_enqueue a q) p ow = ow\<lparr>held := held ow - {a}, queued := (queued ow)(q \<mapsto> the (queued ow q) @ [a])\<rparr>"
| "op_owner (Op_dequeue q) p ow = ow\<lparr>held := held ow \<union> hold p, queued := (queued ow)(q \<mapsto> tl (the (queued ow q)))\<rparr>"
| "op_owner (Op_clear q) p ow = ow\<lparr>queued := (queued ow)(q \<mapsto> [])\<rparr>"

section \<open>Preservation and progress\<close>

lemma typed_queue: "typed w ow \<Longrightarrow> queued ow q = Some xs \<Longrightarrow> queue_rep w q xs"
  by (simp add: typed_def)

lemma queued_in: "queued ow q = Some xs \<Longrightarrow> set xs \<subseteq> queued_bufs ow"
  by (auto simp: queued_bufs_def)

lemma queued_upd:
  assumes "\<And>q' ys. q' \<noteq> q \<Longrightarrow> queued ow q' = Some ys \<Longrightarrow> set ys \<inter> set xs = {}" "queued ow q = Some xs \<or> queued ow q = None \<and> xs = []"
  shows "queued_bufs (ow\<lparr>queued := (queued ow)(q \<mapsto> ys)\<rparr>) = queued_bufs ow - set xs \<union> set ys"
proof (intro set_eqI iffI)
  fix x
  assume "x \<in> queued_bufs (ow\<lparr>queued := (queued ow)(q \<mapsto> ys)\<rparr>)"
  then obtain p zs where "((queued ow)(q \<mapsto> ys)) p = Some zs" "x \<in> set zs" by (auto simp: queued_bufs_def)
  then show "x \<in> queued_bufs ow - set xs \<union> set ys"
    using assms(1)[of p zs] by (cases "p = q") (auto simp: queued_bufs_def)
next
  fix x
  assume x: "x \<in> queued_bufs ow - set xs \<union> set ys"
  show "x \<in> queued_bufs (ow\<lparr>queued := (queued ow)(q \<mapsto> ys)\<rparr>)"
  proof (cases "x \<in> set ys")
    case True
    then show ?thesis by (auto simp: queued_bufs_def)
  next
    case False
    with x obtain p zs where p: "queued ow p = Some zs" "x \<in> set zs" "x \<notin> set xs" by (auto simp: queued_bufs_def)
    then have "p \<noteq> q" using assms(2) by auto
    with p show ?thesis by (auto simp: queued_bufs_def intro!: exI[of _ p])
  qed
qed

lemma heap_wf_rest:
  assumes "heap_wf w" "rest w' = rest w"
  shows "heap_wf w'"
proof -
  have "nb_wf b" if "nbs w' a = Some b" for a b
  proof -
    have "payload w' a = payload w a" using assms(2) by (simp add: rest_def)
    then have "payload w a = Some (b\<lparr>nb_next := NULLP, nb_prev := NULLP\<rparr>)" using that by (simp add: payload_def[of w'])
    then obtain c where c: "nbs w a = Some c" "c\<lparr>nb_next := NULLP, nb_prev := NULLP\<rparr> = b\<lparr>nb_next := NULLP, nb_prev := NULLP\<rparr>"
      by (auto simp: payload_def)
    have same: "nb_wf (x\<lparr>nb_next := NULLP, nb_prev := NULLP\<rparr>) = nb_wf x" for x by (simp add: nb_wf_def)
    from c(1) assms(1) have "nb_wf c" by (simp add: heap_wf_def)
    then show ?thesis using same[of b] same[of c] c(2) by simp
  qed
  then show ?thesis by (simp add: heap_wf_def)
qed

text \<open>Operations on buffers outside the queues.\<close>

lemma typed_heap:
  assumes T: "typed w ow" and h: "heap_wf w'" and q: "queues w' = queues w"
    and a: "\<And>x. x \<in> queued_bufs ow \<Longrightarrow> nbs w' x = nbs w x"
    and o: "dom (nbs w') = H \<union> queued_bufs ow" "H \<inter> queued_bufs ow = {}"
  shows "typed w' (ow\<lparr>held := H\<rparr>)"
proof -
  have "queue_rep w' p xs" if "queued ow p = Some xs" for p xs
  proof -
    have "nbs w' x = nbs w x" if "x \<in> set xs" for x
      using \<open>x \<in> set xs\<close> a queued_in[OF \<open>queued ow p = Some xs\<close>] by blast
    then have "queue_rep w' p xs = queue_rep w p xs"
      using q by (intro queue_rep_cong) (auto simp: links_def qlens_def)
    with typed_queue[OF T that] show ?thesis by simp
  qed
  then show ?thesis using T h o by (simp add: typed_def queued_bufs_def)
qed

text \<open>Operations on a queue.\<close>

lemma typed_upd_queue:
  assumes T: "typed w ow" and q: "queued ow q = Some xs" and r: "queue_rep w' q ys" "rest w' = rest w"
    and o: "others_kept q A w w'" "A \<subseteq> set xs \<union> held ow" and H: "H \<union> set ys = held ow \<union> set xs" "H \<inter> set ys = {}"
  shows "typed w' (ow\<lparr>held := H, queued := (queued ow)(q \<mapsto> ys)\<rparr>)"
proof -
  have x: "set xs \<subseteq> queued_bufs ow" "held ow \<inter> queued_bufs ow = {}" "dom (nbs w) = held ow \<union> queued_bufs ow"
    using queued_in[OF q] T by (simp_all add: typed_def)
  have two: "set zs \<inter> set vs = {}" if "queued ow p = Some zs" "queued ow p' = Some vs" "p \<noteq> p'" for p p' zs vs
    using T that unfolding typed_def by blast
  have dis: "set zs \<inter> set xs = {}" "set zs \<inter> held ow = {}" if "q' \<noteq> q" "queued ow q' = Some zs" for q' zs
    using two[OF that(2) q that(1)] x(2) queued_in[OF that(2)] by blast+
  have Q: "queued_bufs (ow\<lparr>held := H, queued := (queued ow)(q \<mapsto> ys)\<rparr>) = queued_bufs ow - set xs \<union> set ys"
    using queued_upd[of q ow xs ys] dis(1) q by (simp add: queued_bufs_def)
  have other: "queue_rep w' q' zs" "set zs \<inter> set ys = {}" if "q' \<noteq> q" "queued ow q' = Some zs" for q' zs
  proof -
    have "set zs \<inter> A = {}" using dis[OF that] o(2) by blast
    then show "queue_rep w' q' zs" using typed_queue[OF T that(2)] o(1) that(1) by (simp add: others_kept_def)
    have "set ys \<subseteq> held ow \<union> set xs" using H(1) by blast
    then show "set zs \<inter> set ys = {}" using dis[OF that] by blast
  qed
  show ?thesis unfolding typed_def Q
  proof (intro conjI allI impI)
    show "heap_wf w'" using T heap_wf_rest[OF _ r(2)] by (simp add: typed_def)
    show "queue_rep w' p zs" if "queued (ow\<lparr>held := H, queued := (queued ow)(q \<mapsto> ys)\<rparr>) p = Some zs" for p zs
      using that r(1) other(1)[of p zs] by (cases "p = q") simp_all
    show "set zs \<inter> set vs = {}" if "queued (ow\<lparr>held := H, queued := (queued ow)(q \<mapsto> ys)\<rparr>) p = Some zs"
      "queued (ow\<lparr>held := H, queued := (queued ow)(q \<mapsto> ys)\<rparr>) p' = Some vs" "p \<noteq> p'" for p p' zs vs
      using that other(2)[of p zs] other(2)[of p' vs] two[of p zs p' vs] by (cases "p = q"; cases "p' = q") (simp_all add: Int_commute)
    show "held (ow\<lparr>held := H, queued := (queued ow)(q \<mapsto> ys)\<rparr>) \<inter> (queued_bufs ow - set xs \<union> set ys) = {}"
    proof -
      have "H \<subseteq> held ow \<union> set xs" using H(1) by blast
      then show ?thesis using x(2) H(2) by auto
    qed
    have "held ow \<union> queued_bufs ow = H \<union> (queued_bufs ow - set xs \<union> set ys)"
    proof -
      have "held ow \<union> queued_bufs ow = held ow \<union> set xs \<union> (queued_bufs ow - set xs)" using x(1) by blast
      then show ?thesis unfolding H(1)[symmetric] by blast
    qed
    then show "dom (nbs w') = held (ow\<lparr>held := H, queued := (queued ow)(q \<mapsto> ys)\<rparr>) \<union> (queued_bufs ow - set xs \<union> set ys)"
      using rest_dom[OF r(2)] x(3) by simp
  qed
qed

lemma typed_alloc:
  assumes T: "typed w ow" and w': "w' = w\<lparr>mallocs := ms\<rparr> \<and> p = NULLP \<or>
    (\<exists>a b. p = NB a \<and> nbs w a = None \<and> nb_wf b \<and> w' = w\<lparr>mallocs := ms, nbs := (nbs w)(a \<mapsto> b)\<rparr>)"
  shows "typed w' (ow\<lparr>held := held ow \<union> hold p\<rparr>)"
proof -
  have T': "heap_wf w" "held ow \<inter> queued_bufs ow = {}" "dom (nbs w) = held ow \<union> queued_bufs ow" using T by (simp_all add: typed_def)
  from w' show ?thesis
  proof (elim disjE exE conjE)
    assume "w' = w\<lparr>mallocs := ms\<rparr>" "p = NULLP"
    then show ?thesis by (intro typed_heap[OF T]) (use T' in \<open>simp_all add: hold_def heap_wf_def\<close>)
  next
    fix a b
    assume w': "p = NB a" "nbs w a = None" "nb_wf b" "w' = w\<lparr>mallocs := ms, nbs := (nbs w)(a \<mapsto> b)\<rparr>"
    have a: "a \<notin> queued_bufs ow" using T'(3) w'(2) by auto
    show ?thesis by (rule typed_heap[OF T]) (use T' w' a in \<open>auto simp: hold_def heap_wf_def\<close>)
  qed
qed

lemma typed_dequeue:
  assumes T: "typed w ow" and q: "queued ow q = Some xs"
  shows "\<exists>p w'. nb_dequeue q w = Ok (p, w') \<and> p = (case xs of [] \<Rightarrow> NULLP | x # _ \<Rightarrow> NB x) \<and>
    typed w' (ow\<lparr>held := held ow \<union> hold p, queued := (queued ow)(q \<mapsto> tl xs)\<rparr>)"
proof (cases xs)
  case Nil
  have "nb_dequeue q w = Ok (NULLP, w)" using nb_dequeue_empty typed_queue[OF T q] Nil by simp
  moreover have "ow\<lparr>held := held ow \<union> hold NULLP, queued := (queued ow)(q \<mapsto> [])\<rparr> = ow"
    using q Nil by (cases ow) (simp add: hold_def fun_upd_idem)
  ultimately show ?thesis using T Nil by simp
next
  case (Cons x ys)
  from nb_dequeue_rep[OF typed_queue[OF T q, unfolded Cons]] obtain w' where w': "nb_dequeue q w = Ok (NB x, w')" "queue_rep w' q ys"
    "rest w' = rest w" "others_kept q (set (x # ys)) w w'" by blast
  have "distinct xs" using typed_queue[OF T q] by (simp add: queue_rep_def)
  moreover have "set xs \<subseteq> queued_bufs ow" "held ow \<inter> queued_bufs ow = {}" using queued_in[OF q] T by (simp_all add: typed_def)
  ultimately have "typed w' (ow\<lparr>held := insert x (held ow), queued := (queued ow)(q \<mapsto> ys)\<rparr>)"
    using Cons by (intro typed_upd_queue[OF T q w'(2-4)]) auto
  then show ?thesis using w'(1) Cons by (simp add: hold_def)
qed

lemma typed_free:
  assumes T: "typed w ow" and a: "a \<in> held ow"
  shows "\<exists>w'. free_net_buff (NB a) w = Ok w' \<and> typed w' (ow\<lparr>held := held ow - {a}\<rparr>)"
proof -
  have T': "heap_wf w" "held ow \<inter> queued_bufs ow = {}" "dom (nbs w) = held ow \<union> queued_bufs ow" using T by (simp_all add: typed_def)
  then obtain b where b: "nbs w a = Some b" using a by blast
  have "typed (w\<lparr>nbs := (nbs w)(a := None)\<rparr>) (ow\<lparr>held := held ow - {a}\<rparr>)"
    by (rule typed_heap[OF T]) (use T' a in \<open>auto simp: heap_wf_def\<close>)
  then show ?thesis using free_net_buff_NB[OF b] by blast
qed

lemma typed_clear:
  "typed w ow \<Longrightarrow> queued ow q = Some xs \<Longrightarrow> length xs < fuel \<Longrightarrow>
     \<exists>w'. nb_queue_clear fuel q w = Ok w' \<and> typed w' (ow\<lparr>queued := (queued ow)(q \<mapsto> [])\<rparr>)"
proof (induction xs arbitrary: w ow fuel)
  case Nil
  then obtain n where "fuel = Suc n" by (cases fuel) auto
  moreover obtain w' where "nb_dequeue q w = Ok (NULLP, w')" "typed w' (ow\<lparr>held := held ow \<union> hold NULLP, queued := (queued ow)(q \<mapsto> [])\<rparr>)"
    using typed_dequeue[OF Nil(1,2)] by auto
  moreover from this(2) have "typed w' (ow\<lparr>queued := (queued ow)(q \<mapsto> [])\<rparr>)" by (simp add: hold_def)
  ultimately have "nb_queue_clear fuel q w = Ok w' \<and> typed w' (ow\<lparr>queued := (queued ow)(q \<mapsto> [])\<rparr>)" by simp
  then show ?case by blast
next
  case (Cons x xs)
  obtain n where n: "fuel = Suc n" "length xs < n" using Cons.prems(3) by (cases fuel) auto
  let ?ow = "ow\<lparr>held := insert x (held ow), queued := (queued ow)(q \<mapsto> xs)\<rparr>"
  obtain w1 where w1: "nb_dequeue q w = Ok (NB x, w1)" "typed w1 ?ow"
    using typed_dequeue[OF Cons.prems(1,2)] by (auto simp: hold_def)
  obtain w2 where w2: "free_net_buff (NB x) w1 = Ok w2" "typed w2 (?ow\<lparr>held := held ?ow - {x}\<rparr>)"
    using typed_free[OF w1(2), of x] by auto
  have "x \<notin> held ow" using Cons.prems(1) queued_in[OF Cons.prems(2)] by (auto simp: typed_def)
  let ?xs = "ow\<lparr>queued := (queued ow)(q \<mapsto> xs)\<rparr>"
  have "?ow\<lparr>held := held ?ow - {x}\<rparr> = ?xs" using \<open>x \<notin> held ow\<close> by simp
  moreover have "?xs\<lparr>queued := (queued ?xs)(q \<mapsto> [])\<rparr> = ow\<lparr>queued := (queued ow)(q \<mapsto> [])\<rparr>" "queued ?xs q = Some xs" by simp_all
  ultimately obtain w3 where "nb_queue_clear n q w2 = Ok w3" "typed w3 (ow\<lparr>queued := (queued ow)(q \<mapsto> [])\<rparr>)"
    using Cons.IH[of w2 ?xs n] w2(2) n(2) by metis
  moreover from this(1) have "nb_queue_clear fuel q w = Ok w3" using w1(1) w2(1) n(1) by simp
  ultimately show ?case by blast
qed

lemma typed_enqueue:
  assumes T: "typed w ow" and a: "a \<in> held ow" and q: "queued ow q = Some xs"
  shows "\<exists>w'. nb_enqueue (NB a) q w = Ok w' \<and> typed w' (ow\<lparr>held := held ow - {a}, queued := (queued ow)(q \<mapsto> xs @ [a])\<rparr>)"
proof -
  have x: "set xs \<subseteq> queued_bufs ow" "held ow \<inter> queued_bufs ow = {}" "dom (nbs w) = held ow \<union> queued_bufs ow"
    using queued_in[OF q] T by (simp_all add: typed_def)
  have "a \<notin> set xs" "nbs w a \<noteq> None" using x a by auto
  from nb_enqueue_rep[OF typed_queue[OF T q] this] obtain w' where w': "nb_enqueue (NB a) q w = Ok w'" "queue_rep w' q (xs @ [a])"
    "rest w' = rest w" "others_kept q (insert a (set xs)) w w'" by blast
  have "typed w' (ow\<lparr>held := held ow - {a}, queued := (queued ow)(q \<mapsto> xs @ [a])\<rparr>)"
    by (rule typed_upd_queue[OF T q w'(2-4)]) (use a x in auto)
  with w'(1) show ?thesis by blast
qed

lemma typed_put:
  assumes T: "typed w ow" and a: "a \<in> held ow" "\<forall>b. nbs w a = Some b \<longrightarrow> nb_tail b + unat n \<le> nb_end b"
  shows "\<exists>k w'. put_net_buff (NB a) n w = Ok (k, w') \<and> typed w' ow"
proof -
  have T': "heap_wf w" "held ow \<inter> queued_bufs ow = {}" "dom (nbs w) = held ow \<union> queued_bufs ow" using T by (simp_all add: typed_def)
  then obtain b where b: "nbs w a = Some b" using a by blast
  let ?b = "b\<lparr>nb_tail := nb_tail b + unat n, nb_pkt_len := nb_pkt_len b + n\<rparr>"
  have "nb_wf b" using T'(1) b by (simp add: heap_wf_def)
  then have wf: "nb_wf ?b" using b a(2) by (simp add: nb_wf_def)
  have "typed (w\<lparr>nbs := (nbs w)(a \<mapsto> ?b)\<rparr>) (ow\<lparr>held := held ow\<rparr>)"
    by (rule typed_heap[OF T]) (use T' a wf in \<open>auto simp: heap_wf_def\<close>)
  moreover have "put_net_buff (NB a) n w = Ok (nb_tail b, w\<lparr>nbs := (nbs w)(a \<mapsto> ?b)\<rparr>)"
    using put_net_buff_fits[OF b] a(2) b \<open>nb_wf b\<close> by (simp add: nb_wf_def)
  ultimately show ?thesis by simp
qed

lemma typed_init:
  assumes T: "typed w ow" and q: "queues w q \<noteq> None" "queued ow q \<in> {None, Some []}"
  shows "\<exists>w'. nb_queue_init q w = Ok w' \<and> typed w' (ow\<lparr>queued := (queued ow)(q \<mapsto> [])\<rparr>)"
proof -
  let ?w = "w\<lparr>queues := (queues w)(q \<mapsto> \<lparr>q_next = QHEAD q, q_prev = QHEAD q, q_len = 0\<rparr>)\<rparr>"
  obtain h where h: "queues w q = Some h" using q(1) by auto
  have "nb_queue_init q w = Ok ?w"
    using h by (simp add: nb_queue_init_def set_prev_def set_next_def load_q_def)
  moreover have Q: "queued_bufs (ow\<lparr>queued := (queued ow)(q \<mapsto> [])\<rparr>) = queued_bufs ow"
    using queued_upd[of q ow "[]" "[]"] q(2) by auto
  have "queue_rep ?w p xs" if "((queued ow)(q \<mapsto> [])) p = Some xs" for p xs
  proof (cases "p = q")
    case True
    then show ?thesis using that by (auto simp: queue_rep_def links_def)
  next
    case False
    have "queue_rep ?w p xs = queue_rep w p xs"
      by (rule queue_rep_cong) (use False in \<open>auto simp: links_def qlens_def\<close>)
    then show ?thesis using typed_queue[OF T] that False by simp
  qed
  then have "typed ?w (ow\<lparr>queued := (queued ow)(q \<mapsto> [])\<rparr>)"
    using T unfolding typed_def Q by (simp add: heap_wf_def) 
  ultimately show ?thesis by blast
qed

lemma nb_op_sound:
  assumes T: "typed w ow" and o: "op_typed fuel w ow op"
  shows "\<exists>p w'. nb_run fuel op w = Ok (p, w') \<and> typed w' (op_owner op p ow)"
proof (cases op)
  case (Op_alloc n)
  obtain p w' where r: "net_buff_alloc n w = (p, w')" by fastforce
  from r obtain ms where "w' = w\<lparr>mallocs := ms\<rparr> \<and> p = NULLP \<or>
      (\<exists>a b. p = NB a \<and> nbs w a = None \<and> nb_wf b \<and> w' = w\<lparr>mallocs := ms, nbs := (nbs w)(a \<mapsto> b)\<rparr>)"
  proof (cases rule: net_buff_alloc_cases)
    case (ok a ms j)
    then show ?thesis
      by (intro that[of ms] disjI2 exI[of _ a] exI[of _ "nb_fresh (map j [0..<unat n]) (unat n)"]) (simp add: nb_wf_fresh)
  qed (rule that, blast)
  from typed_alloc[OF T this] r Op_alloc show ?thesis by simp
next
  case (Op_dev_alloc d n)
  obtain p w' where r: "ndev_alloc_net_buff d n w = (p, w')" by fastforce
  from r obtain ms where "w' = w\<lparr>mallocs := ms\<rparr> \<and> p = NULLP \<or>
      (\<exists>a b. p = NB a \<and> nbs w a = None \<and> nb_wf b \<and> w' = w\<lparr>mallocs := ms, nbs := (nbs w)(a \<mapsto> b)\<rparr>)"
  proof (cases rule: ndev_alloc_net_buff_cases)
    case (ok a ms m)
    then show ?thesis
      by (intro that[of ms] disjI2 exI[of _ a] exI[of _ "(nb_fresh m (unat n))\<lparr>nb_net_dev := d\<rparr>"]) (simp add: nb_wf_def)
  qed (rule that, blast)
  from typed_alloc[OF T this] r Op_dev_alloc show ?thesis by simp
next
  case (Op_put a n)
  with typed_put[OF T, of a n] o show ?thesis by auto
next
  case (Op_free a)
  with typed_free[OF T, of a] o show ?thesis by auto
next
  case (Op_init q)
  with typed_init[OF T, of q] o show ?thesis by auto
next
  case (Op_enqueue a q)
  then obtain xs where "a \<in> held ow" "queued ow q = Some xs" using o by auto
  with typed_enqueue[OF T, of a q xs] Op_enqueue show ?thesis by auto
next
  case (Op_dequeue q)
  then obtain xs where "queued ow q = Some xs" using o by auto
  with typed_dequeue[OF T, of q xs] Op_dequeue show ?thesis by auto
next
  case (Op_clear q)
  then obtain xs where "queued ow q = Some xs" "length xs < fuel" using o by auto
  with typed_clear[OF T, of q xs fuel] Op_clear show ?thesis by auto
qed

inductive nb_step :: "nat \<Rightarrow> 'w nb_world_scheme \<times> nb_owner \<Rightarrow> 'w nb_world_scheme \<times> nb_owner \<Rightarrow> bool" for fuel where
  "op_typed fuel w ow op \<Longrightarrow> nb_run fuel op w = Ok (p, w') \<Longrightarrow> nb_step fuel (w, ow) (w', op_owner op p ow)"

inductive_cases nb_stepE: "nb_step fuel s s'"

lemma nb_step_typed:
  assumes "nb_step fuel s s'" "typed (fst s) (snd s)"
  shows "typed (fst s') (snd s')"
proof -
  obtain w ow op p w' where s: "s = (w, ow)" "s' = (w', op_owner op p ow)" "op_typed fuel w ow op" "nb_run fuel op w = Ok (p, w')"
    using assms(1) by (auto elim: nb_stepE)
  with nb_op_sound[of w ow fuel op] assms(2) show ?thesis by auto
qed

lemma nb_steps_typed: "(nb_step fuel)\<^sup>*\<^sup>* s s' \<Longrightarrow> typed (fst s) (snd s) \<Longrightarrow> typed (fst s') (snd s')"
  by (induction rule: rtranclp_induct) (auto intro: nb_step_typed)

section \<open>Properties\<close>

text \<open>C6: type soundness of the buffer operations: starting with an empty heap, a program that frees, fills and
  enqueues only buffers that it holds, fills none beyond its end, uses only queues it has initialised, initialises no
  queue that holds buffers (it would lose them), and clears only queues shorter than the bound \<open>fuel\<close>, can go on for ever: whatever
  \<open>malloc\<close> returns, in every state it reaches each of these operations returns, without a fault; every live
  buffer is held by the program or is in exactly one queue, so none is leaked; and the pointers of every
  buffer lie in order inside its block.\<close>

theorem nb_ops_type_sound:
  fixes w :: "'w nb_world_scheme"
  assumes "nbs w = Map.empty" "(nb_step fuel)\<^sup>*\<^sup>* (w, \<lparr>held = {}, queued = Map.empty\<rparr>) (w', ow)"
  shows "(op_typed fuel w' ow op \<longrightarrow> (\<exists>p w''. nb_run fuel op w' = Ok (p, w''))) \<and>
    (\<forall>q xs. queued ow q = Some xs \<longrightarrow> queue_rep w' q xs) \<and>
    dom (nbs w') = held ow \<union> {a. \<exists>q xs. queued ow q = Some xs \<and> a \<in> set xs} \<and>
    (\<forall>a q xs. queued ow q = Some xs \<longrightarrow> a \<in> set xs \<longrightarrow> a \<notin> held ow \<and> (\<forall>q' ys. queued ow q' = Some ys \<longrightarrow> a \<in> set ys \<longrightarrow> q' = q)) \<and>
    (\<forall>a b. nbs w' a = Some b \<longrightarrow> nb_data b \<le> nb_tail b \<and> nb_tail b \<le> nb_end b \<and> nb_end b = length (nb_mem b))"
proof -
  have "typed w \<lparr>held = {}, queued = Map.empty\<rparr>"
    using assms(1) by (simp add: typed_def heap_wf_def queued_bufs_def)
  with nb_steps_typed[OF assms(2)] have T: "typed w' ow" by simp
  have "a \<notin> held ow \<and> (\<forall>q' ys. queued ow q' = Some ys \<longrightarrow> a \<in> set ys \<longrightarrow> q' = q)" if "queued ow q = Some xs" "a \<in> set xs" for a q xs
  proof -
    have "a \<in> queued_bufs ow" "held ow \<inter> queued_bufs ow = {}" using that T by (auto simp: queued_bufs_def typed_def)
    moreover have "set xs \<inter> set ys = {}" if "queued ow q' = Some ys" "q' \<noteq> q" for q' ys
      using T that \<open>queued ow q = Some xs\<close> unfolding typed_def by blast
    ultimately show ?thesis using that(2) by blast
  qed
  moreover have "dom (nbs w') = held ow \<union> {a. \<exists>q xs. queued ow q = Some xs \<and> a \<in> set xs}"
    using T by (simp add: typed_def queued_bufs_def)
  moreover have "nb_data b \<le> nb_tail b \<and> nb_tail b \<le> nb_end b \<and> nb_end b = length (nb_mem b)" if "nbs w' a = Some b" for a b
  proof -
    have "nb_wf b" using T that by (simp add: typed_def heap_wf_def)
    then show ?thesis by (simp add: nb_wf_def)
  qed
  moreover have "op_typed fuel w' ow op \<longrightarrow> (\<exists>p w''. nb_run fuel op w' = Ok (p, w''))"
    "\<forall>q xs. queued ow q = Some xs \<longrightarrow> queue_rep w' q xs" using nb_op_sound[OF T, of fuel op] typed_queue[OF T] by blast+
  ultimately show ?thesis by blast
qed

theorem nb_ops_type_sound_witness:
  "\<exists>w. (nb_step 2)\<^sup>*\<^sup>* (\<lparr>nbs = Map.empty, queues = [TXQ 1 \<mapsto> \<lparr>q_next = NULLP, q_prev = NULLP, q_len = 7\<rparr>], mallocs = [5, 6], junk = \<lambda>_ _. 0, place = \<lambda>_. 0\<rparr>,
      \<lparr>held = {}, queued = Map.empty\<rparr>) (w, \<lparr>held = {}, queued = [TXQ 1 \<mapsto> [5]]\<rparr>) \<and>
    dom (nbs w) = {5} \<and> (\<exists>p w'. nb_run 2 (Op_clear (TXQ 1)) w = Ok (p, w'))"
proof -
  let ?w0 = "\<lparr>nbs = Map.empty, queues = [TXQ 1 \<mapsto> \<lparr>q_next = NULLP, q_prev = NULLP, q_len = 7\<rparr>], mallocs = [5, 6], junk = \<lambda>_ _. 0, place = \<lambda>_. 0\<rparr>"
    and ?o0 = "\<lparr>held = {}, queued = Map.empty\<rparr>"
  let ?o1 = "\<lparr>held = {}, queued = [TXQ 1 \<mapsto> []]\<rparr>" and ?o2 = "\<lparr>held = {5}, queued = [TXQ 1 \<mapsto> []]\<rparr>"
    and ?o3 = "\<lparr>held = {}, queued = [TXQ 1 \<mapsto> [5]]\<rparr>"
  have T0: "typed ?w0 ?o0" by (simp add: typed_def heap_wf_def queued_bufs_def)
  have "op_typed 2 ?w0 ?o0 (Op_init (TXQ 1))" by simp
  from nb_op_sound[OF T0 this] obtain w1 p1 where 1: "nb_run 2 (Op_init (TXQ 1)) ?w0 = Ok (p1, w1)" "typed w1 ?o1" by auto
  have m1: "mallocs w1 = [5, 6]" "nbs w1 = Map.empty" using 1(1)
    by (auto simp: nb_queue_init_def set_prev_def set_next_def load_q_def)
  have o2: "op_typed 2 w1 ?o1 (Op_alloc 4)" by simp
  have "net_buff_alloc 4 w1 = (NB 5, snd (net_buff_alloc 4 w1))" using m1 by (simp add: net_buff_alloc_def malloc_def)
  then have r2: "nb_run 2 (Op_alloc 4) w1 = Ok (NB 5, snd (net_buff_alloc 4 w1))" by simp
  obtain p2 w2 where p2: "nb_run 2 (Op_alloc 4) w1 = Ok (p2, w2)" "typed w2 (op_owner (Op_alloc 4) p2 ?o1)"
    using nb_op_sound[OF 1(2) o2] by blast
  then have "p2 = NB 5" "w2 = snd (net_buff_alloc 4 w1)" using r2 by simp_all
  with p2(2) have 2: "typed (snd (net_buff_alloc 4 w1)) ?o2" by (simp add: hold_def)
  have "op_typed 2 (snd (net_buff_alloc 4 w1)) ?o2 (Op_enqueue 5 (TXQ 1))" by simp
  from nb_op_sound[OF 2 this] obtain w3 p3 where 3: "nb_run 2 (Op_enqueue 5 (TXQ 1)) (snd (net_buff_alloc 4 w1)) = Ok (p3, w3)"
    "typed w3 ?o3" by auto
  have s1: "nb_step 2 (?w0, ?o0) (w1, ?o1)" using nb_step.intros[of 2 ?w0 ?o0 "Op_init (TXQ 1)", OF _ 1(1)] by simp
  have s2: "nb_step 2 (w1, ?o1) (snd (net_buff_alloc 4 w1), ?o2)"
    using nb_step.intros[of 2 w1 ?o1 "Op_alloc 4", OF _ r2] by (simp add: hold_def)
  have s3: "nb_step 2 (snd (net_buff_alloc 4 w1), ?o2) (w3, ?o3)"
    using nb_step.intros[of 2 _ ?o2 "Op_enqueue 5 (TXQ 1)", OF _ 3(1)] by simp
  have steps: "(nb_step 2)\<^sup>*\<^sup>* (?w0, ?o0) (w3, ?o3)"
    by (rule rtranclp.rtrancl_into_rtrancl[OF rtranclp.rtrancl_into_rtrancl[OF r_into_rtranclp[of "nb_step 2", OF s1] s2] s3])
  have e: "nbs ?w0 = Map.empty" by simp
  have c: "op_typed 2 w3 ?o3 (Op_clear (TXQ 1))" by simp
  have q: "{a. \<exists>q xs. queued ?o3 q = Some xs \<and> a \<in> set xs} = {5}" by (auto split: if_splits)
  note S = nb_ops_type_sound[OF e steps, of "Op_clear (TXQ 1)"]
  have "dom (nbs w3) = held ?o3 \<union> {a. \<exists>q xs. queued ?o3 q = Some xs \<and> a \<in> set xs}"
    by (rule conjunct1[OF conjunct2[OF conjunct2[OF S]]])
  then have "dom (nbs w3) = {5}" unfolding q by simp
  moreover have "\<exists>p w'. nb_run 2 (Op_clear (TXQ 1)) w3 = Ok (p, w')" by (rule mp[OF conjunct1[OF S] c])
  ultimately show ?thesis using steps by (intro exI[of _ w3] conjI)
qed

end
