(* ===== verification/Inet.thy ===== *)
theory Inet
  imports Net_Prelude
begin

text \<open>
  Byte order (\<open>arpa/inet.h\<close>), the address constants of \<open>netinet/in.h\<close> and the address functions of
  \<open>arpa/inet.c\<close>.  The macros \<open>htons\<close>, \<open>htonl\<close>, \<open>ntohs\<close>, \<open>ntohl\<close> call \<open>bswap_16\<close> and \<open>bswap_32\<close> of
  the package \<open>defines-avr\<close>, which is not part of the repository: they are fields of the record
  \<open>swaps\<close>, an argument of every definition that converts.  What the code relies on, that the macros
  convert between the little-endian host and network order, is the hypothesis \<open>swaps_ok\<close>.
\<close>

section \<open>Byte order\<close>

record swaps =
  bswap_16 :: "uint16_t \<Rightarrow> uint16_t"
  bswap_32 :: "uint32_t \<Rightarrow> uint32_t"

definition htons :: "'z swaps_scheme \<Rightarrow> uint16_t \<Rightarrow> uint16_t" where
  "htons P x = bswap_16 P x"

definition ntohs :: "'z swaps_scheme \<Rightarrow> uint16_t \<Rightarrow> uint16_t" where
  "ntohs P x = bswap_16 P x"

definition htonl :: "'z swaps_scheme \<Rightarrow> uint32_t \<Rightarrow> uint32_t" where
  "htonl P x = bswap_32 P x"

text \<open>The documented behaviour: the bytes of the value in the opposite order.\<close>

definition swap16 :: "uint16_t \<Rightarrow> uint16_t" where
  "swap16 x = mk16 (byte_of 1 x) (byte_of 0 x)"

definition swap32 :: "uint32_t \<Rightarrow> uint32_t" where
  "swap32 x = mk32 (byte_of 3 x) (byte_of 2 x) (byte_of 1 x) (byte_of 0 x)"

definition swaps_ok :: "'z swaps_scheme \<Rightarrow> bool" where
  "swaps_ok P \<longleftrightarrow> bswap_16 P = swap16 \<and> bswap_32 P = swap32"

text \<open>A concrete instance, for the witnesses.\<close>

definition avr_swaps :: swaps where
  "avr_swaps = \<lparr>bswap_16 = swap16, bswap_32 = swap32\<rparr>"

lemma swaps_ok_avr [simp]: "swaps_ok avr_swaps"
  by (simp add: swaps_ok_def avr_swaps_def)

lemma swap16_swap16 [simp]: "swap16 (swap16 x) = x"
  by (simp add: swap16_def)

lemma swap32_swap32 [simp]: "swap32 (swap32 x) = x"
  by (simp add: swap32_def)

lemma swap16_eq_iff [simp]: "swap16 x = swap16 y \<longleftrightarrow> x = y"
  by (metis swap16_swap16)

lemma swap32_eq_iff [simp]: "swap32 x = swap32 y \<longleftrightarrow> x = y"
  by (metis swap32_swap32)

lemma le16_swap16: "le16 (swap16 x) = rev (le16 x)"
  by (simp add: le16_def swap16_def)

lemma le32_swap32: "le32 (swap32 x) = rev (le32 x)"
  by (simp add: le32_def swap32_def)

named_theorems swap_simps \<open>byte order conversions under the documented behaviour\<close>

lemma swaps_okD [swap_simps]:
  assumes "swaps_ok P"
  shows "htons P x = swap16 x" "ntohs P x = swap16 x" "htonl P y = swap32 y"
  using assms by (simp_all add: swaps_ok_def htons_def ntohs_def htonl_def)

text \<open>The bytes of a value in network order, which is how a converted value lies in memory.\<close>

definition be16 :: "uint16_t \<Rightarrow> bytes" where
  "be16 x = [byte_of 1 x, byte_of 0 x]"

definition be32 :: "uint32_t \<Rightarrow> bytes" where
  "be32 x = [byte_of 3 x, byte_of 2 x, byte_of 1 x, byte_of 0 x]"

lemma length_be [simp]: "length (be16 x) = 2" "length (be32 y) = 4"
  by (simp_all add: be16_def be32_def)

lemma le16_htons: "swaps_ok P \<Longrightarrow> le16 (htons P x) = be16 x"
  by (simp add: swap_simps le16_swap16) (simp add: le16_def be16_def)

lemma le_swap_be: "le16 (swap16 x) = be16 x" "le32 (swap32 y) = be32 y"
  by (simp_all add: le16_swap16 le32_swap32) (simp_all add: le16_def le32_def be16_def be32_def)

lemma un16_be16 [simp]: "un16 (be16 x) = swap16 x"
  by (simp add: un16_def be16_def swap16_def)

lemma be16_eq_iff [simp]: "be16 x = be16 y \<longleftrightarrow> x = y"
  by (metis un16_be16 swap16_eq_iff)

section \<open>Constants of netinet/in.h and net/net.h\<close>

definition INADDR_ANY :: uint32_t where "INADDR_ANY = 0x00000000"
definition INADDR_BROADCAST :: uint32_t where "INADDR_BROADCAST = 0xFFFFFFFF"
definition INADDR_NONE :: uint32_t where "INADDR_NONE = 0xFFFFFFFF"
definition IPPROTO_ICMP :: uint8_t where "IPPROTO_ICMP = 1"
definition IPPROTO_TCP :: uint8_t where "IPPROTO_TCP = 6"
definition IPPROTO_UDP :: uint8_t where "IPPROTO_UDP = 17"
definition IPPROTO_RAW :: uint8_t where "IPPROTO_RAW = 255"
definition IN_CLASS_A :: int8_t where "IN_CLASS_A = 0"
definition IN_CLASS_A_MASK :: uint32_t where "IN_CLASS_A_MASK = 0xFF000000"
definition IN_CLASS_B :: int8_t where "IN_CLASS_B = 1"
definition IN_CLASS_B_MASK :: uint32_t where "IN_CLASS_B_MASK = 0xFFFF0000"
definition IN_CLASS_C :: int8_t where "IN_CLASS_C = 2"
definition IN_CLASS_C_MASK :: uint32_t where "IN_CLASS_C_MASK = 0xFFFFFF00"
definition IN_CLASS_D :: int8_t where "IN_CLASS_D = 3"
definition IN_CLASS_E :: int8_t where "IN_CLASS_E = 4"
definition IP4_LEN :: nat where "IP4_LEN = 4"

section \<open>Address classes\<close>

text \<open>
  \<open>ip\<close> points to the bytes of an address in network order (\<open>None\<close> is \<open>NULL\<close>), which the code
  dereferences before it tests the pointer; \<open>netmask\<close> is the cell behind the second pointer
  (\<open>None\<close> when the pointer is \<open>NULL\<close>).
\<close>

definition inet_class_determine ::
  "'z swaps_scheme \<Rightarrow> bytes option \<Rightarrow> uint32_t option \<Rightarrow> (int8_t \<times> uint32_t option) res" where
  "inet_class_determine P ip netmask =
     (case ip of
        None \<Rightarrow> Fault Null_deref
      | Some p \<Rightarrow>
          bnd (rd 0 1 p) (\<lambda>b. let msb = b ! 0 in
            if msb AND 0x80 = 0x00 then
              Ok (IN_CLASS_A, map_option (\<lambda>_. htonl P IN_CLASS_A_MASK) netmask)
            else if msb AND 0xC0 = 0x80 then
              Ok (IN_CLASS_B, map_option (\<lambda>_. htonl P IN_CLASS_B_MASK) netmask)
            else if msb AND 0xE0 = 0xC0 then
              Ok (IN_CLASS_C, map_option (\<lambda>_. htonl P IN_CLASS_C_MASK) netmask)
            else if msb AND 0xF0 = 0xE0 then Ok (IN_CLASS_D, netmask)
            else if msb AND 0xF0 = 0xF0 then Ok (IN_CLASS_E, netmask)
            else Ok (-1, netmask)))"

section \<open>Dotted decimal\<close>

text \<open>
  \<open>atol\<close> of the C library: leading white space and a sign are skipped, then the decimal digits are
  read up to the first other character.  A string is the list of its characters before the
  terminating NUL, so \<open>[]\<close> stands for \<open>*cp = 0\<close>.
\<close>

definition is_digit :: "char \<Rightarrow> bool" where
  "is_digit c \<longleftrightarrow> 48 \<le> (of_char c :: nat) \<and> (of_char c :: nat) \<le> 57"

definition is_space :: "char \<Rightarrow> bool" where
  "is_space c \<longleftrightarrow> (of_char c :: nat) = 32 \<or> 9 \<le> (of_char c :: nat) \<and> (of_char c :: nat) \<le> 13"

fun atol_digits :: "int \<Rightarrow> string \<Rightarrow> int" where
  "atol_digits acc [] = acc"
| "atol_digits acc (c # cs) =
     (if is_digit c then atol_digits (10 * acc + (of_char c - 48)) cs else acc)"

fun atol :: "string \<Rightarrow> int" where
  "atol [] = 0"
| "atol (c # cs) =
     (if is_space c then atol cs
      else if c = CHR ''-'' then - atol_digits 0 cs
      else if c = CHR ''+'' then atol_digits 0 cs
      else atol_digits 0 (c # cs))"

text \<open>
  The inner loop of \<open>inet_addr\<close>: at most three characters up to a dot or the end go to \<open>tmp_str\<close>.
  It returns the string collected and the rest from \<open>cp\<close> on.
\<close>

fun addr_token :: "nat \<Rightarrow> string \<Rightarrow> string \<times> string" where
  "addr_token y [] = ([], [])"
| "addr_token y (c # cp) =
     (if c \<noteq> CHR ''.'' \<and> y < 3 then let (t, r) = addr_token (y + 1) cp in (c # t, r)
      else ([], c # cp))"

text \<open>The outer loop, four rounds; after each the separator is skipped unless the string ended.\<close>

fun addr_loop :: "nat \<Rightarrow> string \<Rightarrow> uint32_t \<Rightarrow> uint32_t" where
  "addr_loop 0 cp ip = ip"
| "addr_loop (Suc i) cp ip =
     (let (tmp_str, cp) = addr_token 0 cp;
          ip = push_bit 8 ip OR (of_int (atol tmp_str) AND 0xFF)
      in addr_loop i (case cp of [] \<Rightarrow> [] | _ # cp \<Rightarrow> cp) ip)"

definition inet_addr :: "'z swaps_scheme \<Rightarrow> string \<Rightarrow> uint32_t" where
  "inet_addr P cp = htonl P (addr_loop 4 cp 0)"

text \<open>Functions the source leaves as stubs: they ignore their arguments.\<close>

definition inet_aton :: "string \<Rightarrow> uint32_t \<Rightarrow> int8_t \<times> uint32_t" where
  "inet_aton cp inp = (0, inp)"

definition inet_ntoa :: "uint32_t \<Rightarrow> string option" where
  "inet_ntoa i = None"

definition inet_ntop :: "int8_t \<Rightarrow> bytes \<Rightarrow> string \<Rightarrow> uint8_t \<Rightarrow> string option" where
  "inet_ntop af src dst sz = None"

definition inet_pton :: "int8_t \<Rightarrow> string \<Rightarrow> bytes \<Rightarrow> int8_t \<times> bytes" where
  "inet_pton af src dst = (0, dst)"

lemmas in_consts = INADDR_ANY_def INADDR_BROADCAST_def INADDR_NONE_def
  IN_CLASS_A_def IN_CLASS_B_def IN_CLASS_C_def IN_CLASS_D_def IN_CLASS_E_def
  IN_CLASS_A_MASK_def IN_CLASS_B_MASK_def IN_CLASS_C_MASK_def IP4_LEN_def
  IPPROTO_ICMP_def IPPROTO_TCP_def IPPROTO_UDP_def IPPROTO_RAW_def

section \<open>Lemmas\<close>

text \<open>The class of an address as the ranges of its first octet.\<close>

definition addr_class :: "uint8_t \<Rightarrow> nat" where
  "addr_class b = (if unat b < 128 then 0 else if unat b < 192 then 1 else if unat b < 224 then 2
     else if unat b < 240 then 3 else 4)"

definition class_mask :: "nat \<Rightarrow> bytes option" where
  "class_mask k = (if k = 0 then Some [255, 0, 0, 0] else if k = 1 then Some [255, 255, 0, 0]
     else if k = 2 then Some [255, 255, 255, 0] else None)"

text \<open>Masking off the low bits of an octet rounds it down; the tests of the code are range tests.\<close>

lemma unat_and_high:
  fixes b :: uint8_t
  shows "unat (b AND NOT (mask j)) = unat b div 2 ^ j * 2 ^ j"
proof -
  have "b AND NOT (mask j) = push_bit j (drop_bit j b)"
    by (rule bit_word_eqI) (auto simp: bit_simps)
  moreover have "unat (drop_bit j b) = unat b div 2 ^ j"
    using drop_bit_eq_div[of j "unat b"] by (simp add: unat_drop_bit_eq)
  moreover have "unat b div 2 ^ j * 2 ^ j < 256"
    using div_times_less_eq_dividend[of "unat b" "2 ^ j"] unat8_less[of b] by linarith
  ultimately show ?thesis
    by (simp add: unsigned_push_bit_eq) (simp add: push_bit_eq_mult take_bit_eq_mod)
qed

lemma div_times_eq_iff:
  fixes n k q :: nat
  assumes "0 < k"
  shows "n div k * k = q * k \<longleftrightarrow> q * k \<le> n \<and> n < q * k + k"
proof
  assume "n div k * k = q * k"
  then show "q * k \<le> n \<and> n < q * k + k"
    using assms dividend_less_div_times[of k n] div_times_less_eq_dividend[of n k] by simp
next
  assume "q * k \<le> n \<and> n < q * k + k"
  then have "n div k = q" by (intro div_nat_eqI) (simp_all add: mult.commute)
  then show "n div k * k = q * k" by simp
qed

lemma high_masks:
  "(0x80 :: uint8_t) = NOT (mask 7)" "(0xC0 :: uint8_t) = NOT (mask 6)"
  "(0xE0 :: uint8_t) = NOT (mask 5)" "(0xF0 :: uint8_t) = NOT (mask 4)"
  by (simp_all add: mask_eq_exp_minus_1)

lemma class_tests:
  "(b AND 0x80 = 0x00) = (addr_class b = 0) \<and> (b AND 0xC0 = 0x80) = (addr_class b = 1) \<and>
   (b AND 0xE0 = 0xC0) = (addr_class b = 2) \<and> (b AND 0xF0 = 0xE0) = (addr_class b = 3) \<and>
   (b AND 0xF0 = 0xF0) = (addr_class b = 4)" for b :: uint8_t
proof -
  have "unat (b AND 0x80) = unat b div 128 * 128" "unat (b AND 0xC0) = unat b div 64 * 64"
    "unat (b AND 0xE0) = unat b div 32 * 32" "unat (b AND 0xF0) = unat b div 16 * 16"
    unfolding high_masks by (simp_all add: unat_and_high)
  then show ?thesis
    using div_times_eq_iff[of 128 "unat b" 0] div_times_eq_iff[of 64 "unat b" 2]
      div_times_eq_iff[of 32 "unat b" 6] div_times_eq_iff[of 16 "unat b" 14]
      div_times_eq_iff[of 16 "unat b" 15] unat8_le[of b]
    by (simp add: word_unat_eq_iff addr_class_def del: unat8_le)
qed

lemma addr_class_le: "addr_class b \<le> 4"
  by (simp add: addr_class_def)

lemma inet_class_determine_code:
  assumes "0 < length p"
  shows "inet_class_determine P (Some p) None = Ok (of_nat (addr_class (p ! 0)), None)"
proof -
  have "addr_class (p ! 0) = 0 \<or> addr_class (p ! 0) = 1 \<or> addr_class (p ! 0) = 2 \<or> addr_class (p ! 0) = 3 \<or>
      addr_class (p ! 0) = 4"
    using addr_class_le[of "p ! 0"] by linarith
  moreover have "bslice 0 1 p ! 0 = p ! 0" using assms by (simp add: bslice_def)
  ultimately show ?thesis
    using class_tests[of "p ! 0"] assms
    by (elim disjE) (simp_all add: inet_class_determine_def Suc_le_eq in_consts)
qed

lemma masks_swapped:
  "le32 (swap32 IN_CLASS_A_MASK) = [255, 0, 0, 0]" "le32 (swap32 IN_CLASS_B_MASK) = [255, 255, 0, 0]"
  "le32 (swap32 IN_CLASS_C_MASK) = [255, 255, 255, 0]"
  by code_simp+

text \<open>Decimal rendering of an octet and dotted-decimal notation.\<close>

definition octet_digits :: "nat \<Rightarrow> nat list" where
  "octet_digits n = (if n < 10 then [n] else if n < 100 then [n div 10, n mod 10]
     else [n div 100, n div 10 mod 10, n mod 10])"

definition show_octet :: "uint8_t \<Rightarrow> string" where
  "show_octet b = map (\<lambda>k. char_of (48 + k)) (octet_digits (unat b))"

definition dotted :: "uint8_t \<Rightarrow> uint8_t \<Rightarrow> uint8_t \<Rightarrow> uint8_t \<Rightarrow> string" where
  "dotted a b c d = show_octet a @ ''.'' @ show_octet b @ ''.'' @ show_octet c @ ''.'' @ show_octet d"

lemma digit_char:
  assumes "k < 10"
  shows "(of_char (char_of (48 + k :: nat)) :: nat) = 48 + k"
    "(of_char (char_of (48 + k :: nat)) :: int) = 48 + int k"
    "char_of (48 + k :: nat) \<noteq> CHR ''.''" "char_of (48 + k :: nat) \<noteq> CHR ''-''"
    "char_of (48 + k :: nat) \<noteq> CHR ''+''"
proof -
  show n: "(of_char (char_of (48 + k :: nat)) :: nat) = 48 + k" using assms by simp
  have "(of_char c :: int) = int (of_char c)" for c by (simp add: of_char_def)
  with n show "(of_char (char_of (48 + k :: nat)) :: int) = 48 + int k" by simp
  show "char_of (48 + k :: nat) \<noteq> CHR ''.''" "char_of (48 + k :: nat) \<noteq> CHR ''-''"
    "char_of (48 + k :: nat) \<noteq> CHR ''+''"
    using n assms by (auto dest: arg_cong[of _ _ "of_char :: char \<Rightarrow> nat"])
qed

lemma atol_digits_map:
  "\<forall>k \<in> set ks. k < 10 \<Longrightarrow>
     atol_digits (int acc) (map (\<lambda>k. char_of (48 + k)) ks) = int (foldl (\<lambda>a k. 10 * a + k) acc ks)"
proof (induction ks arbitrary: acc)
  case (Cons k ks)
  then show ?case using Cons.IH[of "10 * acc + k"] by (simp add: is_digit_def digit_char)
qed simp

lemma atol_map:
  assumes "\<forall>k \<in> set ks. k < 10"
  shows "atol (map (\<lambda>k. char_of (48 + k)) ks) = int (foldl (\<lambda>a k. 10 * a + k) 0 ks)"
proof (cases ks)
  case (Cons k js)
  with assms have "k < 10" by simp
  then have "atol (map (\<lambda>k. char_of (48 + k)) ks) = atol_digits 0 (map (\<lambda>k. char_of (48 + k)) ks)"
    using Cons by (simp add: is_space_def digit_char del: atol_digits.simps)
  then show ?thesis using atol_digits_map[OF assms, of 0] by simp
qed simp

lemma octet_digits:
  assumes "n < 256"
  shows "foldl (\<lambda>a k. 10 * a + k) 0 (octet_digits n) = n" "\<forall>k \<in> set (octet_digits n). k < 10"
    "length (octet_digits n) \<le> 3"
proof -
  have "n div 100 = n div 10 div 10" by (simp flip: div_mult2_eq)
  then have "10 * (10 * (n div 100) + n div 10 mod 10) + n mod 10 = n" by (simp only: mult_div_mod_eq)
  then show "foldl (\<lambda>a k. 10 * a + k) 0 (octet_digits n) = n"
    by (simp add: octet_digits_def)
  show "\<forall>k \<in> set (octet_digits n). k < 10"
    using assms by (simp add: octet_digits_def less_mult_imp_div_less)
  show "length (octet_digits n) \<le> 3" by (simp add: octet_digits_def)
qed

lemma show_octet:
  "atol (show_octet b) = int (unat b)" "CHR ''.'' \<notin> set (show_octet b)" "length (show_octet b) \<le> 3"
  using octet_digits[OF unat8_less[of b]]
  by (simp_all add: show_octet_def atol_map) (auto simp: digit_char dest!: sym[of "CHR ''.''"])

lemma addr_token_dot:
  "CHR ''.'' \<notin> set t \<Longrightarrow> y + length t \<le> 3 \<Longrightarrow> addr_token y (t @ CHR ''.'' # r) = (t, CHR ''.'' # r)"
  by (induction t arbitrary: y) auto

lemma addr_token_end:
  "CHR ''.'' \<notin> set t \<Longrightarrow> y + length t \<le> 3 \<Longrightarrow> addr_token y t = (t, [])"
  by (induction t arbitrary: y) auto

lemma addr_loop_step:
  "addr_loop (Suc i) (show_octet b @ CHR ''.'' # r) ip = addr_loop i r (push_bit 8 ip OR ucast b)"
  "addr_loop (Suc 0) (show_octet b) ip = push_bit 8 ip OR ucast b"
proof -
  have m: "(0xFF :: uint32_t) = mask 8" by (simp add: mask_eq_exp_minus_1)
  have "(of_nat (unat b) :: uint32_t) AND 0xFF = ucast b"
    unfolding m by (rule bit_word_eqI) (auto simp: bit_simps dest: bit_imp_le_length)
  then show "addr_loop (Suc i) (show_octet b @ CHR ''.'' # r) ip = addr_loop i r (push_bit 8 ip OR ucast b)"
    and "addr_loop (Suc 0) (show_octet b) ip = push_bit 8 ip OR ucast b"
    using show_octet[of b] by (simp_all add: addr_token_dot addr_token_end)
qed

lemma octets_or:
  "push_bit 8 (push_bit 8 (push_bit 8 (push_bit 8 0 OR ucast a) OR ucast b) OR ucast c) OR ucast d
     = mk32 d c b a"
  by (rule bit_word_eqI) (auto simp: bit_mk32 bit_simps dest: bit_imp_le_length)

lemma addr_loop_dotted: "addr_loop 4 (dotted a b c d) 0 = mk32 d c b a"
  unfolding octets_or[symmetric]
  by (simp add: dotted_def eval_nat_numeral addr_loop_step del: addr_loop.simps)

lemma inet_class_determine_mask:
  assumes "swaps_ok P" and "ip \<noteq> []"
  shows "\<exists>nm'. inet_class_determine P (Some ip) (Some nm) = Ok (of_nat (addr_class (hd ip)), Some nm') \<and>
    (case class_mask (addr_class (hd ip)) of Some bs \<Rightarrow> le32 nm' = bs | None \<Rightarrow> nm' = nm)"
proof -
  obtain b bs where ip: "ip = b # bs" using assms(2) by (cases ip) auto
  have "addr_class b = 0 \<or> addr_class b = 1 \<or> addr_class b = 2 \<or> addr_class b = 3 \<or> addr_class b = 4"
    using addr_class_le[of b] by linarith
  then show ?thesis
    using class_tests[of b] assms(1)
    by (elim disjE) (simp_all add: ip inet_class_determine_def bslice_def class_mask_def swap_simps masks_swapped
        IN_CLASS_A_def IN_CLASS_B_def IN_CLASS_C_def IN_CLASS_D_def IN_CLASS_E_def)
qed

lemma le32_inet_addr: "swaps_ok P \<Longrightarrow> le32 (inet_addr P (dotted a b c d)) = [a, b, c, d]"
  by (simp add: inet_addr_def addr_loop_dotted swap_simps le32_swap32) (simp add: le32_def)

section \<open>Properties\<close>

text \<open>With the documented byte swaps the conversion macros put a value in memory with its most
  significant byte first, and converting back gives the value.\<close>

theorem byte_order_roundtrip:
  assumes "swaps_ok P"
  shows "le16 (htons P x) = [byte_of 1 x, byte_of 0 x] \<and> ntohs P (htons P x) = x \<and>
    le32 (htonl P y) = [byte_of 3 y, byte_of 2 y, byte_of 1 y, byte_of 0 y] \<and> htonl P (htonl P y) = y"
  using assms by (simp add: swap_simps le16_swap16 le32_swap32 del: byte_of_mk16 byte_of_mk32)
    (simp add: le16_def le32_def)

theorem byte_order_roundtrip_witness:
  "le16 (htons avr_swaps 0x0806) = [byte_of 1 (0x0806 :: uint16_t), byte_of 0 (0x0806 :: uint16_t)]"
  using byte_order_roundtrip[OF swaps_ok_avr, of "0x0806"] by simp

text \<open>\<open>inet_class_determine\<close> classifies every address by the ranges of its first octet (A below
  128, B below 192, C below 224, D below 240, else E), never fails, and writes the mask of the class
  in network order for A, B and C only, leaving the cell alone for D and E.\<close>

theorem inet_class_determine_classes:
  assumes "swaps_ok P" and "ip \<noteq> []"
  shows "\<exists>nm'. inet_class_determine P (Some ip) (Some nm) = Ok (of_nat (addr_class (hd ip)), Some nm') \<and>
    (case class_mask (addr_class (hd ip)) of Some bs \<Rightarrow> le32 nm' = bs | None \<Rightarrow> nm' = nm)"
  by (rule inet_class_determine_mask[OF assms])

theorem inet_class_determine_classes_witness:
  "\<exists>nm'. inet_class_determine avr_swaps (Some [192, 168, 0, 7]) (Some 0) = Ok (2, Some nm') \<and>
    le32 nm' = [255, 255, 255, 0]"
  using inet_class_determine_classes[OF swaps_ok_avr, of "[192, 168, 0, 7]" 0]
  by (simp add: addr_class_def class_mask_def)

text \<open>C38: parsing the dotted-decimal notation of four octets gives the address whose bytes in memory
  are those octets in network order, for every address.\<close>

theorem inet_addr_dotted:
  assumes "swaps_ok P"
  shows "le32 (inet_addr P (dotted a b c d)) = [a, b, c, d]"
  by (rule le32_inet_addr[OF assms])

theorem inet_addr_dotted_witness:
  "dotted 192 168 0 7 = ''192.168.0.7'' \<and> le32 (inet_addr avr_swaps ''192.168.0.7'') = [192, 168, 0, 7]"
proof -
  have "dotted 192 168 0 7 = ''192.168.0.7''" by code_simp
  then show ?thesis using inet_addr_dotted[OF swaps_ok_avr, of 192 168 0 7] by simp
qed

text \<open>The parser has no error result: a string with no digit in any of its fields, such as the
  empty string, reads as 0.0.0.0 and not as the \<open>(in_addr_t)(-1)\<close> its comment announces.\<close>

theorem inet_addr_no_error:
  "inet_addr P [] = htonl P 0 \<and> inet_addr P ''abc'' = htonl P 0 \<and> inet_addr P ''..x.y'' = htonl P 0"
proof -
  have "addr_loop 4 [] 0 = 0" "addr_loop 4 ''abc'' 0 = 0" "addr_loop 4 ''..x.y'' 0 = 0"
    by code_simp+
  then show ?thesis by (simp add: inet_addr_def)
qed

end
