(* ===== verification/Net_Dev.thy ===== *)
theory Net_Dev
  imports Nb_Queue Inet
begin

text \<open>
  Network devices (\<open>net/net_dev.h\<close>, \<open>net/net_dev.c\<close>) and the interrupt entry
  (\<open>net/interrupt.c\<close>).

  The functions of a driver are not part of the repository.  A device refers to a table of function
  pointers (\<open>struct net_dev_ops_s\<close>, in program memory) by its address; the field \<open>ops\<close> of the
  record \<open>platform\<close>, an argument of every definition that calls a driver, gives the tables.  The other
  field, \<open>isr\<close>, is what the interrupt handlers do between two rounds of a busy-wait loop.  The hidden
  state of the drivers is the field \<open>hw\<close> of the world, of a type of their own; their functions are
  state transformers of the whole world.
\<close>

section \<open>Data\<close>

datatype header_create = Eth_header_create

text \<open>\<open>nd_header_ops\<close>: \<open>None\<close> is a null pointer, \<open>Some c\<close> a table whose \<open>create\<close> entry is \<open>c\<close>.\<close>

record net_dev =
  nd_up_state :: bool
  nd_link_status :: bool
  nd_full_duplex :: bool
  nd_rx_mode :: "5 word"
  nd_tx_allow :: bool
  nd_netdev_ops :: addr
  nd_header_ops :: "header_create option option"
  nd_mtu :: uint16_t
  nd_dev_addr :: bytes
  nd_broadcast :: bytes
  nd_priv :: bytes

record 'h dev_world = nb_world +
  devs :: "addr \<Rightarrow> net_dev option"
  curr_net_dev :: addr
  irq_net_dev :: addr
  hw :: 'h

record 'w net_dev_ops =
  op_init :: "(addr \<Rightarrow> 'w \<Rightarrow> int8_t \<times> 'w) option"
  op_open :: "(addr \<Rightarrow> 'w \<Rightarrow> int8_t \<times> 'w) option"
  op_stop :: "(addr \<Rightarrow> 'w \<Rightarrow> 'w) option"
  op_start_tx :: "(nbp \<Rightarrow> addr \<Rightarrow> 'w \<Rightarrow> int8_t \<times> 'w) option"
  op_set_rx_mode :: "(addr \<Rightarrow> 'w \<Rightarrow> 'w) option"
  op_set_mac_addr :: "(addr \<Rightarrow> bytes \<Rightarrow> 'w \<Rightarrow> int8_t \<times> 'w) option"
  op_set_dev_settings :: "(addr \<Rightarrow> bool \<Rightarrow> 'w \<Rightarrow> int8_t \<times> 'w) option"
  op_irq_handler :: "(addr \<Rightarrow> 'w \<Rightarrow> 'w) option"

record 'w platform = swaps +
  ops :: "addr \<Rightarrow> 'w net_dev_ops"
  isr :: "'w \<Rightarrow> 'w"

definition NETDEV_RX_SUCCESS :: int8_t where "NETDEV_RX_SUCCESS = 0"
definition NETDEV_RX_DROP :: int8_t where "NETDEV_RX_DROP = 1"
definition NET_XMIT_MASK :: int8_t where "NET_XMIT_MASK = 0x0F"
definition NETDEV_TX_OK :: int8_t where "NETDEV_TX_OK = 0x00"
definition NETDEV_TX_BUSY :: int8_t where "NETDEV_TX_BUSY = 0x10"
definition RX_RT_BROADCAST :: "5 word" where "RX_RT_BROADCAST = push_bit 0 1"
definition RX_RT_MULTICAST :: "5 word" where "RX_RT_MULTICAST = push_bit 1 1"

section \<open>Device state\<close>

definition load_dev :: "('h, 'w) dev_world_scheme \<Rightarrow> addr \<Rightarrow> net_dev res" where
  "load_dev w d = (if d = 0 then Fault Null_deref
     else case devs w d of None \<Rightarrow> Fault Dangling | Some x \<Rightarrow> Ok x)"

definition upd_dev :: "addr \<Rightarrow> (net_dev \<Rightarrow> net_dev) \<Rightarrow> ('h, 'w) dev_world_scheme \<Rightarrow> ('h, 'w) dev_world_scheme res" where
  "upd_dev d f w = bnd (load_dev w d) (\<lambda>x. Ok (w\<lparr>devs := (devs w)(d \<mapsto> f x)\<rparr>))"

text \<open>The table of a device, read through its pointer.\<close>

definition dev_ops :: "('h, 'w) dev_world_scheme platform \<Rightarrow> ('h, 'w) dev_world_scheme \<Rightarrow> addr \<Rightarrow>
    ('h, 'w) dev_world_scheme net_dev_ops res" where
  "dev_ops P w d = bnd (load_dev w d) (\<lambda>x.
     if nd_netdev_ops x = 0 then Fault Null_deref else Ok (ops P (nd_netdev_ops x)))"

definition net_dev_set_upstate_run :: "addr \<Rightarrow> ('h, 'w) dev_world_scheme \<Rightarrow> ('h, 'w) dev_world_scheme res" where
  "net_dev_set_upstate_run d = upd_dev d (nd_up_state_update (\<lambda>_. True))"

definition net_dev_set_upstate_stop :: "addr \<Rightarrow> ('h, 'w) dev_world_scheme \<Rightarrow> ('h, 'w) dev_world_scheme res" where
  "net_dev_set_upstate_stop d = upd_dev d (nd_up_state_update (\<lambda>_. False))"

definition net_dev_upstate_is_run :: "('h, 'w) dev_world_scheme \<Rightarrow> addr \<Rightarrow> bool res" where
  "net_dev_upstate_is_run w d = bnd (load_dev w d) (\<lambda>x. Ok (nd_up_state x))"

definition net_dev_set_link_up :: "addr \<Rightarrow> ('h, 'w) dev_world_scheme \<Rightarrow> ('h, 'w) dev_world_scheme res" where
  "net_dev_set_link_up d = upd_dev d (nd_link_status_update (\<lambda>_. True))"

definition net_dev_set_link_down :: "addr \<Rightarrow> ('h, 'w) dev_world_scheme \<Rightarrow> ('h, 'w) dev_world_scheme res" where
  "net_dev_set_link_down d = upd_dev d (nd_link_status_update (\<lambda>_. False))"

definition net_dev_link_is_up :: "('h, 'w) dev_world_scheme \<Rightarrow> addr \<Rightarrow> bool res" where
  "net_dev_link_is_up w d = bnd (load_dev w d) (\<lambda>x. Ok (nd_link_status x))"

definition net_dev_tx_allow :: "addr \<Rightarrow> ('h, 'w) dev_world_scheme \<Rightarrow> ('h, 'w) dev_world_scheme res" where
  "net_dev_tx_allow d = upd_dev d (nd_tx_allow_update (\<lambda>_. True))"

definition net_dev_tx_disallow :: "addr \<Rightarrow> ('h, 'w) dev_world_scheme \<Rightarrow> ('h, 'w) dev_world_scheme res" where
  "net_dev_tx_disallow d = upd_dev d (nd_tx_allow_update (\<lambda>_. False))"

definition net_dev_tx_is_allow :: "('h, 'w) dev_world_scheme \<Rightarrow> addr \<Rightarrow> bool res" where
  "net_dev_tx_is_allow w d = bnd (load_dev w d) (\<lambda>x. Ok (nd_tx_allow x))"

definition net_dev_xmit_complete :: "int8_t \<Rightarrow> bool" where
  "net_dev_xmit_complete val \<longleftrightarrow> sint val < sint NET_XMIT_MASK"

section \<open>Life cycle\<close>

definition net_dev_alloc :: "uint8_t \<Rightarrow> (addr \<Rightarrow> ('h, 'w) dev_world_scheme \<Rightarrow> ('h, 'w) dev_world_scheme res) \<Rightarrow>
    ('h, 'w) dev_world_scheme \<Rightarrow> (addr \<times> ('h, 'w) dev_world_scheme) res" where
  "net_dev_alloc size' setup w =
     (let (ndev, w) = malloc (\<lambda>a. devs w a \<noteq> None) w in
      if ndev = 0 then Ok (0, w) else
      bnd (setup ndev (w\<lparr>devs := (devs w)(ndev \<mapsto>
        \<lparr>nd_up_state = False, nd_link_status = False, nd_full_duplex = False, nd_rx_mode = 0, nd_tx_allow = False,
         nd_netdev_ops = 0, nd_header_ops = None, nd_mtu = 0, nd_dev_addr = replicate 6 0,
         nd_broadcast = replicate 6 0, nd_priv = replicate (unat size') 0\<rparr>)\<rparr>))
      (\<lambda>w. Ok (ndev, w)))"

definition net_dev_free :: "addr \<Rightarrow> ('h, 'w) dev_world_scheme \<Rightarrow> ('h, 'w) dev_world_scheme res" where
  "net_dev_free d w =
     (if d = 0 then Ok w else if devs w d = None then Fault Bad_free
      else Ok (w\<lparr>devs := (devs w)(d := None)\<rparr>))"

definition netdev_register :: "('h, 'w) dev_world_scheme platform \<Rightarrow> addr \<Rightarrow> ('h, 'w) dev_world_scheme \<Rightarrow>
    (int8_t \<times> ('h, 'w) dev_world_scheme) res" where
  "netdev_register P d w =
     bnd (dev_ops P w d) (\<lambda>t.
     let (err, w) = (case op_init t of None \<Rightarrow> (0, w) | Some init_f \<Rightarrow> init_f d w) in
     if err \<noteq> 0 then Ok (err, w) else Ok (err, w\<lparr>curr_net_dev := d\<rparr>))"

definition netdev_unregister :: "('h, 'w) dev_world_scheme platform \<Rightarrow> addr \<Rightarrow> ('h, 'w) dev_world_scheme \<Rightarrow>
    ('h, 'w) dev_world_scheme res" where
  "netdev_unregister P d w =
     bnd (dev_ops P w d) (\<lambda>t.
     let w = (case op_stop t of None \<Rightarrow> w | Some stop_f \<Rightarrow> stop_f d w) in
     Ok (w\<lparr>curr_net_dev := 0\<rparr>))"

definition netdev_set_rx_mode :: "('h, 'w) dev_world_scheme platform \<Rightarrow> addr \<Rightarrow> ('h, 'w) dev_world_scheme \<Rightarrow>
    ('h, 'w) dev_world_scheme res" where
  "netdev_set_rx_mode P d w =
     bnd (net_dev_upstate_is_run w d) (\<lambda>run.
     if \<not> run then Ok w else
     bnd (dev_ops P w d) (\<lambda>t. Ok (case op_set_rx_mode t of None \<Rightarrow> w | Some f \<Rightarrow> f d w)))"

definition netdev_open :: "('h, 'w) dev_world_scheme platform \<Rightarrow> addr \<Rightarrow> ('h, 'w) dev_world_scheme \<Rightarrow>
    (int8_t \<times> ('h, 'w) dev_world_scheme) res" where
  "netdev_open P d w =
     bnd (net_dev_upstate_is_run w d) (\<lambda>run.
     if run then Ok (0, w) else
     bnd (dev_ops P w d) (\<lambda>t.
     let (err, w) = (case op_open t of None \<Rightarrow> (0, w) | Some open_f \<Rightarrow> open_f d w) in
     if err = 0 then
       bnd (net_dev_set_upstate_run d w) (\<lambda>w.
       bnd (netdev_set_rx_mode P d w) (\<lambda>w. Ok (err, w)))
     else Ok (err, w)))"

definition netdev_close :: "('h, 'w) dev_world_scheme platform \<Rightarrow> addr \<Rightarrow> ('h, 'w) dev_world_scheme \<Rightarrow>
    ('h, 'w) dev_world_scheme res" where
  "netdev_close P d w =
     bnd (net_dev_upstate_is_run w d) (\<lambda>run.
     if \<not> run then Ok w else
     bnd (dev_ops P w d) (\<lambda>t.
     net_dev_set_upstate_stop d (case op_stop t of None \<Rightarrow> w | Some stop_f \<Rightarrow> stop_f d w)))"

definition netdev_set_mac_addr :: "('h, 'w) dev_world_scheme platform \<Rightarrow> addr \<Rightarrow> bytes option \<Rightarrow>
    ('h, 'w) dev_world_scheme \<Rightarrow> (int8_t \<times> ('h, 'w) dev_world_scheme) res" where
  "netdev_set_mac_addr P d addr w =
     bnd (dev_ops P w d) (\<lambda>t.
     case addr of None \<Rightarrow> Ok (-1, w)
     | Some mac \<Rightarrow> (case op_set_mac_addr t of None \<Rightarrow> Ok (-1, w) | Some f \<Rightarrow> Ok (f d mac w)))"

definition netdev_set_settings :: "('h, 'w) dev_world_scheme platform \<Rightarrow> addr \<Rightarrow> bool \<Rightarrow>
    ('h, 'w) dev_world_scheme \<Rightarrow> (int8_t \<times> ('h, 'w) dev_world_scheme) res" where
  "netdev_set_settings P d full_duplex w =
     bnd (dev_ops P w d) (\<lambda>t.
     case op_set_dev_settings t of None \<Rightarrow> Ok (-1, w) | Some f \<Rightarrow> Ok (f d full_duplex w))"

section \<open>Transmission\<close>

definition netdev_start_tx :: "('h, 'w) dev_world_scheme platform \<Rightarrow> nbp \<Rightarrow> addr \<Rightarrow> ('h, 'w) dev_world_scheme \<Rightarrow>
    (int8_t \<times> ('h, 'w) dev_world_scheme) res" where
  "netdev_start_tx P nb d w =
     bnd (dev_ops P w d) (\<lambda>t.
     case op_start_tx t of None \<Rightarrow> Fault Null_deref | Some start_tx_f \<Rightarrow> Ok (start_tx_f nb d w))"

text \<open>
  The loop of \<open>netdev_list_xmit\<close>.  Each round polls the flags of the device and spends one unit of
  fuel; interrupts run at the end of a round.  The result is the remaining list and the last code.
\<close>

fun list_xmit_loop :: "('h, 'w) dev_world_scheme platform \<Rightarrow> nat \<Rightarrow> addr \<Rightarrow> nbp \<Rightarrow> int8_t \<Rightarrow> ('h, 'w) dev_world_scheme \<Rightarrow>
    (nbp \<times> int8_t \<times> ('h, 'w) dev_world_scheme) res" where
  "list_xmit_loop P 0 d nb err w = Fault Out_of_fuel"
| "list_xmit_loop P (Suc fuel) d nb err w =
     bnd (load_dev w d) (\<lambda>x.
     if nd_up_state x \<and> nd_link_status x \<and> nb \<noteq> NULLP then
       if \<not> nd_tx_allow x then list_xmit_loop P fuel d nb err (isr P w) else
       bnd (load_nb w nb) (\<lambda>b.
       let next' = nb_next b in
       bnd (netdev_start_tx P nb d (store_nb nb (b\<lparr>nb_next := NULLP\<rparr>) w)) (\<lambda>(err, w).
       if \<not> net_dev_xmit_complete err then
         bnd (load_nb w nb) (\<lambda>b.
         list_xmit_loop P fuel d nb err (isr P (store_nb nb (b\<lparr>nb_next := next'\<rparr>) w)))
       else list_xmit_loop P fuel d next' err (isr P w)))
     else Ok (nb, err, w))"

definition netdev_list_xmit :: "('h, 'w) dev_world_scheme platform \<Rightarrow> nat \<Rightarrow> nbp \<Rightarrow> ('h, 'w) dev_world_scheme \<Rightarrow>
    (int8_t \<times> ('h, 'w) dev_world_scheme) res" where
  "netdev_list_xmit P fuel nb w =
     bnd (load_nb w nb) (\<lambda>b.
     bnd (list_xmit_loop P fuel (nb_net_dev b) nb NETDEV_TX_BUSY w) (\<lambda>(nb, err, w).
     if net_dev_xmit_complete err then Ok (err, w)
     else bnd (free_net_buff_list fuel nb w) (\<lambda>w. Ok (-1, w))))"

text \<open>The two loops of \<open>netdev_queue_xmit\<close>: the inner one sends one buffer.\<close>

fun queue_xmit_one :: "('h, 'w) dev_world_scheme platform \<Rightarrow> nat \<Rightarrow> nbp \<Rightarrow> addr \<Rightarrow> int8_t \<Rightarrow> ('h, 'w) dev_world_scheme \<Rightarrow>
    (int8_t \<times> ('h, 'w) dev_world_scheme) res" where
  "queue_xmit_one P 0 nb d err w = Fault Out_of_fuel"
| "queue_xmit_one P (Suc fuel) nb d err w =
     bnd (load_dev w d) (\<lambda>x.
     if nd_up_state x \<and> nd_link_status x then
       if \<not> nd_tx_allow x then queue_xmit_one P fuel nb d err (isr P w) else
       bnd (netdev_start_tx P nb d w) (\<lambda>(err, w).
       if net_dev_xmit_complete err then Ok (err, w)
       else queue_xmit_one P fuel nb d err (isr P w))
     else Ok (err, w))"

fun queue_xmit_loop :: "('h, 'w) dev_world_scheme platform \<Rightarrow> nat \<Rightarrow> nat \<Rightarrow> qref \<Rightarrow> int8_t \<Rightarrow> ('h, 'w) dev_world_scheme \<Rightarrow>
    (int8_t \<times> ('h, 'w) dev_world_scheme) res" where
  "queue_xmit_loop P fuel0 0 q err w = Fault Out_of_fuel"
| "queue_xmit_loop P fuel0 (Suc fuel) q err w =
     bnd (nb_dequeue q w) (\<lambda>(nb, w).
     if nb = NULLP then Ok (err, w) else
     bnd (load_nb w nb) (\<lambda>b.
     bnd (queue_xmit_one P fuel0 nb (nb_net_dev b) (-1) w) (\<lambda>(err, w).
     if \<not> net_dev_xmit_complete err then
       bnd (nb_queue_clear fuel0 q w) (\<lambda>w. Ok (-1, w))
     else queue_xmit_loop P fuel0 fuel q err w)))"

definition netdev_queue_xmit :: "('h, 'w) dev_world_scheme platform \<Rightarrow> nat \<Rightarrow> qref \<Rightarrow> ('h, 'w) dev_world_scheme \<Rightarrow>
    (int8_t \<times> ('h, 'w) dev_world_scheme) res" where
  "netdev_queue_xmit P fuel q w = queue_xmit_loop P fuel fuel q NETDEV_TX_OK w"

section \<open>Interrupts\<close>

definition net_dev_irq_handler :: "('h, 'w) dev_world_scheme platform \<Rightarrow> ('h, 'w) dev_world_scheme \<Rightarrow> ('h, 'w) dev_world_scheme res" where
  "net_dev_irq_handler P w =
     (if irq_net_dev w \<noteq> 0 then
        bnd (dev_ops P w (irq_net_dev w)) (\<lambda>t.
        case op_irq_handler t of None \<Rightarrow> Fault Null_deref | Some f \<Rightarrow> Ok (f (irq_net_dev w) w))
      else Ok w)"

definition irq_hdlr_add :: "('h, 'w) dev_world_scheme platform \<Rightarrow> addr \<Rightarrow> ('h, 'w) dev_world_scheme \<Rightarrow>
    (int8_t \<times> ('h, 'w) dev_world_scheme) res" where
  "irq_hdlr_add P d w =
     (if d = 0 then Ok (-1, w) else
      bnd (load_dev w d) (\<lambda>x.
      if nd_netdev_ops x = 0 \<or> op_irq_handler (ops P (nd_netdev_ops x)) = None then Ok (-1, w)
      else Ok (0, w\<lparr>irq_net_dev := d\<rparr>)))"

definition irq_hdlr_del :: "('h, 'w) dev_world_scheme \<Rightarrow> ('h, 'w) dev_world_scheme" where
  "irq_hdlr_del w = w\<lparr>irq_net_dev := 0\<rparr>"

section \<open>The life cycle as a state machine\<close>

named_theorems dev_simps \<open>loads and stores of devices, flag accessors\<close>

lemma load_dev_Some [dev_simps]: "d \<noteq> 0 \<Longrightarrow> devs w d = Some x \<Longrightarrow> load_dev w d = Ok x"
  by (simp add: load_dev_def)

lemma load_dev_Ok_iff: "load_dev w d = Ok x \<longleftrightarrow> d \<noteq> 0 \<and> devs w d = Some x"
  by (auto simp: load_dev_def split: option.splits)

lemma load_dev_nbs [simp]: "load_dev (w\<lparr>nbs := m\<rparr>) d = load_dev w d"
  by (simp add: load_dev_def)

lemma upd_dev_Some [dev_simps]:
  "d \<noteq> 0 \<Longrightarrow> devs w d = Some x \<Longrightarrow> upd_dev d f w = Ok (w\<lparr>devs := (devs w)(d \<mapsto> f x)\<rparr>)"
  by (simp add: upd_dev_def load_dev_Some)

lemma dev_ops_Some [dev_simps]:
  "d \<noteq> 0 \<Longrightarrow> devs w d = Some x \<Longrightarrow> nd_netdev_ops x \<noteq> 0 \<Longrightarrow> dev_ops P w d = Ok (ops P (nd_netdev_ops x))"
  by (simp add: dev_ops_def load_dev_Some)

lemmas flag_defs = net_dev_upstate_is_run_def net_dev_set_upstate_run_def net_dev_set_upstate_stop_def
  net_dev_link_is_up_def net_dev_tx_is_allow_def

text \<open>The operations of the stack on a registered device; each is one step.\<close>

inductive dev_step :: "('h, 'w) dev_world_scheme platform \<Rightarrow> addr \<Rightarrow> ('h, 'w) dev_world_scheme \<Rightarrow>
    ('h, 'w) dev_world_scheme \<Rightarrow> bool" for P d where
  dev_open: "netdev_open P d w = Ok (r, w') \<Longrightarrow> dev_step P d w w'"
| dev_close: "netdev_close P d w = Ok w' \<Longrightarrow> dev_step P d w w'"
| dev_rx_mode: "netdev_set_rx_mode P d w = Ok w' \<Longrightarrow> dev_step P d w w'"
| dev_mac: "netdev_set_mac_addr P d mac w = Ok (r, w') \<Longrightarrow> dev_step P d w w'"
| dev_settings: "netdev_set_settings P d fd w = Ok (r, w') \<Longrightarrow> dev_step P d w w'"

text \<open>
  The contract of a driver: its functions leave the running flag and the table pointer of the device
  alone (\<open>started\<close> reads from the hidden state whether the hardware runs), \<open>open\<close> starts the hardware
  when it returns 0, \<open>stop\<close> stops it, the others do neither.
\<close>

definition dev_kept :: "addr \<Rightarrow> ('h, 'w) dev_world_scheme \<Rightarrow> ('h, 'w) dev_world_scheme \<Rightarrow> bool" where
  "dev_kept d w w' \<longleftrightarrow> map_option (\<lambda>x. (nd_up_state x, nd_netdev_ops x)) (devs w' d) =
     map_option (\<lambda>x. (nd_up_state x, nd_netdev_ops x)) (devs w d)"

definition life_driver :: "('h, 'w) dev_world_scheme platform \<Rightarrow> ('h \<Rightarrow> bool) \<Rightarrow> addr \<Rightarrow> addr \<Rightarrow> bool" where
  "life_driver P started d k \<longleftrightarrow>
     (\<exists>f. op_open (ops P k) = Some f \<and> (\<forall>w. dev_kept d w (snd (f d w)) \<and>
        (started (hw (snd (f d w))) \<longleftrightarrow> fst (f d w) = 0 \<or> started (hw w)))) \<and>
     (\<exists>f. op_stop (ops P k) = Some f \<and> (\<forall>w. dev_kept d w (f d w) \<and> \<not> started (hw (f d w)))) \<and>
     (\<forall>f. op_set_rx_mode (ops P k) = Some f \<longrightarrow>
        (\<forall>w. dev_kept d w (f d w) \<and> started (hw (f d w)) = started (hw w))) \<and>
     (\<forall>f mac. op_set_mac_addr (ops P k) = Some f \<longrightarrow>
        (\<forall>w. dev_kept d w (snd (f d mac w)) \<and> started (hw (snd (f d mac w))) = started (hw w))) \<and>
     (\<forall>f fd. op_set_dev_settings (ops P k) = Some f \<longrightarrow>
        (\<forall>w. dev_kept d w (snd (f d fd w)) \<and> started (hw (snd (f d fd w))) = started (hw w)))"

definition dev_inv :: "('h \<Rightarrow> bool) \<Rightarrow> addr \<Rightarrow> addr \<Rightarrow> ('h, 'w) dev_world_scheme \<Rightarrow> bool" where
  "dev_inv started d k w \<longleftrightarrow> d \<noteq> 0 \<and> k \<noteq> 0 \<and>
     (\<exists>x. devs w d = Some x \<and> nd_netdev_ops x = k \<and> (nd_up_state x \<longleftrightarrow> started (hw w)))"

lemma dev_keptE:
  assumes "dev_kept d w w'" "devs w d = Some x"
  obtains x' where "devs w' d = Some x'" "nd_up_state x' = nd_up_state x" "nd_netdev_ops x' = nd_netdev_ops x"
  using assms by (auto simp: dev_kept_def)

lemma dev_inv_kept:
  assumes "dev_inv started d k w" "dev_kept d w w'" "started (hw w') = started (hw w)"
  shows "dev_inv started d k w'"
  using assms by (auto simp: dev_inv_def elim!: dev_keptE)

lemma dev_invE:
  assumes "dev_inv started d k w"
  obtains x where "d \<noteq> 0" "k \<noteq> 0" "devs w d = Some x" "nd_netdev_ops x = k" "load_dev w d = Ok x"
    "nd_up_state x = started (hw w)" "dev_ops P w d = Ok (ops P k)"
  using assms by (auto simp: dev_inv_def dev_simps)

lemma netdev_set_rx_mode_inv:
  assumes "life_driver P started d k" "dev_inv started d k w"
  shows "\<exists>w'. netdev_set_rx_mode P d w = Ok w' \<and> dev_inv started d k w' \<and> started (hw w') = started (hw w)"
proof -
  have "\<forall>f. op_set_rx_mode (ops P k) = Some f \<longrightarrow> dev_kept d w (f d w) \<and> started (hw (f d w)) = started (hw w)"
    using assms(1) by (simp add: life_driver_def)
  moreover obtain x where "load_dev w d = Ok x" "nd_up_state x = started (hw w)" "dev_ops P w d = Ok (ops P k)"
    using assms(2) by (rule dev_invE)
  ultimately show ?thesis using assms(2) dev_inv_kept[OF assms(2)]
    by (auto simp: netdev_set_rx_mode_def flag_defs split: option.split)
qed

lemma netdev_open_inv:
  assumes drv: "life_driver P started d k" and inv: "dev_inv started d k w"
  shows "\<exists>r w'. netdev_open P d w = Ok (r, w') \<and> dev_inv started d k w' \<and> (r = 0 \<longleftrightarrow> started (hw w'))"
proof -
  obtain x where x: "d \<noteq> 0" "k \<noteq> 0" "devs w d = Some x" "nd_netdev_ops x = k" "load_dev w d = Ok x"
    "nd_up_state x = started (hw w)" "dev_ops P w d = Ok (ops P k)" using inv by (rule dev_invE)
  obtain f where f: "op_open (ops P k) = Some f" "dev_kept d w (snd (f d w))"
    "started (hw (snd (f d w))) \<longleftrightarrow> fst (f d w) = 0 \<or> started (hw w)"
    using drv by (auto simp: life_driver_def)
  obtain r w1 where fw: "f d w = (r, w1)" by fastforce
  obtain x1 where x1: "devs w1 d = Some x1" "nd_up_state x1 = nd_up_state x" "nd_netdev_ops x1 = k"
    using f(2) x(3,4) fw by (auto elim!: dev_keptE)
  show ?thesis
  proof (cases "started (hw w) \<or> r \<noteq> 0")
    case True
    with x x1 f fw inv show ?thesis
      by (cases "started (hw w)") (auto simp: netdev_open_def flag_defs dev_inv_def)
  next
    case False
    let ?w = "w1\<lparr>devs := (devs w1)(d \<mapsto> x1\<lparr>nd_up_state := True\<rparr>)\<rparr>"
    have "dev_inv started d k ?w" using False x x1 f fw by (simp add: dev_inv_def)
    from netdev_set_rx_mode_inv[OF drv this] obtain w2 where
      "netdev_set_rx_mode P d ?w = Ok w2" "dev_inv started d k w2" "started (hw w2)"
      using False f fw by auto
    with False x x1 f fw show ?thesis by (simp add: netdev_open_def flag_defs dev_simps)
  qed
qed

lemma netdev_close_inv:
  assumes drv: "life_driver P started d k" and inv: "dev_inv started d k w"
  shows "\<exists>w'. netdev_close P d w = Ok w' \<and> dev_inv started d k w' \<and> \<not> started (hw w')"
proof -
  obtain x where x: "d \<noteq> 0" "k \<noteq> 0" "devs w d = Some x" "nd_netdev_ops x = k" "load_dev w d = Ok x"
    "nd_up_state x = started (hw w)" "dev_ops P w d = Ok (ops P k)" using inv by (rule dev_invE)
  obtain f where f: "op_stop (ops P k) = Some f" "dev_kept d w (f d w)" "\<not> started (hw (f d w))"
    using drv by (auto simp: life_driver_def)
  obtain x1 where "devs (f d w) d = Some x1" "nd_netdev_ops x1 = k" using f(2) x(3,4) by (auto elim!: dev_keptE)
  with x f inv show ?thesis
    by (cases "nd_up_state x") (auto simp: netdev_close_def flag_defs dev_simps dev_inv_def)
qed

lemma netdev_set_inv:
  assumes drv: "life_driver P started d k" and inv: "dev_inv started d k w"
  shows "netdev_set_mac_addr P d mac w = Ok (r, w') \<Longrightarrow> dev_inv started d k w'"
    and "netdev_set_settings P d fd w = Ok (r, w') \<Longrightarrow> dev_inv started d k w'"
proof -
  obtain x where ops: "dev_ops P w d = Ok (ops P k)" using inv by (rule dev_invE)
  note kept = dev_inv_kept[OF inv]
  have "\<forall>f mac. op_set_mac_addr (ops P k) = Some f \<longrightarrow>
      dev_kept d w (snd (f d mac w)) \<and> started (hw (snd (f d mac w))) = started (hw w)"
    using drv by (simp add: life_driver_def)
  then show "netdev_set_mac_addr P d mac w = Ok (r, w') \<Longrightarrow> dev_inv started d k w'"
    using inv kept ops by (auto simp: netdev_set_mac_addr_def split: option.splits) (metis snd_conv)
  have "\<forall>f fd. op_set_dev_settings (ops P k) = Some f \<longrightarrow>
      dev_kept d w (snd (f d fd w)) \<and> started (hw (snd (f d fd w))) = started (hw w)"
    using drv by (simp add: life_driver_def)
  then show "netdev_set_settings P d fd w = Ok (r, w') \<Longrightarrow> dev_inv started d k w'"
    using inv kept ops by (auto simp: netdev_set_settings_def split: option.splits) (metis snd_conv)
qed

inductive_cases dev_stepE: "dev_step P d w w'"

lemma dev_step_inv:
  assumes "life_driver P started d k" "dev_inv started d k w" "dev_step P d w w'"
  shows "dev_inv started d k w'"
  using assms(3) netdev_open_inv[OF assms(1,2)] netdev_close_inv[OF assms(1,2)]
    netdev_set_rx_mode_inv[OF assms(1,2)]
  by (elim dev_stepE) (auto dest: netdev_set_inv[OF assms(1,2)])

lemma dev_steps_inv:
  "(dev_step P d)\<^sup>*\<^sup>* w w' \<Longrightarrow> life_driver P started d k \<Longrightarrow> dev_inv started d k w \<Longrightarrow> dev_inv started d k w'"
  by (induction rule: rtranclp_induct) (auto intro: dev_step_inv)

section \<open>Transmission to a driver\<close>

definition tx_ready :: "addr \<Rightarrow> addr \<Rightarrow> ('h, 'w) dev_world_scheme \<Rightarrow> bool" where
  "tx_ready d k w \<longleftrightarrow> (\<exists>x. devs w d = Some x \<and> nd_up_state x \<and> nd_link_status x \<and> nd_netdev_ops x = k)"

definition tx_allowed :: "addr \<Rightarrow> ('h, 'w) dev_world_scheme \<Rightarrow> bool" where
  "tx_allowed d w \<longleftrightarrow> (\<exists>x. devs w d = Some x \<and> nd_tx_allow x)"

text \<open>
  What a driver and the interrupt handlers may do to the world while queue \<open>q\<close> is sent to device \<open>d\<close>:
  anything but touch the queue, the live buffers and the readiness of the device.  \<open>sent\<close> reads off
  the hidden state the buffers the driver has transmitted.
\<close>

definition tx_kept :: "addr \<Rightarrow> addr \<Rightarrow> qref \<Rightarrow> ('h, 'w) dev_world_scheme \<Rightarrow> ('h, 'w) dev_world_scheme \<Rightarrow> bool" where
  "tx_kept d k q w w' \<longleftrightarrow> queues w' q = queues w q \<and> (tx_ready d k w \<longrightarrow> tx_ready d k w') \<and>
     (\<forall>a b. nbs w a = Some b \<longrightarrow> nbs w' a = Some b)"

text \<open>The same but for buffer \<open>a\<close>, which has been consumed.\<close>

definition tx_consumed :: "addr \<Rightarrow> addr \<Rightarrow> qref \<Rightarrow> addr \<Rightarrow> ('h, 'w) dev_world_scheme \<Rightarrow> ('h, 'w) dev_world_scheme \<Rightarrow> bool" where
  "tx_consumed d k q a w w' \<longleftrightarrow> queues w' q = queues w q \<and> (tx_ready d k w \<longrightarrow> tx_ready d k w') \<and>
     (\<forall>a' b. a' \<noteq> a \<longrightarrow> nbs w a' = Some b \<longrightarrow> nbs w' a' = Some b) \<and> nbs w' a = None"

text \<open>
  The contract of \<open>start_tx\<close> (comment of \<open>net_dev_xmit_complete\<close>: a complete transmission has consumed
  the buffer) and of the interrupts.  The measure \<open>m\<close>, at most \<open>K\<close>, states progress: a driver is not
  busy for ever and does not refuse transmission for ever; \<open>left\<close> reads it in a world.
\<close>

definition left :: "(net_dev option \<Rightarrow> 'h \<Rightarrow> nat) \<Rightarrow> addr \<Rightarrow> ('h, 'w) dev_world_scheme \<Rightarrow> nat" where
  "left m d w = m (devs w d) (hw w)"

definition tx_driver :: "('h, 'w) dev_world_scheme platform \<Rightarrow> ('h \<Rightarrow> net_buff list) \<Rightarrow>
    (net_dev option \<Rightarrow> 'h \<Rightarrow> nat) \<Rightarrow> nat \<Rightarrow> addr \<Rightarrow> addr \<Rightarrow> qref \<Rightarrow> bool" where
  "tx_driver P sent m K d k q \<longleftrightarrow> d \<noteq> 0 \<and> k \<noteq> 0 \<and> (\<forall>x h. m x h \<le> K) \<and>
     (\<exists>f. op_start_tx (ops P k) = Some f \<and>
        (\<forall>w a b r w'. nbs w a = Some b \<longrightarrow> f (NB a) d w = (r, w') \<longrightarrow>
           (if net_dev_xmit_complete r
            then tx_consumed d k q a w w' \<and> sent (hw w') = sent (hw w) @ [b]
            else tx_kept d k q w w' \<and> sent (hw w') = sent (hw w) \<and> left m d w' < left m d w))) \<and>
     (\<forall>w. tx_kept d k q w (isr P w) \<and> sent (hw (isr P w)) = sent (hw w) \<and>
        left m d (isr P w) \<le> left m d w \<and> (tx_ready d k w \<longrightarrow> \<not> tx_allowed d w \<longrightarrow> left m d (isr P w) < left m d w))"

lemma tx_driver_isr:
  assumes "tx_driver P sent m K d k q"
  shows "tx_kept d k q w (isr P w)" "sent (hw (isr P w)) = sent (hw w)" "left m d (isr P w) \<le> left m d w"
    "tx_ready d k w \<Longrightarrow> \<not> tx_allowed d w \<Longrightarrow> left m d (isr P w) < left m d w" "d \<noteq> 0" "k \<noteq> 0" "left m d w \<le> K"
  using assms unfolding tx_driver_def by (simp_all add: left_def)

lemma tx_driver_start:
  assumes "tx_driver P sent m K d k q" "nbs w a = Some b"
  obtains f r w' where "op_start_tx (ops P k) = Some f" "f (NB a) d w = (r, w')"
    "if net_dev_xmit_complete r then tx_consumed d k q a w w' \<and> sent (hw w') = sent (hw w) @ [b]
     else tx_kept d k q w w' \<and> sent (hw w') = sent (hw w) \<and> left m d w' < left m d w"
proof -
  obtain f where f: "op_start_tx (ops P k) = Some f"
    "\<forall>w a b r w'. nbs w a = Some b \<longrightarrow> f (NB a) d w = (r, w') \<longrightarrow>
       (if net_dev_xmit_complete r then tx_consumed d k q a w w' \<and> sent (hw w') = sent (hw w) @ [b]
        else tx_kept d k q w w' \<and> sent (hw w') = sent (hw w) \<and> left m d w' < left m d w)"
    using assms(1) unfolding tx_driver_def by (elim conjE exE)
  obtain r w' where "f (NB a) d w = (r, w')" by fastforce
  with f assms(2) show thesis using that[of f r w'] by simp
qed

lemma tx_kept_refl [simp]: "tx_kept d k q w w"
  by (simp add: tx_kept_def)

lemma tx_kept_trans: "tx_kept d k q w w1 \<Longrightarrow> tx_kept d k q w1 w2 \<Longrightarrow> tx_kept d k q w w2"
  by (simp add: tx_kept_def)

lemma tx_kept_consumed: "tx_kept d k q w w1 \<Longrightarrow> tx_consumed d k q a w1 w2 \<Longrightarrow> tx_consumed d k q a w w2"
  by (auto simp: tx_kept_def tx_consumed_def)

lemma tx_readyE:
  assumes "tx_ready d k w" "d \<noteq> 0" "k \<noteq> 0"
  obtains x where "load_dev w d = Ok x" "nd_up_state x" "nd_link_status x"
    "dev_ops P w d = Ok (ops P k)" "nd_tx_allow x = tx_allowed d w"
proof -
  from assms(1) obtain x where "devs w d = Some x" "nd_up_state x" "nd_link_status x" "nd_netdev_ops x = k"
    unfolding tx_ready_def by blast
  with assms(2,3) show thesis by (intro that[of x]) (simp_all add: tx_allowed_def dev_simps)
qed

text \<open>The codes a driver reports for a complete transmission.\<close>

definition sent_code :: "('h, 'w) dev_world_scheme platform \<Rightarrow> addr \<Rightarrow> int8_t \<Rightarrow> bool" where
  "sent_code P k r \<longleftrightarrow> net_dev_xmit_complete r \<and>
     (\<exists>f nb d w. op_start_tx (ops P k) = Some f \<and> fst (f nb d w) = r)"

text \<open>A driver that reports every complete transmission with \<open>NETDEV_TX_OK\<close>.\<close>

definition tx_exact :: "('h, 'w) dev_world_scheme platform \<Rightarrow> addr \<Rightarrow> bool" where
  "tx_exact P k \<longleftrightarrow> (\<forall>r. sent_code P k r \<longrightarrow> r = NETDEV_TX_OK)"

lemma queue_xmit_one_sends:
  assumes drv: "tx_driver P sent m K d k q"
  shows "tx_ready d k w \<Longrightarrow> nbs w a = Some b \<Longrightarrow> left m d w < fuel \<Longrightarrow>
    \<exists>r w'. queue_xmit_one P fuel (NB a) d err w = Ok (r, w') \<and> sent_code P k r \<and>
      tx_consumed d k q a w w' \<and> sent (hw w') = sent (hw w) @ [b]"
proof (induction fuel arbitrary: w err)
  case (Suc fuel)
  obtain x where x: "load_dev w d = Ok x" "nd_up_state x" "nd_link_status x"
    "dev_ops P w d = Ok (ops P k)" "nd_tx_allow x = tx_allowed d w"
    by (rule tx_readyE[OF Suc.prems(1) tx_driver_isr(5,6)[OF drv]])
  have isr: "tx_kept d k q w (isr P w)" "sent (hw (isr P w)) = sent (hw w)"
      "left m d (isr P w) \<le> left m d w" "tx_ready d k w \<Longrightarrow> \<not> tx_allowed d w \<Longrightarrow> left m d (isr P w) < left m d w" for w
    using tx_driver_isr[OF drv] by simp_all
  have again: "\<exists>r w'. queue_xmit_one P fuel (NB a) d e w1 = Ok (r, w') \<and> sent_code P k r \<and>
      tx_consumed d k q a w w' \<and> sent (hw w') = sent (hw w) @ [b]"
    if "tx_kept d k q w w1" "sent (hw w1) = sent (hw w)" "left m d w1 < left m d w" for w1 e
  proof -
    have "tx_ready d k w1" "nbs w1 a = Some b" "left m d w1 < fuel"
      using that(1,3) Suc.prems by (simp_all add: tx_kept_def)
    from Suc.IH[OF this, of e] obtain r w' where "queue_xmit_one P fuel (NB a) d e w1 = Ok (r, w')"
      "sent_code P k r" "tx_consumed d k q a w1 w'" "sent (hw w') = sent (hw w1) @ [b]" by blast
    with that(2) tx_kept_consumed[OF that(1)] show ?thesis by simp
  qed
  show ?case
  proof (cases "tx_allowed d w")
    case False
    from again[OF isr(1,2) isr(4)[OF Suc.prems(1) False], of err] show ?thesis using x False by simp
  next
    case True
    obtain f r w1 where f: "op_start_tx (ops P k) = Some f" and fw: "f (NB a) d w = (r, w1)" and
      res: "if net_dev_xmit_complete r then tx_consumed d k q a w w1 \<and> sent (hw w1) = sent (hw w) @ [b]
        else tx_kept d k q w w1 \<and> sent (hw w1) = sent (hw w) \<and> left m d w1 < left m d w"
      by (rule tx_driver_start[OF drv Suc.prems(2)])
    show ?thesis
    proof (cases "net_dev_xmit_complete r")
      case True
      then have "sent_code P k r" using f fw by (auto simp: sent_code_def intro!: exI[of _ f] exI[of _ "NB a"] exI[of _ d] exI[of _ w])
      with True res \<open>tx_allowed d w\<close> x f fw show ?thesis by (simp add: netdev_start_tx_def)
    next
      case False
      with res have w1: "tx_kept d k q w w1" "sent (hw w1) = sent (hw w)" "left m d w1 < left m d w" by auto
      have "\<exists>r' w'. queue_xmit_one P fuel (NB a) d r (isr P w1) = Ok (r', w') \<and> sent_code P k r' \<and>
          tx_consumed d k q a w w' \<and> sent (hw w') = sent (hw w) @ [b]"
        by (rule again) (use w1 isr(2,3)[of w1] tx_kept_trans[OF w1(1) isr(1)] in simp_all)
      with False \<open>tx_allowed d w\<close> x f fw show ?thesis by (simp add: netdev_start_tx_def)
    qed
  qed
qed simp

lemma tx_consumed_queue:
  assumes "tx_consumed d k q a w w'" "queue_rep w q xs" "a \<notin> set xs"
  shows "queue_rep w' q xs" and "\<And>x. x \<in> set xs \<Longrightarrow> nbs w' x = nbs w x"
proof -
  show nbs: "nbs w' x = nbs w x" if "x \<in> set xs" for x
    using assms that by (force simp: tx_consumed_def queue_rep_def)
  have "queue_rep w' q xs = queue_rep w q xs"
    by (rule queue_rep_cong) (use assms(1) nbs in \<open>auto simp: links_def qlens_def tx_consumed_def\<close>)
  with assms(2) show "queue_rep w' q xs" by simp
qed

lemma rest_payload: "rest w' = rest w \<Longrightarrow> payload w' = payload w"
  by (simp add: rest_def)

lemma rest_more: "rest w' = rest w \<Longrightarrow> nb_world.more w' = nb_world.more w"
  by (simp add: rest_def)

lemma more_dev_world:
  assumes "nb_world.more w' = nb_world.more (w :: ('h, 'w) dev_world_scheme)"
  shows "devs w' = devs w" "hw w' = hw w" "curr_net_dev w' = curr_net_dev w" "irq_net_dev w' = irq_net_dev w"
    "dev_world.more w' = dev_world.more w"
  using assms by (cases w; cases w'; simp)+

text \<open>The net device of each buffer of a list.\<close>

definition all_for :: "addr \<Rightarrow> addr list \<Rightarrow> ('h, 'w) dev_world_scheme \<Rightarrow> bool" where
  "all_for d xs w \<longleftrightarrow> (\<forall>a \<in> set xs. \<exists>b. payload w a = Some b \<and> nb_net_dev b = d)"

lemma queue_xmit_loop_sends:
  assumes drv: "tx_driver P sent m K d k q" and fuel0: "K < fuel0"
  shows "tx_ready d k w \<Longrightarrow> queue_rep w q xs \<Longrightarrow> all_for d xs w \<Longrightarrow> length xs < fuel \<Longrightarrow>
      net_dev_xmit_complete err \<Longrightarrow>
    \<exists>r w'. queue_xmit_loop P fuel0 fuel q err w = Ok (r, w') \<and> net_dev_xmit_complete r \<and> (r = err \<or> sent_code P k r) \<and>
      queue_rep w' q [] \<and> sent (hw w') = sent (hw w) @ map (\<lambda>a. the (payload w a)) xs \<and>
      (\<forall>a b. a \<notin> set xs \<longrightarrow> nbs w a = Some b \<longrightarrow> payload w' a = payload w a)"
proof (induction xs arbitrary: w err fuel)
  case Nil
  then obtain f where "fuel = Suc f" by (cases fuel) auto
  with Nil show ?case by (simp add: nb_dequeue_empty)
next
  case (Cons x xs)
  obtain f where f: "fuel = Suc f" "length xs < f" using Cons.prems(4) by (cases fuel) auto
  obtain w1 where w1: "nb_dequeue q w = Ok (NB x, w1)" "queue_rep w1 q xs" "rest w1 = rest w"
    "links w1 (NB x) = Some (NULLP, NULLP)" using nb_dequeue_rep[OF Cons.prems(2)] by blast
  have x: "x \<notin> set xs" using Cons.prems(2) by (simp add: queue_rep_def)
  note m1 = more_dev_world[OF rest_more[OF w1(3)]] and p1 = rest_payload[OF w1(3)]
  obtain b where b: "payload w x = Some b" "nb_net_dev b = d" "nbs w1 x = Some b"
  proof -
    obtain b where b: "payload w x = Some b" "nb_net_dev b = d" using Cons.prems(3) by (auto simp: all_for_def)
    have "payload w1 x = Some b" by (simp add: p1 b)
    with w1(4) have "nbs w1 x = Some b" by (auto simp: payload_def links_def)
    with b that show thesis by blast
  qed
  have "tx_ready d k w1" using Cons.prems(1) m1 by (simp add: tx_ready_def)
  then obtain r w2 where w2: "queue_xmit_one P fuel0 (NB x) d (-1) w1 = Ok (r, w2)" "sent_code P k r"
    "tx_consumed d k q x w1 w2" "sent (hw w2) = sent (hw w1) @ [b]"
    using queue_xmit_one_sends[OF drv _ b(3), of fuel0 "-1"] fuel0 tx_driver_isr(7)[OF drv, of w1] by fastforce
  have r: "net_dev_xmit_complete r" using w2(2) by (simp add: sent_code_def)
  have q2: "queue_rep w2 q xs" "\<And>y. y \<in> set xs \<Longrightarrow> payload w2 y = payload w y"
    using tx_consumed_queue[OF w2(3) w1(2) x] fun_cong[OF p1] by (simp_all add: payload_def)
  have r2: "tx_ready d k w2" using \<open>tx_ready d k w1\<close> w2(3) by (simp add: tx_consumed_def)
  have "all_for d xs w2" using Cons.prems(3) q2(2) by (simp add: all_for_def)
  from Cons.IH[OF r2 q2(1) this f(2) r] obtain r' w3 where w3:
    "queue_xmit_loop P fuel0 f q r w2 = Ok (r', w3)" "net_dev_xmit_complete r'" "queue_rep w3 q []"
    "sent (hw w3) = sent (hw w2) @ map (\<lambda>a. the (payload w2 a)) xs"
    "\<forall>a b. a \<notin> set xs \<longrightarrow> nbs w2 a = Some b \<longrightarrow> payload w3 a = payload w2 a" and
    r': "r' = r \<or> sent_code P k r'" by blast
  have log: "map (\<lambda>a. the (payload w2 a)) xs = map (\<lambda>a. the (payload w a)) xs"
    using q2(2) by simp
  have kept: "payload w3 a = payload w a" if a: "a \<notin> set (x # xs)" "nbs w a = Some c" for a c
  proof -
    have pa: "payload w1 a = payload w a" by (simp add: p1)
    then obtain c' where c': "nbs w1 a = Some c'" using a(2) by (auto simp: payload_def)
    then have "nbs w2 a = Some c'" using w2(3) a(1) by (simp add: tx_consumed_def)
    moreover from this have "payload w2 a = payload w1 a" by (simp add: payload_def c')
    moreover have "payload w3 a = payload w2 a" using w3(5) a(1) \<open>nbs w2 a = Some c'\<close> by simp
    ultimately show ?thesis using pa by simp
  qed
  then have "\<forall>a c. a \<notin> set (x # xs) \<longrightarrow> nbs w a = Some c \<longrightarrow> payload w3 a = payload w a" by blast
  then show ?case
    using f(1) w1(1) w2(1,4) r w3(1-4) b m1 log r' w2(2) by (auto simp add: load_nb_NB del: not_None_eq)
qed

text \<open>The list version, in which the links stay in the buffers.\<close>

definition unlinked :: "net_buff option \<Rightarrow> net_buff" where
  "unlinked b = (the b)\<lparr>nb_next := NULLP\<rparr>"

lemma tx_kept_nb_list: "tx_kept d k q w w' \<Longrightarrow> nb_list (nbs w) p as \<Longrightarrow> nb_list (nbs w') p as"
  by (induction as arbitrary: p) (auto simp: tx_kept_def)

lemma nb_list_live: "nb_list h p as \<Longrightarrow> a \<in> set as \<Longrightarrow> \<exists>b. h a = Some b"
  by (induction as arbitrary: p) auto

text \<open>The outcome of sending the whole list from a world, with code \<open>e\<close> so far.\<close>

definition list_sent :: "('h \<Rightarrow> net_buff list) \<Rightarrow> ('h, 'w) dev_world_scheme \<Rightarrow> addr list \<Rightarrow> int8_t \<Rightarrow>
    (nbp \<times> int8_t \<times> ('h, 'w) dev_world_scheme) res \<Rightarrow> bool" where
  "list_sent sent w as e res \<longleftrightarrow> (\<exists>r w'. res = Ok (NULLP, r, w') \<and>
      (if as = [] then r = e else net_dev_xmit_complete r) \<and>
      sent (hw w') = sent (hw w) @ map (\<lambda>a. unlinked (nbs w a)) as \<and>
      (\<forall>a b. a \<notin> set as \<longrightarrow> nbs w a = Some b \<longrightarrow> nbs w' a = Some b))"

lemma list_sent_kept:
  assumes "tx_kept d k q w w1" "sent (hw w1) = sent (hw w)" "nb_list (nbs w) p as" "list_sent sent w1 as e res"
  shows "list_sent sent w as e res"
proof -
  obtain r w' where res: "res = Ok (NULLP, r, w')" "if as = [] then r = e else net_dev_xmit_complete r"
    "sent (hw w') = sent (hw w1) @ map (\<lambda>a. unlinked (nbs w1 a)) as"
    "\<forall>a b. a \<notin> set as \<longrightarrow> nbs w1 a = Some b \<longrightarrow> nbs w' a = Some b"
    using assms(4) unfolding list_sent_def by blast
  have "nbs w1 a = nbs w a" if "a \<in> set as" for a
    using nb_list_live[OF assms(3) that] assms(1) by (auto simp: tx_kept_def)
  then have "map (\<lambda>a. unlinked (nbs w1 a)) as = map (\<lambda>a. unlinked (nbs w a)) as" by simp
  moreover have "\<forall>a b. a \<notin> set as \<longrightarrow> nbs w a = Some b \<longrightarrow> nbs w' a = Some b"
    using res(4) assms(1) by (simp add: tx_kept_def)
  ultimately show ?thesis using res(1,2,3) assms(2) by (simp add: list_sent_def)
qed

lemma list_sent_Cons:
  assumes kept: "\<forall>a' c. a' \<noteq> a \<longrightarrow> nbs w a' = Some c \<longrightarrow> nbs w1 a' = Some c"
    and b: "nbs w a = Some b" "nb_list (nbs w) (nb_next b) as" "a \<notin> set as"
    and sent: "sent (hw w1) = sent (hw w) @ [b\<lparr>nb_next := NULLP\<rparr>]" "net_dev_xmit_complete e'"
  shows "nb_list (nbs w1) (nb_next b) as" and "list_sent sent w1 as e' res \<Longrightarrow> list_sent sent w (a # as) e res"
proof -
  have live: "nbs w1 a' = nbs w a'" if "a' \<in> set as" for a'
  proof -
    have "a' \<noteq> a" using b(3) that by blast
    then show ?thesis using nb_list_live[OF b(2) that] kept by auto
  qed
  then show "nb_list (nbs w1) (nb_next b) as" using b(2) nb_list_cong[of as "nbs w1" "nbs w"] by simp
  assume "list_sent sent w1 as e' res"
  then obtain r w' where res: "res = Ok (NULLP, r, w')" "if as = [] then r = e' else net_dev_xmit_complete r"
    "sent (hw w') = sent (hw w1) @ map (\<lambda>a. unlinked (nbs w1 a)) as"
    "\<forall>a b. a \<notin> set as \<longrightarrow> nbs w1 a = Some b \<longrightarrow> nbs w' a = Some b" unfolding list_sent_def by blast
  have "sent (hw w') = sent (hw w) @ map (\<lambda>a. unlinked (nbs w a)) (a # as)"
    using res(3) sent b live by (simp add: unlinked_def)
  moreover have "net_dev_xmit_complete r" using res(2) sent(2) by (simp split: if_splits)
  ultimately show "list_sent sent w (a # as) e res"
    unfolding list_sent_def using res(1,4) kept by (intro exI[of _ r] exI[of _ w']) simp
qed

lemma dev_ops_store [simp]: "dev_ops P (store_nb p b w) d = dev_ops P w d"
  by (simp add: dev_ops_def load_dev_def store_nb_def split: nbp.split)

lemma store_nb_dev [simp]: "devs (store_nb p b w) = devs w" "hw (store_nb p b w) = hw w"
  by (simp_all add: store_nb_def split: nbp.split)

lemma list_xmit_loop_sends:
  assumes drv: "tx_driver P sent m K d k q"
  shows "tx_ready d k w \<Longrightarrow> nb_list (nbs w) p as \<Longrightarrow> left m d w + Suc K * length as < fuel \<Longrightarrow>
    list_sent sent w as err (list_xmit_loop P fuel d p err w)"
proof (induction fuel arbitrary: w p as err)
  case (Suc fuel)
  note isr = tx_driver_isr[OF drv]
  obtain x where x: "load_dev w d = Ok x" "nd_up_state x" "nd_link_status x"
    "dev_ops P w d = Ok (ops P k)" "nd_tx_allow x = tx_allowed d w"
    by (rule tx_readyE[OF Suc.prems(1) isr(5,6)])
  have again: "list_sent sent w as e (list_xmit_loop P fuel d p e w1)"
    if w1: "tx_kept d k q w w1" "sent (hw w1) = sent (hw w)" "left m d w1 < left m d w" for w1 e
    by (rule list_sent_kept[OF w1(1,2) Suc.prems(2) Suc.IH[OF _ tx_kept_nb_list[OF w1(1) Suc.prems(2)]]])
      (use w1 Suc.prems in \<open>simp_all add: tx_kept_def\<close>)
  show ?case
  proof (cases as)
    case Nil
    with Suc.prems x show ?thesis by (simp add: list_sent_def)
  next
    case (Cons a as')
    then obtain b where p: "p = NB a" and b: "nbs w a = Some b" "nb_list (nbs w) (nb_next b) as'" "a \<notin> set as'"
      using Suc.prems(2) by auto
    show ?thesis
    proof (cases "tx_allowed d w")
      case False
      from again[OF isr(1,2) isr(4)[OF Suc.prems(1) False], of err] show ?thesis using x False p by simp
    next
      case True
      let ?w = "store_nb p (b\<lparr>nb_next := NULLP\<rparr>) w"
      have w0: "nbs ?w = (nbs w)(a \<mapsto> b\<lparr>nb_next := NULLP\<rparr>)" "queues ?w = queues w" "left m d ?w = left m d w"
        "tx_ready d k ?w = tx_ready d k w"
        by (simp_all add: p store_nb_def left_def tx_ready_def)
      obtain f r w1 where f: "op_start_tx (ops P k) = Some f" "f (NB a) d ?w = (r, w1)" and
        res: "if net_dev_xmit_complete r then tx_consumed d k q a ?w w1 \<and> sent (hw w1) = sent (hw ?w) @ [b\<lparr>nb_next := NULLP\<rparr>]
          else tx_kept d k q ?w w1 \<and> sent (hw w1) = sent (hw ?w) \<and> left m d w1 < left m d ?w"
        by (rule tx_driver_start[OF drv, of ?w a "b\<lparr>nb_next := NULLP\<rparr>"]) (simp add: w0)
      have start: "netdev_start_tx P p d ?w = Ok (r, w1)" by (simp add: netdev_start_tx_def x(4) f(1) f(2)[unfolded p] p)
      show ?thesis
      proof (cases "net_dev_xmit_complete r")
        case False
        let ?w2 = "store_nb p (b\<lparr>nb_next := nb_next b\<rparr>) w1"
        have w1: "nbs w1 a = Some (b\<lparr>nb_next := NULLP\<rparr>)" using False res w0 by (simp add: tx_kept_def)
        have w2: "tx_kept d k q w ?w2" "left m d ?w2 < left m d w" "sent (hw ?w2) = sent (hw w)"
          using False res w0 b(1) by (simp_all add: tx_kept_def tx_ready_def p store_nb_def left_def)
        have "list_sent sent w as r (list_xmit_loop P fuel d p r (isr P ?w2))"
          by (rule again[OF tx_kept_trans[OF w2(1) isr(1)]])
            (use isr(2,3)[of ?w2] w2(2,3) in simp_all)
        then show ?thesis using False True x start w1 b(1) Cons p by (simp add: load_nb_NB list_sent_def)
      next
        case fin: True
        have kept: "\<forall>a' c. a' \<noteq> a \<longrightarrow> nbs w a' = Some c \<longrightarrow> nbs (isr P w1) a' = Some c"
          using fin res w0 isr(1)[of w1] by (simp add: tx_consumed_def tx_kept_def)
        have sent: "sent (hw (isr P w1)) = sent (hw w) @ [b\<lparr>nb_next := NULLP\<rparr>]" using isr(2)[of w1] fin res by simp
        have ready: "tx_ready d k (isr P w1)"
          using fin res w0 isr(1)[of w1] Suc.prems(1) by (simp add: tx_consumed_def tx_kept_def)
        note rec = list_sent_Cons[where sent = sent, OF kept b sent fin]
        have "left m d (isr P w1) + Suc K * length as' < fuel"
          using isr(7)[of "isr P w1"] Suc.prems(3) Cons by simp
        from rec(2)[OF Suc.IH[OF ready rec(1) this]] show ?thesis
          using fin True x start b(1) Cons p by (simp add: load_nb_NB)
      qed
    qed
  qed
qed simp

lemma netdev_list_xmit_one:
  assumes "tx_driver P sent m K d k q" "tx_ready d k w" "nbs w a = Some b" "nb_net_dev b = d" "nb_next b = NULLP"
    "2 * Suc K \<le> fuel"
  shows "\<exists>r w'. netdev_list_xmit P fuel (NB a) w = Ok (r, w') \<and> net_dev_xmit_complete r \<and>
    sent (hw w') = sent (hw w) @ [b] \<and> (\<forall>a' c. a' \<noteq> a \<longrightarrow> nbs w a' = Some c \<longrightarrow> nbs w' a' = Some c)"
proof -
  have b: "unlinked (Some b) = b" using assms(5) by (cases b) (simp add: unlinked_def)
  have "left m d w + Suc K * length [a] < fuel" using assms(6) tx_driver_isr(7)[OF assms(1), of w] by simp
  from list_xmit_loop_sends[OF assms(1,2) _ this, of "NB a" NETDEV_TX_BUSY] assms(3,5) show ?thesis
    unfolding list_sent_def by (auto simp: netdev_list_xmit_def load_nb_NB assms(4) b)
qed

lemma queue_xmit_loop_down:
  assumes down: "d \<noteq> 0" "\<not> (nd_up_state x \<and> nd_link_status x)" and fuel0: "0 < fuel0"
  shows "devs w d = Some x \<Longrightarrow> queue_rep w q xs \<Longrightarrow> all_for d xs w \<Longrightarrow> length xs < fuel \<Longrightarrow>
    \<exists>w'. queue_xmit_loop P fuel0 fuel q err w = Ok (if xs = [] then err else - 1, w') \<and>
      queue_rep w' q [] \<and> payload w' = payload w \<and> devs w' = devs w \<and> hw w' = hw w"
proof (induction xs arbitrary: w err fuel)
  case Nil
  then obtain f where "fuel = Suc f" by (cases fuel) auto
  with Nil show ?case by (simp add: nb_dequeue_empty)
next
  case (Cons a xs)
  obtain f where f: "fuel = Suc f" "length xs < f" using Cons.prems(4) by (cases fuel) auto
  obtain f0 where f0: "fuel0 = Suc f0" using fuel0 by (cases fuel0) auto
  obtain w1 where w1: "nb_dequeue q w = Ok (NB a, w1)" "queue_rep w1 q xs" "rest w1 = rest w"
    using nb_dequeue_rep[OF Cons.prems(2)] by blast
  note m1 = more_dev_world[OF rest_more[OF w1(3)]] and p1 = rest_payload[OF w1(3)]
  have dev: "devs w1 d = Some x" using Cons.prems(1) m1 by simp
  have "\<exists>b. payload w1 a = Some b \<and> nb_net_dev b = d" using Cons.prems(3) p1 by (simp add: all_for_def)
  then obtain b where b: "nbs w1 a = Some b" "nb_net_dev b = d" by (auto simp: payload_def)
  have "queue_xmit_one P fuel0 (NB a) d (-1) w1 = Ok (-1, w1)"
    using down dev by (auto simp: f0 load_dev_def)
  moreover have "all_for d xs w1" using Cons.prems(3) p1 by (simp add: all_for_def)
  moreover have "net_dev_xmit_complete (-1)" by (simp add: net_dev_xmit_complete_def NET_XMIT_MASK_def)
  ultimately show ?case using Cons.IH[OF dev w1(2) _ f(2), of "-1"] w1(1) b m1 p1 f(1)
    by (auto simp: load_nb_NB)
qed

section \<open>A driver for the concrete instances\<close>

text \<open>
  A driver that is busy on every other call, and then clears \<open>tx_allow\<close> until its interrupt sets it
  again; it keeps the transmitted buffers in a log.
\<close>

record demo_hw =
  demo_on :: bool
  demo_busy :: bool
  demo_log :: "net_buff list"

definition demo_allow :: "bool \<Rightarrow> addr \<Rightarrow> ('h, 'w) dev_world_scheme \<Rightarrow> ('h, 'w) dev_world_scheme" where
  "demo_allow v d w = w\<lparr>devs := (devs w)(d := map_option (nd_tx_allow_update (\<lambda>_. v)) (devs w d))\<rparr>"

definition demo_tx :: "nbp \<Rightarrow> addr \<Rightarrow> (demo_hw, 'w) dev_world_scheme \<Rightarrow> int8_t \<times> (demo_hw, 'w) dev_world_scheme" where
  "demo_tx p d w = (case p of NB a \<Rightarrow> (case nbs w a of None \<Rightarrow> (NETDEV_TX_BUSY, w) | Some b \<Rightarrow>
       if demo_busy (hw w) then (NETDEV_TX_BUSY, demo_allow False d (w\<lparr>hw := hw w\<lparr>demo_busy := False\<rparr>\<rparr>))
       else (NETDEV_TX_OK, w\<lparr>nbs := (nbs w)(a := None),
               hw := hw w\<lparr>demo_busy := True, demo_log := demo_log (hw w) @ [b]\<rparr>\<rparr>))
     | _ \<Rightarrow> (NETDEV_TX_BUSY, w))"

definition demo_ops :: "(demo_hw, 'w) dev_world_scheme net_dev_ops" where
  "demo_ops = \<lparr>op_init = None, op_open = Some (\<lambda>d w. (0, w\<lparr>hw := hw w\<lparr>demo_on := True\<rparr>\<rparr>)),
     op_stop = Some (\<lambda>d w. w\<lparr>hw := hw w\<lparr>demo_on := False\<rparr>\<rparr>), op_start_tx = Some demo_tx,
     op_set_rx_mode = None, op_set_mac_addr = None, op_set_dev_settings = None,
     op_irq_handler = Some (demo_allow True)\<rparr>"

definition demo_platform :: "addr \<Rightarrow> (demo_hw, 'w) dev_world_scheme platform" where
  "demo_platform d = \<lparr>bswap_16 = bswap_16 avr_swaps, bswap_32 = bswap_32 avr_swaps,
     ops = (\<lambda>_. demo_ops), isr = demo_allow True d\<rparr>"

definition demo_left :: "net_dev option \<Rightarrow> demo_hw \<Rightarrow> nat" where
  "demo_left x h = (if demo_busy h then 2 else 0) +
     (case x of None \<Rightarrow> 1 | Some x \<Rightarrow> if nd_tx_allow x then 0 else 1)"

lemma demo_platform_sel [simp]:
  "bswap_16 (demo_platform d) = bswap_16 avr_swaps" "bswap_32 (demo_platform d) = bswap_32 avr_swaps"
  "ops (demo_platform d) k = demo_ops" "isr (demo_platform d) = demo_allow True d"
  by (simp_all add: demo_platform_def)

lemma demo_swaps_ok [simp]: "swaps_ok (demo_platform d)"
  using swaps_ok_avr by (simp add: swaps_ok_def)

lemma demo_ops_sel [simp]:
  "op_open demo_ops = Some (\<lambda>d w. (0, w\<lparr>hw := hw w\<lparr>demo_on := True\<rparr>\<rparr>))"
  "op_stop demo_ops = Some (\<lambda>d w. w\<lparr>hw := hw w\<lparr>demo_on := False\<rparr>\<rparr>)"
  "op_start_tx demo_ops = Some demo_tx" "op_set_rx_mode demo_ops = None" "op_set_mac_addr demo_ops = None"
  "op_set_dev_settings demo_ops = None" "op_irq_handler demo_ops = Some (demo_allow True)" "op_init demo_ops = None"
  by (simp_all add: demo_ops_def)

lemma demo_allow_sel [simp]:
  "nbs (demo_allow v d w) = nbs w" "queues (demo_allow v d w) = queues w" "hw (demo_allow v d w) = hw w"
  "devs (demo_allow v d w) = (devs w)(d := map_option (nd_tx_allow_update (\<lambda>_. v)) (devs w d))"
  by (simp_all add: demo_allow_def)

lemma demo_tx_ok:
  assumes "nbs w a = Some b" "demo_tx (NB a) d w = (r, w')"
  shows "if net_dev_xmit_complete r then tx_consumed d k q a w w' \<and> demo_log (hw w') = demo_log (hw w) @ [b]
     else tx_kept d k q w w' \<and> demo_log (hw w') = demo_log (hw w) \<and> left demo_left d w' < left demo_left d w"
  using assms by (auto simp: demo_tx_def net_dev_xmit_complete_def NETDEV_TX_BUSY_def NET_XMIT_MASK_def
    NETDEV_TX_OK_def tx_consumed_def tx_kept_def tx_ready_def left_def demo_left_def split: if_splits option.splits)

lemma demo_isr_ok:
  "tx_kept d k q w (demo_allow True d w)" "left demo_left d (demo_allow True d w) \<le> left demo_left d w"
  "tx_ready d k w \<Longrightarrow> \<not> tx_allowed d w \<Longrightarrow> left demo_left d (demo_allow True d w) < left demo_left d w"
  by (auto simp: tx_kept_def tx_ready_def tx_allowed_def left_def demo_left_def split: option.split)

lemma demo_left_le: "demo_left x h \<le> 3"
  by (simp add: demo_left_def split: option.split)

lemma demo_tx_driver: "d \<noteq> 0 \<Longrightarrow> k \<noteq> 0 \<Longrightarrow> tx_driver (demo_platform d) demo_log demo_left 3 d k q"
  unfolding tx_driver_def demo_platform_sel demo_ops_sel demo_allow_sel
  by (intro conjI exI[of _ demo_tx] allI impI refl) (assumption | rule demo_tx_ok demo_isr_ok demo_left_le)+

lemma demo_sent_code:
  assumes "sent_code (demo_platform d :: (demo_hw, 'w) dev_world_scheme platform) k r"
  shows "r = NETDEV_TX_OK"
proof -
  obtain p d' and w :: "(demo_hw, 'w) dev_world_scheme" where r: "r = fst (demo_tx p d' w)" "net_dev_xmit_complete r"
    using assms by (auto simp: sent_code_def)
  have "r = NETDEV_TX_OK \<or> r = NETDEV_TX_BUSY"
    unfolding r(1) by (auto simp: demo_tx_def split: nbp.split option.split)
  moreover have "\<not> net_dev_xmit_complete NETDEV_TX_BUSY"
    by (simp add: net_dev_xmit_complete_def NETDEV_TX_BUSY_def NET_XMIT_MASK_def)
  ultimately show ?thesis using r(2) by auto
qed

lemma demo_tx_exact: "tx_exact (demo_platform d) k"
  unfolding tx_exact_def using demo_sent_code by blast

lemma demo_life_driver: "life_driver (demo_platform d) demo_on d k"
  by (simp add: life_driver_def dev_kept_def)

definition demo_dev :: net_dev where
  "demo_dev = \<lparr>nd_up_state = True, nd_link_status = True, nd_full_duplex = False, nd_rx_mode = 0, nd_tx_allow = True,
     nd_netdev_ops = 1, nd_header_ops = Some (Some Eth_header_create), nd_mtu = 1500,
     nd_dev_addr = [2, 0, 0, 0, 0, 1], nd_broadcast = replicate 6 0xFF, nd_priv = []\<rparr>"

lemma demo_dev_sel [simp]:
  "nd_up_state demo_dev" "nd_link_status demo_dev" "nd_tx_allow demo_dev" "nd_netdev_ops demo_dev = 1"
  "nd_dev_addr demo_dev = [2, 0, 0, 0, 0, 1]" "nd_broadcast demo_dev = replicate 6 0xFF"
  "nd_header_ops demo_dev = Some (Some Eth_header_create)"
  by (simp_all add: demo_dev_def)

section \<open>Properties\<close>

text \<open>C26: over any sequence of opening and closing a registered device and setting its receive mode, its address and its
  settings (not of unregistering it, see \<open>netdev_unregister_reopen\<close>), its running flag says whether
  its hardware is started; opening reports success exactly when the hardware runs afterwards, and
  closing always stops it.\<close>

theorem netdev_lifecycle:
  assumes "life_driver P started d k" "dev_inv started d k w0" "(dev_step P d)\<^sup>*\<^sup>* w0 w"
  shows "dev_inv started d k w \<and>
    (\<exists>r w'. netdev_open P d w = Ok (r, w') \<and> (r = 0 \<longleftrightarrow> started (hw w'))) \<and>
    (\<exists>w'. netdev_close P d w = Ok w' \<and> \<not> started (hw w'))"
proof -
  have "dev_inv started d k w" using dev_steps_inv[OF assms(3,1,2)] .
  with netdev_open_inv[OF assms(1)] netdev_close_inv[OF assms(1)] show ?thesis by blast
qed

definition demo_world :: "bool \<Rightarrow> (addr \<Rightarrow> net_buff option) \<Rightarrow> (demo_hw, unit) dev_world_scheme" where
  "demo_world up bs = \<lparr>nbs = bs, queues = [QVAR 0 \<mapsto> \<lparr>q_next = NULLP, q_prev = NULLP, q_len = 0\<rparr>],
     mallocs = [], junk = \<lambda>_ _. 0, place = \<lambda>_. 0, devs = [1 \<mapsto> demo_dev\<lparr>nd_up_state := up\<rparr>], curr_net_dev = 1, irq_net_dev = 0,
     hw = \<lparr>demo_on = up, demo_busy = True, demo_log = []\<rparr>\<rparr>"

lemma demo_world_sel [simp]:
  "nbs (demo_world up bs) = bs" "devs (demo_world up bs) = [1 \<mapsto> demo_dev\<lparr>nd_up_state := up\<rparr>]"
  "queues (demo_world up bs) = [QVAR 0 \<mapsto> \<lparr>q_next = NULLP, q_prev = NULLP, q_len = 0\<rparr>]"
  "hw (demo_world up bs) = \<lparr>demo_on = up, demo_busy = True, demo_log = []\<rparr>"
  "curr_net_dev (demo_world up bs) = 1" "irq_net_dev (demo_world up bs) = 0"
  by (simp_all add: demo_world_def)

lemma demo_world_inv: "dev_inv demo_on 1 1 (demo_world up bs)"
  by (simp add: dev_inv_def)

theorem netdev_lifecycle_witness:
  "\<exists>r w'. netdev_open (demo_platform 1) 1 (demo_world False Map.empty) = Ok (r, w') \<and> (r = 0 \<longleftrightarrow> demo_on (hw w'))"
  using netdev_lifecycle[OF demo_life_driver[of 1 1] demo_world_inv[of False Map.empty] rtranclp.rtrancl_refl] by blast

text \<open>Unregistering a running device stops its hardware but leaves the running flag set, so that
  opening it again reports success at once and does nothing: the hardware stays stopped.\<close>

theorem netdev_unregister_reopen:
  assumes "life_driver P started d k" "dev_inv started d k w" "started (hw w)"
  shows "\<exists>w'. netdev_unregister P d w = Ok w' \<and> curr_net_dev w' = 0 \<and> netdev_open P d w' = Ok (0, w') \<and>
    \<not> started (hw w')"
proof -
  obtain x where x: "d \<noteq> 0" "k \<noteq> 0" "devs w d = Some x" "nd_netdev_ops x = k" "load_dev w d = Ok x"
    "nd_up_state x = started (hw w)" "dev_ops P w d = Ok (ops P k)" using assms(2) by (rule dev_invE)
  obtain f where f: "op_stop (ops P k) = Some f" "dev_kept d w (f d w)" "\<not> started (hw (f d w))"
    using assms(1) by (auto simp: life_driver_def)
  obtain x1 where "devs (f d w) d = Some x1" "nd_up_state x1" using f(2) x(3,6) assms(3) by (auto elim!: dev_keptE)
  with x f show ?thesis by (simp add: netdev_unregister_def netdev_open_def flag_defs load_dev_def)
qed

theorem netdev_unregister_reopen_witness:
  "\<exists>w'. netdev_unregister (demo_platform 1) 1 (demo_world True Map.empty) = Ok w' \<and>
     netdev_open (demo_platform 1) 1 w' = Ok (0, w') \<and> \<not> demo_on (hw w')"
  using netdev_unregister_reopen[OF demo_life_driver[of 1 1] demo_world_inv[of True Map.empty]] by auto

text \<open>C27: on a running device with the link up, a queue is transmitted completely and in order: the
  busy-wait loops end (a driver busy at most \<open>K\<close> times in a row needs \<open>K + 1\<close> rounds per buffer), the
  driver has been handed every buffer of the queue with its contents and unlinked, the queue is
  empty, the result counts as complete, and no other live buffer has changed but for its links.\<close>

theorem netdev_queue_xmit_sends:
  assumes "tx_driver P sent m K d k q" "tx_ready d k w" "queue_rep w q xs" "all_for d xs w"
    "K < fuel" "length xs < fuel"
  shows "\<exists>r w'. netdev_queue_xmit P fuel q w = Ok (r, w') \<and> net_dev_xmit_complete r \<and> queue_rep w' q [] \<and>
    sent (hw w') = sent (hw w) @ map (\<lambda>a. the (payload w a)) xs \<and>
    (\<forall>a b. a \<notin> set xs \<longrightarrow> nbs w a = Some b \<longrightarrow> payload w' a = payload w a)"
proof -
  have "net_dev_xmit_complete NETDEV_TX_OK"
    by (simp add: net_dev_xmit_complete_def NETDEV_TX_OK_def NET_XMIT_MASK_def)
  from queue_xmit_loop_sends[OF assms(1,5,2,3,4,6) this] show ?thesis
    unfolding netdev_queue_xmit_def by blast
qed

definition demo_buff :: "nbp \<Rightarrow> nbp \<Rightarrow> net_buff" where
  "demo_buff n p = (nb_fresh [1, 2] 2)\<lparr>nb_next := n, nb_prev := p, nb_net_dev := 1, nb_tail := 2, nb_pkt_len := 2\<rparr>"

lemma demo_buff_sel [simp]:
  "nb_next (demo_buff n p) = n" "nb_prev (demo_buff n p) = p" "nb_net_dev (demo_buff n p) = 1"
  "(demo_buff n p)\<lparr>nb_prev := p'\<rparr> = demo_buff n p'" "(demo_buff n p)\<lparr>nb_next := n'\<rparr> = demo_buff n' p"
  by (simp_all add: demo_buff_def)

theorem netdev_queue_xmit_sends_witness:
  "\<exists>w. netdev_queue_xmit (demo_platform 1) 4 (QVAR 0)
      ((demo_world True [5 \<mapsto> demo_buff (QHEAD (QVAR 0)) (QHEAD (QVAR 0))])
         \<lparr>queues := [QVAR 0 \<mapsto> \<lparr>q_next = NB 5, q_prev = NB 5, q_len = 1\<rparr>]\<rparr>) = Ok w \<and>
    demo_log (hw (snd w)) = [demo_buff NULLP NULLP]"
proof -
  let ?w = "(demo_world True [5 \<mapsto> demo_buff (QHEAD (QVAR 0)) (QHEAD (QVAR 0))])
         \<lparr>queues := [QVAR 0 \<mapsto> \<lparr>q_next = NB 5, q_prev = NB 5, q_len = 1\<rparr>]\<rparr>"
  have "queue_rep ?w (QVAR 0) [5]" by (simp add: queue_rep_def links_def)
  moreover have "tx_ready 1 1 ?w" by (simp add: tx_ready_def)
  moreover have "all_for 1 [5] ?w" by (simp add: all_for_def payload_def)
  moreover have "payload ?w 5 = Some (demo_buff NULLP NULLP)" by (simp add: payload_def)
  ultimately show ?thesis
    using netdev_queue_xmit_sends[OF demo_tx_driver[of 1 1 "QVAR 0"], of ?w "[5]" 4] by fastforce
qed

text \<open>When the device is stopped or its link is down, transmitting a queue returns -1 with the queue
  emptied, but frees none of its buffers: every one of them stays allocated with its contents,
  reachable from nowhere.\<close>

theorem netdev_queue_xmit_down_leaks:
  assumes "d \<noteq> 0" "devs w d = Some x" "\<not> (nd_up_state x \<and> nd_link_status x)"
    "queue_rep w q xs" "xs \<noteq> []" "all_for d xs w" "length xs < fuel"
  shows "\<exists>w'. netdev_queue_xmit P fuel q w = Ok (- 1, w') \<and> queue_rep w' q [] \<and> payload w' = payload w"
proof -
  have "0 < fuel" using assms(7) by (cases fuel) auto
  from queue_xmit_loop_down[OF assms(1,3) this assms(2,4,6,7), of P NETDEV_TX_OK] assms(5) show ?thesis
    unfolding netdev_queue_xmit_def by auto
qed

theorem netdev_queue_xmit_down_leaks_witness:
  "\<exists>w. netdev_queue_xmit (demo_platform 1) 4 (QVAR 0)
      ((demo_world False [5 \<mapsto> demo_buff (QHEAD (QVAR 0)) (QHEAD (QVAR 0))])
         \<lparr>queues := [QVAR 0 \<mapsto> \<lparr>q_next = NB 5, q_prev = NB 5, q_len = 1\<rparr>]\<rparr>) = Ok (- 1, w) \<and>
    payload w 5 = Some (demo_buff NULLP NULLP)"
proof -
  let ?w = "(demo_world False [5 \<mapsto> demo_buff (QHEAD (QVAR 0)) (QHEAD (QVAR 0))])
         \<lparr>queues := [QVAR 0 \<mapsto> \<lparr>q_next = NB 5, q_prev = NB 5, q_len = 1\<rparr>]\<rparr>"
  have "queue_rep ?w (QVAR 0) [5]" by (simp add: queue_rep_def links_def)
  moreover have "all_for 1 [5] ?w" by (simp add: all_for_def payload_def)
  moreover have "payload ?w 5 = Some (demo_buff NULLP NULLP)" by (simp add: payload_def)
  moreover have "devs ?w 1 = Some (demo_dev\<lparr>nd_up_state := False\<rparr>)" by simp
  ultimately show ?thesis
    using netdev_queue_xmit_down_leaks[of 1 ?w _ "QVAR 0" "[5]" 4 "demo_platform 1"] by fastforce
qed

text \<open>On a running device with the link up, \<open>netdev_list_xmit\<close> hands every buffer of a linked list
  to the driver, in order, each cut off from its successor, and returns a complete result; no buffer
  outside the list changes.\<close>

theorem netdev_list_xmit_sends:
  assumes "tx_driver P sent m K d k q" "tx_ready d k w" "nb_list (nbs w) (NB a) (a # as)"
    "map_option nb_net_dev (nbs w a) = Some d" "Suc K * Suc (Suc (length as)) < fuel"
  shows "\<exists>r w'. netdev_list_xmit P fuel (NB a) w = Ok (r, w') \<and> net_dev_xmit_complete r \<and>
    sent (hw w') = sent (hw w) @ map (\<lambda>a. unlinked (nbs w a)) (a # as) \<and>
    (\<forall>a' b. a' \<notin> set (a # as) \<longrightarrow> nbs w a' = Some b \<longrightarrow> nbs w' a' = Some b)"
proof -
  obtain b where b: "nbs w a = Some b" "nb_net_dev b = d" using assms(4) by auto
  have "left m d w + Suc K * length (a # as) < fuel"
    using assms(5) tx_driver_isr(7)[OF assms(1), of w] by simp
  from list_xmit_loop_sends[OF assms(1,2,3) this, of NETDEV_TX_BUSY] obtain r w' where
    "list_xmit_loop P fuel d (NB a) NETDEV_TX_BUSY w = Ok (NULLP, r, w')" "net_dev_xmit_complete r"
    "sent (hw w') = sent (hw w) @ map (\<lambda>a. unlinked (nbs w a)) (a # as)"
    "\<forall>a' b. a' \<notin> set (a # as) \<longrightarrow> nbs w a' = Some b \<longrightarrow> nbs w' a' = Some b"
    unfolding list_sent_def by auto
  then show ?thesis by (simp add: netdev_list_xmit_def load_nb_NB b)
qed

theorem netdev_list_xmit_sends_witness:
  "\<exists>w. netdev_list_xmit (demo_platform 1) 20 (NB 5)
      (demo_world True [5 \<mapsto> demo_buff (NB 6) NULLP, 6 \<mapsto> demo_buff NULLP NULLP]) = Ok w \<and>
    demo_log (hw (snd w)) = [demo_buff NULLP NULLP, demo_buff NULLP NULLP]"
proof -
  let ?w = "demo_world True [5 \<mapsto> demo_buff (NB 6) NULLP, 6 \<mapsto> demo_buff NULLP NULLP]"
  have "tx_ready 1 1 ?w" by (simp add: tx_ready_def)
  then show ?thesis
    using netdev_list_xmit_sends[OF demo_tx_driver[of 1 1 "QVAR 0"], of ?w 5 "[6]" 20]
    by (fastforce simp: unlinked_def)
qed

text \<open>A device is accepted as interrupt source exactly when its table has an interrupt function;
  from then on the interrupt handler calls that function on that device, and a refused device leaves
  the source alone.  With no source the handler does nothing.\<close>

theorem irq_source:
  assumes "devs w d = Some x" "nd_netdev_ops x \<noteq> 0"
  shows "case op_irq_handler (ops P (nd_netdev_ops x)) of
      Some f \<Rightarrow> d \<noteq> 0 \<longrightarrow> (\<exists>w'. irq_hdlr_add P d w = Ok (0, w') \<and> net_dev_irq_handler P w' = Ok (f d w') \<and>
        net_dev_irq_handler P (irq_hdlr_del w') = Ok (irq_hdlr_del w'))
    | None \<Rightarrow> irq_hdlr_add P d w = Ok (- 1, w)"
  using assms by (auto simp: irq_hdlr_add_def load_dev_def net_dev_irq_handler_def dev_ops_def irq_hdlr_del_def
    split: option.split)

theorem irq_source_witness:
  "\<exists>w'. irq_hdlr_add (demo_platform 1) 1 (demo_world True Map.empty) = Ok (0, w') \<and>
     net_dev_irq_handler (demo_platform 1) w' = Ok (demo_allow True 1 w')"
  using irq_source[of "demo_world True Map.empty" 1 "demo_dev\<lparr>nd_up_state := True\<rparr>" "demo_platform 1"] by auto

end
