(* ===== verification/Ether.thy ===== *)
theory Ether
  imports Net_Dev
begin

text \<open>
  The Ethernet layer (\<open>net/ether.h\<close>, \<open>net/eth.c\<close>, and \<open>netdev_hdr_create\<close> of \<open>net/net_dev.h\<close>).  A
  frame header is overlaid on the bytes of a buffer: six bytes of destination, six of source, two of
  type.  The headers are related to bytes by \<open>eth_bytes\<close>.
\<close>

section \<open>The code\<close>

definition ETH_P_IP :: uint16_t where "ETH_P_IP = 0x0800"
definition ETH_P_ARP :: uint16_t where "ETH_P_ARP = 0x0806"
definition ETH_P_802_3_MIN :: uint16_t where "ETH_P_802_3_MIN = 0x0600"
definition ETH_P_802_2 :: uint16_t where "ETH_P_802_2 = 0x0004"

text \<open>Reading six bytes of a MAC address through a pointer.\<close>

definition mac_at :: "bytes \<Rightarrow> bytes res" where
  "mac_at p = rd 0 ETH_MAC_LEN p"

definition eth_header_create :: "('h, 'w) dev_world_scheme platform \<Rightarrow> nbp \<Rightarrow> addr \<Rightarrow> int16_t \<Rightarrow>
    bytes option \<Rightarrow> bytes option \<Rightarrow> int16_t \<Rightarrow> ('h, 'w) dev_world_scheme \<Rightarrow>
    (int8_t \<times> ('h, 'w) dev_world_scheme) res" where
  "eth_header_create P nb dev type mac_d mac_s len w =
     bnd (nb_upd nb (\<lambda>b. b\<lparr>nb_pkt_len := nb_pkt_len b + of_nat ETH_HDR_LEN\<rparr>) w) (\<lambda>w.
     bnd (load_nb w nb) (\<lambda>b. let header_p = unat (nb_mac_hdr_offset b) in
     bnd (nb_wr nb (header_p + 12)
            (le16 (if sint type \<le> 1500 then htons P len else htons P type)) w) (\<lambda>w.
     bnd (case mac_s of None \<Rightarrow> bnd (load_dev w dev) (\<lambda>x. Ok (nd_dev_addr x)) | Some m \<Rightarrow> Ok m) (\<lambda>mac_s.
     bnd (mac_at mac_s) (\<lambda>src.
     bnd (nb_wr nb (header_p + 6) src w) (\<lambda>w.
     case mac_d of None \<Rightarrow> Ok (- 1, w)
     | Some mac_d \<Rightarrow>
         bnd (mac_at mac_d) (\<lambda>dst.
         bnd (nb_wr nb header_p dst w) (\<lambda>w. Ok (0, w)))))))))"

text \<open>The dispatch through \<open>header_ops\<close>; the only table in the code is \<open>eth_header_ops\<close>.\<close>

definition netdev_hdr_create :: "('h, 'w) dev_world_scheme platform \<Rightarrow> nbp \<Rightarrow> addr \<Rightarrow> int16_t \<Rightarrow>
    bytes option \<Rightarrow> bytes option \<Rightarrow> int16_t \<Rightarrow> ('h, 'w) dev_world_scheme \<Rightarrow>
    (int8_t \<times> ('h, 'w) dev_world_scheme) res" where
  "netdev_hdr_create P nb dev type d_addr s_addr len w =
     bnd (load_dev w dev) (\<lambda>x.
     case nd_header_ops x of
       Some (Some Eth_header_create) \<Rightarrow> eth_header_create P nb dev type d_addr s_addr len w
     | _ \<Rightarrow> Ok (- 1, w))"

definition ether_setup :: "addr \<Rightarrow> ('h, 'w) dev_world_scheme \<Rightarrow> ('h, 'w) dev_world_scheme res" where
  "ether_setup dev w = upd_dev dev (\<lambda>x. x\<lparr>nd_header_ops := Some (Some Eth_header_create),
     nd_rx_mode := RX_RT_BROADCAST OR RX_RT_MULTICAST, nd_broadcast := replicate ETH_MAC_LEN 0xFF\<rparr>) w"

definition eth_dev_alloc :: "uint8_t \<Rightarrow> ('h, 'w) dev_world_scheme \<Rightarrow> (addr \<times> ('h, 'w) dev_world_scheme) res" where
  "eth_dev_alloc size' w = net_dev_alloc size' ether_setup w"

definition mac_addr_equal :: "bytes \<Rightarrow> bytes \<Rightarrow> bool res" where
  "mac_addr_equal addr1 addr2 =
     bnd (mac_at addr1) (\<lambda>x. bnd (mac_at addr2) (\<lambda>y.
     let a = \<lambda>i. un16 (bslice (2 * i) 2 x); b = \<lambda>i. un16 (bslice (2 * i) 2 y) in
     Ok (((a 0 XOR b 0) OR (a 1 XOR b 1) OR (a 2 XOR b 2)) = 0)))"

definition eth_type_proto :: "('h, 'w) dev_world_scheme platform \<Rightarrow> nbp \<Rightarrow> addr \<Rightarrow> ('h, 'w) dev_world_scheme \<Rightarrow>
    (uint16_t \<times> ('h, 'w) dev_world_scheme) res" where
  "eth_type_proto P nb dev w =
     bnd (nb_upd nb (\<lambda>b. b\<lparr>nb_net_dev := dev, nb_mac_hdr_offset := of_nat (nb_data b)\<rparr>) w) (\<lambda>w.
     bnd (load_nb w nb) (\<lambda>b. let ehdr = nb_data b in
     bnd (load_dev w dev) (\<lambda>x.
     bnd (nb_rd nb ehdr 6 w) (\<lambda>dest.
     bnd (mac_addr_equal (nd_dev_addr x) dest) (\<lambda>ours.
     bnd (if ours then Ok PKT_HOST
          else if (dest ! 0) AND 0x01 \<noteq> 0 then
            bnd (mac_addr_equal dest (nd_broadcast x)) (\<lambda>bc. Ok (if bc then PKT_BROADCAST else PKT_MULTICAST))
          else Ok PKT_OTHERHOST) (\<lambda>t.
     bnd (nb_upd nb (\<lambda>b. b\<lparr>nb_pkt_type := of_nat t\<rparr>) w) (\<lambda>w.
     bnd (nb_rd nb (ehdr + 12) 2 w) (\<lambda>ty.
     Ok (if un16 ty \<ge> htons P ETH_P_802_3_MIN then un16 ty else htons P ETH_P_802_2, w)))))))))"

section \<open>Lemmas\<close>

lemma mac_at_Ok [simp]: "length m = 6 \<Longrightarrow> mac_at m = Ok m"
  by (simp add: mac_at_def ETH_MAC_LEN_def rd_def bslice_def)

lemma list6: "length m = 6 \<Longrightarrow> \<exists>a b c d e f. m = [a, b, c, d, e, f]"
  by (auto simp: eval_nat_numeral length_Suc_conv)

lemma xor_zero_iff: "x XOR y = 0 \<longleftrightarrow> x = y" for x y :: "'a::len word"
  by (auto simp: bit_eq_iff bit_simps)

lemma mac_addr_equal_iff: "length a = 6 \<Longrightarrow> length b = 6 \<Longrightarrow> mac_addr_equal a b = Ok (a = b)"
  by (auto simp: mac_addr_equal_def bslice_def un16_def or_eq_0_iff xor_zero_iff dest!: list6)

text \<open>The bytes of a frame header.\<close>

definition eth_bytes :: "bytes \<Rightarrow> bytes \<Rightarrow> uint16_t \<Rightarrow> bytes" where
  "eth_bytes dst src type = dst @ src @ be16 type"

lemma length_eth_bytes [simp]: "length dst = 6 \<Longrightarrow> length src = 6 \<Longrightarrow> length (eth_bytes dst src type) = 14"
  by (simp add: eth_bytes_def)

text \<open>The source address that ends up in the header.\<close>

definition src_of :: "bytes option \<Rightarrow> net_dev \<Rightarrow> bytes" where
  "src_of mac_s x = (case mac_s of None \<Rightarrow> nd_dev_addr x | Some m \<Rightarrow> m)"

lemma eth_header_create_Ok:
  assumes "swaps_ok P" "nbs w a = Some b" "d \<noteq> 0" "devs w d = Some x"
    "unat (nb_mac_hdr_offset b) + 14 \<le> length (nb_mem b)" "length dst = 6" "length (src_of mac_s x) = 6"
  shows "eth_header_create P (NB a) d type (Some dst) mac_s len w =
    Ok (0, w\<lparr>nbs := (nbs w)(a \<mapsto> b\<lparr>nb_pkt_len := nb_pkt_len b + 14,
      nb_mem := upd (unat (nb_mac_hdr_offset b))
        (eth_bytes dst (src_of mac_s x) (if sint type \<le> 1500 then len else type)) (nb_mem b)\<rparr>)\<rparr>)"
proof -
  have "(case mac_s of None \<Rightarrow> bnd (load_dev w' d) (\<lambda>x. Ok (nd_dev_addr x)) | Some m \<Rightarrow> Ok m) = Ok (src_of mac_s x)"
    if "devs w' d = Some x" for w' :: "('a, 'b) dev_world_scheme"
    using assms that by (simp add: src_of_def load_dev_def split: option.split)
  then show ?thesis
    using assms by (simp add: eth_header_create_def heap_simps ETH_HDR_LEN_def le16_htons if_distrib[of le16]
      eth_bytes_def upd_append if_distrib[of be16] Let_def add.commute[of 12] cong: if_cong)
qed

text \<open>The kind of a packet, by its destination address.\<close>

definition pkt_kind :: "net_dev \<Rightarrow> bytes \<Rightarrow> nat" where
  "pkt_kind x dst = (if dst = nd_dev_addr x then PKT_HOST
     else if (dst ! 0) AND 1 = 0 then PKT_OTHERHOST
     else if dst = nd_broadcast x then PKT_BROADCAST else PKT_MULTICAST)"

definition mac_ok :: "net_dev \<Rightarrow> bool" where
  "mac_ok x \<longleftrightarrow> length (nd_dev_addr x) = 6 \<and> length (nd_broadcast x) = 6"

text \<open>The type field as the code reads it: compared before its bytes are put in order.\<close>

definition frame_proto :: "uint8_t \<Rightarrow> uint8_t \<Rightarrow> uint16_t" where
  "frame_proto hi lo = (if lo = 0 \<and> unat hi < 6 then swap16 ETH_P_802_2 else mk16 hi lo)"

lemma swap16_min: "swap16 ETH_P_802_3_MIN = 6"
  unfolding ETH_P_802_3_MIN_def by code_simp

lemma type_min_iff: "swap16 ETH_P_802_3_MIN \<le> mk16 hi lo \<longleftrightarrow> \<not> (lo = 0 \<and> unat hi < 6)"
proof -
  have "unat lo = 0 \<longleftrightarrow> lo = 0" by (simp add: unat_eq_0)
  moreover have "unat (6 :: uint16_t) = 6" by simp
  ultimately show ?thesis
    unfolding swap16_min word_le_nat_alt unat_mk16 by (cases "unat lo") auto
qed

lemma eth_type_proto_Ok:
  assumes "swaps_ok P" "nbs w a = Some b" "d \<noteq> 0" "devs w d = Some x" "mac_ok x"
    "nb_data b + 14 \<le> length (nb_mem b)" "bslice (nb_data b) 6 (nb_mem b) = dst"
    "bslice (nb_data b + 12) 2 (nb_mem b) = [hi, lo]"
  shows "eth_type_proto P (NB a) d w = Ok (frame_proto hi lo, w\<lparr>nbs := (nbs w)(a \<mapsto>
    b\<lparr>nb_net_dev := d, nb_mac_hdr_offset := of_nat (nb_data b), nb_pkt_type := of_nat (pkt_kind x dst)\<rparr>)\<rparr>)"
proof -
  have dst: "length dst = 6" using assms(6,7) by auto
  have kind: "bnd (mac_addr_equal (nd_dev_addr x) dst) (\<lambda>ours.
     bnd (if ours then Ok PKT_HOST
          else if (dst ! 0) AND 0x01 \<noteq> 0 then
            bnd (mac_addr_equal dst (nd_broadcast x)) (\<lambda>bc. Ok (if bc then PKT_BROADCAST else PKT_MULTICAST))
          else Ok PKT_OTHERHOST) f) = f (pkt_kind x dst)" for f :: "nat \<Rightarrow> 'c res"
    using assms(5) dst by (auto simp: mac_addr_equal_iff pkt_kind_def mac_ok_def)
  have type: "(if htons P ETH_P_802_3_MIN \<le> un16 [hi, lo] then un16 [hi, lo] else htons P ETH_P_802_2) =
      frame_proto hi lo"
    using assms(1) by (simp add: swap_simps un16_def type_min_iff frame_proto_def)
  have w: "load_dev w d = Ok x"
    using assms(3,4) by (simp add: load_dev_def)
  show ?thesis
    using assms(2,6,7,8) by (simp add: eth_type_proto_def heap_simps w Let_def kind type)
qed

lemma sint_pos_unat: "0 \<le> n \<Longrightarrow> n < sint x \<Longrightarrow> nat n < unat x" for x :: uint16_t
proof -
  assume n: "0 \<le> n" "n < sint x"
  have "uint x = sint x mod 65536" using uint_sint[of x] by (simp add: take_bit_eq_mod)
  moreover have "sint x < 32768" using sint_lt[of x] by simp
  ultimately have "uint x = sint x" using n by simp
  with n show ?thesis by (simp add: unat_eq_nat_uint)
qed

lemma unat_bytes: "unat x = unat (byte_of 0 x) + 256 * unat (byte_of 1 x)" for x :: uint16_t
  using unat_mk16[of "byte_of 0 x" "byte_of 1 x"] by simp

lemma frame_proto_type:
  assumes "swaps_ok P" "1500 < sint type"
  shows "frame_proto (byte_of 1 type) (byte_of 0 type) = htons P type"
proof -
  have "1500 < unat type" using sint_pos_unat[of 1500 type] assms(2) by simp
  then have "\<not> (byte_of 0 type = 0 \<and> unat (byte_of 1 type) < 6)" using unat_bytes[of type] by auto
  then show ?thesis using assms(1) by (auto simp: frame_proto_def swap_simps swap16_def)
qed

section \<open>Properties\<close>

text \<open>C28: a frame whose header was created for an Ethernet type above 1500 is recognised on the
  receiving side: with the same bytes at the start of the received buffer, \<open>eth_type_proto\<close> returns
  exactly the type that was given (in network order), and classifies the packet as for this host,
  broadcast, multicast or for another host by the destination the sender put in.\<close>

theorem eth_header_roundtrip:
  assumes "swaps_ok P" "nbs w a = Some b" "d \<noteq> 0" "devs w d = Some x"
    "unat (nb_mac_hdr_offset b) + 14 \<le> length (nb_mem b)" "length dst = 6" "length (src_of mac_s x) = 6"
    "1500 < sint type"
    and "swaps_ok P'" "d' \<noteq> 0" "devs w' d' = Some x'" "mac_ok x'" "nbs w' a' = Some b'"
    "nb_mem b' = drop (unat (nb_mac_hdr_offset b)) (nb_mem c)" "nb_data b' = 0"
    and "eth_header_create P (NB a) d type (Some dst) mac_s len w = Ok (r, v)" "nbs v a = Some c"
  shows "r = 0 \<and> (\<exists>v' c'. eth_type_proto P' (NB a') d' w' = Ok (htons P type, v') \<and> nbs v' a' = Some c' \<and>
    unat (nb_pkt_type c') = pkt_kind x' dst)"
proof -
  let ?o = "unat (nb_mac_hdr_offset b)"
  have t: "sint type \<le> 1500 \<longleftrightarrow> False" using assms(8) by simp
  have create: "eth_header_create P (NB a) d type (Some dst) mac_s len w =
      Ok (0, w\<lparr>nbs := (nbs w)(a \<mapsto> b\<lparr>nb_pkt_len := nb_pkt_len b + 14,
        nb_mem := upd ?o (eth_bytes dst (src_of mac_s x) type) (nb_mem b)\<rparr>)\<rparr>)"
    using eth_header_create_Ok[OF assms(1-7), of type len] unfolding t if_False .
  have c: "nb_mem c = upd ?o (eth_bytes dst (src_of mac_s x) type) (nb_mem b)" and r: "r = 0"
    using assms(16,17) unfolding create by auto
  have b': "nb_mem b' = eth_bytes dst (src_of mac_s x) type @ drop (?o + 14) (nb_mem b)"
    using assms(5,6,7,14) by (simp add: c upd_def)
  have "length (be16 type) = 2" "be16 type = [byte_of 1 type, byte_of 0 type]" by (simp_all add: be16_def)
  then have "bslice 0 6 (nb_mem b') = dst" "bslice 12 2 (nb_mem b') = [byte_of 1 type, byte_of 0 type]"
    "14 \<le> length (nb_mem b')"
    using assms(6,7) by (simp_all add: b' bslice_def eth_bytes_def)
  with eth_type_proto_Ok[OF assms(9,13,10,11,12), of dst "byte_of 1 type" "byte_of 0 type"] assms(15)
  have "eth_type_proto P' (NB a') d' w' = Ok (frame_proto (byte_of 1 type) (byte_of 0 type), w'\<lparr>nbs := (nbs w')(a' \<mapsto>
    b'\<lparr>nb_net_dev := d', nb_mac_hdr_offset := of_nat (nb_data b'), nb_pkt_type := of_nat (pkt_kind x' dst)\<rparr>)\<rparr>)"
    by simp
  moreover have "frame_proto (byte_of 1 type) (byte_of 0 type) = htons P type"
    by (rule frame_proto_type[OF assms(1,8)])
  moreover have "unat (of_nat (pkt_kind x' dst) :: 2 word) = pkt_kind x' dst"
    by (simp add: pkt_kind_def PKT_HOST_def PKT_OTHERHOST_def PKT_BROADCAST_def PKT_MULTICAST_def)
  ultimately show ?thesis using r by simp
qed

definition demo_nb :: "bytes \<Rightarrow> net_buff" where
  "demo_nb m = (nb_fresh m (length m))\<lparr>nb_net_dev := 1, nb_tail := length m, nb_pkt_len := of_nat (length m)\<rparr>"

lemma demo_nb_sel [simp]:
  "nb_mem (demo_nb m) = m" "nb_data (demo_nb m) = 0" "nb_mac_hdr_offset (demo_nb m) = 0"
  "nb_network_hdr_offset (demo_nb m) = 14" "nb_net_dev (demo_nb m) = 1" "nb_tail (demo_nb m) = length m"
  "nb_pkt_len (demo_nb m) = of_nat (length m)" "nb_end (demo_nb m) = length m" "nb_next (demo_nb m) = NULLP"
  "nb_pkt_type (demo_nb m) = 0"
  by (simp_all add: demo_nb_def)

lemma mac_ok_demo [simp]: "mac_ok demo_dev"
  by (simp add: mac_ok_def)

theorem eth_header_roundtrip_witness:
  "\<exists>r v c v'. eth_header_create (demo_platform 1) (NB 5) 1 0x0806 (Some (replicate 6 0xFF)) None 0
      (demo_world True [5 \<mapsto> demo_nb (replicate 14 0)]) = Ok (r, v) \<and> nbs v 5 = Some c \<and>
    eth_type_proto (demo_platform 1) (NB 7) 1 (demo_world True [7 \<mapsto> demo_nb (nb_mem c)]) = Ok (htons (demo_platform 1 :: (demo_hw, unit) dev_world_scheme platform) 0x0806, v')"
proof -
  let ?P = "demo_platform 1 :: (demo_hw, unit) dev_world_scheme platform"
  let ?w = "demo_world True [5 \<mapsto> demo_nb (replicate 14 0)]" and ?x = "demo_dev\<lparr>nd_up_state := True\<rparr>"
  have x: "?x = demo_dev" by (simp add: demo_dev_def)
  obtain v c where v: "eth_header_create ?P (NB 5) 1 0x0806 (Some (replicate 6 0xFF)) None 0 ?w = Ok (0, v)" "nbs v 5 = Some c"
    using eth_header_create_Ok[of ?P ?w 5 "demo_nb (replicate 14 0)" 1 demo_dev "replicate 6 0xFF" None "0x0806" 0]
    by (simp add: src_of_def x)
  have "1500 < sint (0x0806 :: int16_t)" by simp
  then show ?thesis
    using eth_header_roundtrip[where P = ?P and P' = ?P and w = ?w and a = 5 and b = "demo_nb (replicate 14 0)" and
      d = 1 and x = demo_dev and dst = "replicate 6 0xFF" and mac_s = None and type = "0x0806" and d' = 1 and
      w' = "demo_world True [7 \<mapsto> demo_nb (nb_mem c)]" and x' = demo_dev and a' = 7 and b' = "demo_nb (nb_mem c)" and
      c = c and len = 0 and r = 0 and v = v] v
    by (fastforce simp: src_of_def x)
qed

text \<open>The type of a received frame is compared before its bytes are put in host order: of the
  frames whose field is an IEEE 802.3 length (at most 1500), only those with a low byte of zero are
  reported as 802.2; all others are reported with their length as protocol.\<close>

theorem eth_type_proto_length_field:
  assumes "swaps_ok P" "nbs w a = Some b" "d \<noteq> 0" "devs w d = Some x" "mac_ok x"
    "nb_data b + 14 \<le> length (nb_mem b)" "bslice (nb_data b + 12) 2 (nb_mem b) = [hi, lo]"
    "256 * unat hi + unat lo \<le> 1500"
  shows "\<exists>w'. eth_type_proto P (NB a) d w = Ok (if lo = 0 then htons P ETH_P_802_2 else mk16 hi lo, w')"
proof -
  have "unat hi < 6" using assms(8) by linarith
  then show ?thesis
    using eth_type_proto_Ok[OF assms(1-6) refl assms(7)] assms(1) by (simp add: frame_proto_def swap_simps)
qed

theorem eth_type_proto_length_field_witness:
  "\<exists>w'. eth_type_proto (demo_platform 1) (NB 7) 1
     (demo_world True [7 \<mapsto> demo_nb (replicate 12 0 @ [0, 0x40])]) = Ok (mk16 0 0x40, w')"
proof -
  have x: "demo_dev\<lparr>nd_up_state := True\<rparr> = demo_dev" by (simp add: demo_dev_def)
  show ?thesis
    using eth_type_proto_length_field[of "demo_platform 1" "demo_world True [7 \<mapsto> demo_nb (replicate 12 0 @ [0, 0x40])]"
      7 "demo_nb (replicate 12 0 @ [0, 0x40])" 1 demo_dev 0 "0x40"] by (simp add: x bslice_def)
qed

end
