(* ===== verification/Proto_Table.thy ===== *)
theory Proto_Table
  imports Ether
begin

text \<open>
  The two tables of protocol handlers: by Ethernet type (\<open>net/pkt_hdlr.c\<close>) and by IP protocol
  (\<open>net/ip_proto.c\<close>).  A function pointer \<open>proto_hdlr_t\<close> is a value of the datatype \<open>proto_hdlr\<close>:
  the handlers of the repository and those of an application.  The function \<open>call\<close>, an argument of
  the dispatchers, runs a handler; the stack ties it to the handlers once they are defined.  Both
  tables are instances of one interface, the locale \<open>handler_table\<close>.
\<close>

section \<open>The tables\<close>

datatype proto_hdlr = H_arp_recv | H_ip_recv | H_dhcp_recv | H_icmp_recv | H_user nat

record recv_pkt_hdlr_ops =
  eth_ip :: "proto_hdlr option"
  eth_arp :: "proto_hdlr option"

record ip_proto_hdlr_ops =
  ipp_icmp :: "proto_hdlr option"
  ipp_tcp :: "proto_hdlr option"
  ipp_udp :: "proto_hdlr option"

record 'h tab_world = "'h dev_world" +
  recv_ops :: recv_pkt_hdlr_ops
  ip_proto_ops :: ip_proto_hdlr_ops

type_synonym 'w hdlr_call = "proto_hdlr \<Rightarrow> nbp \<Rightarrow> 'w \<Rightarrow> (int8_t \<times> 'w) res"

text \<open>What both dispatchers do with no handler.\<close>

definition drop_nb :: "nbp \<Rightarrow> 'w nb_world_scheme \<Rightarrow> (int8_t \<times> 'w nb_world_scheme) res" where
  "drop_nb nb w = bnd (free_net_buff nb w) (\<lambda>w. Ok (NETDEV_RX_DROP, w))"

definition recv_pkt_handler :: "'z swaps_scheme \<Rightarrow> ('h, 'w) tab_world_scheme hdlr_call \<Rightarrow> nbp \<Rightarrow>
    ('h, 'w) tab_world_scheme \<Rightarrow> (int8_t \<times> ('h, 'w) tab_world_scheme) res" where
  "recv_pkt_handler P call nb w =
     bnd (load_nb w nb) (\<lambda>b.
     if nb_protocol b = htons P ETH_P_IP then
       (case eth_ip (recv_ops w) of Some h \<Rightarrow> call h nb w | None \<Rightarrow> drop_nb nb w)
     else if nb_protocol b = htons P ETH_P_ARP then
       (case eth_arp (recv_ops w) of Some h \<Rightarrow> call h nb w | None \<Rightarrow> drop_nb nb w)
     else drop_nb nb w)"

definition pkt_hdlr_add :: "uint16_t \<Rightarrow> proto_hdlr option \<Rightarrow> ('h, 'w) tab_world_scheme \<Rightarrow> ('h, 'w) tab_world_scheme" where
  "pkt_hdlr_add type handler w =
     (if type = ETH_P_IP then w\<lparr>recv_ops := (recv_ops w)\<lparr>eth_ip := handler\<rparr>\<rparr>
      else if type = ETH_P_ARP then w\<lparr>recv_ops := (recv_ops w)\<lparr>eth_arp := handler\<rparr>\<rparr>
      else w)"

definition pkt_hdlr_del :: "uint16_t \<Rightarrow> ('h, 'w) tab_world_scheme \<Rightarrow> ('h, 'w) tab_world_scheme" where
  "pkt_hdlr_del type w =
     (if type = ETH_P_IP then w\<lparr>recv_ops := (recv_ops w)\<lparr>eth_ip := None\<rparr>\<rparr>
      else if type = ETH_P_ARP then w\<lparr>recv_ops := (recv_ops w)\<lparr>eth_arp := None\<rparr>\<rparr>
      else w)"

definition ip_proto_handler :: "('h, 'w) tab_world_scheme hdlr_call \<Rightarrow> uint8_t \<Rightarrow> nbp \<Rightarrow>
    ('h, 'w) tab_world_scheme \<Rightarrow> (int8_t \<times> ('h, 'w) tab_world_scheme) res" where
  "ip_proto_handler call proto nb w =
     (if proto = IPPROTO_ICMP then
        (case ipp_icmp (ip_proto_ops w) of Some h \<Rightarrow> call h nb w | None \<Rightarrow> drop_nb nb w)
      else if proto = IPPROTO_TCP then
        (case ipp_tcp (ip_proto_ops w) of Some h \<Rightarrow> call h nb w | None \<Rightarrow> drop_nb nb w)
      else if proto = IPPROTO_UDP then
        (case ipp_udp (ip_proto_ops w) of Some h \<Rightarrow> call h nb w | None \<Rightarrow> drop_nb nb w)
      else drop_nb nb w)"

definition ip_proto_handler_add :: "uint8_t \<Rightarrow> proto_hdlr option \<Rightarrow> ('h, 'w) tab_world_scheme \<Rightarrow>
    ('h, 'w) tab_world_scheme" where
  "ip_proto_handler_add proto handler w =
     (if proto = IPPROTO_ICMP then w\<lparr>ip_proto_ops := (ip_proto_ops w)\<lparr>ipp_icmp := handler\<rparr>\<rparr>
      else if proto = IPPROTO_TCP then w\<lparr>ip_proto_ops := (ip_proto_ops w)\<lparr>ipp_tcp := handler\<rparr>\<rparr>
      else if proto = IPPROTO_UDP then w\<lparr>ip_proto_ops := (ip_proto_ops w)\<lparr>ipp_udp := handler\<rparr>\<rparr>
      else w)"

definition ip_proto_handler_del :: "uint8_t \<Rightarrow> ('h, 'w) tab_world_scheme \<Rightarrow> ('h, 'w) tab_world_scheme" where
  "ip_proto_handler_del proto w =
     (if proto = IPPROTO_ICMP then w\<lparr>ip_proto_ops := (ip_proto_ops w)\<lparr>ipp_icmp := None\<rparr>\<rparr>
      else if proto = IPPROTO_TCP then w\<lparr>ip_proto_ops := (ip_proto_ops w)\<lparr>ipp_tcp := None\<rparr>\<rparr>
      else if proto = IPPROTO_UDP then w\<lparr>ip_proto_ops := (ip_proto_ops w)\<lparr>ipp_udp := None\<rparr>\<rparr>
      else w)"

section \<open>The interface of a handler table\<close>

text \<open>
  \<open>slot x w\<close> is the key a dispatch on \<open>x\<close> looks up, if it can be read; \<open>keys\<close> are the keys the table has
  room for.
\<close>

locale handler_table =
  fixes keys :: "'k set"
    and entry :: "'w \<Rightarrow> 'k \<Rightarrow> 'h option"
    and add :: "'k \<Rightarrow> 'h option \<Rightarrow> 'w \<Rightarrow> 'w"
    and del :: "'k \<Rightarrow> 'w \<Rightarrow> 'w"
    and slot :: "'a \<Rightarrow> 'w \<Rightarrow> 'k res"
    and drop' :: "'a \<Rightarrow> 'w \<Rightarrow> 'r res"
    and dispatch :: "('h \<Rightarrow> 'a \<Rightarrow> 'w \<Rightarrow> 'r res) \<Rightarrow> 'a \<Rightarrow> 'w \<Rightarrow> 'r res"
  assumes entry_outside: "k \<notin> keys \<Longrightarrow> entry w k = None"
    and entry_add: "entry (add k h w) k' = (if k' = k \<and> k \<in> keys then h else entry w k')"
    and add_outside: "k \<notin> keys \<Longrightarrow> add k h w = w"
    and del_add: "del k w = add k None w"
    and slot_add: "slot x (add k h w) = slot x w"
    and dispatch_eq: "dispatch call x w =
      bnd (slot x w) (\<lambda>k. case entry w k of Some h \<Rightarrow> call h x w | None \<Rightarrow> drop' x w)"
begin

lemma dispatch_add:
  assumes "slot x w = Ok k" "k \<in> keys"
  shows "dispatch call x (add k (Some h) w) = call h x (add k (Some h) w)"
  using assms by (simp add: dispatch_eq slot_add entry_add)

lemma dispatch_del:
  assumes "slot x w = Ok k"
  shows "dispatch call x (del k w) = drop' x (del k w)"
  using assms by (cases "k \<in> keys") (simp_all add: dispatch_eq del_add slot_add entry_add entry_outside)

lemma dispatch_other:
  assumes "slot x w = Ok k" "k' \<noteq> k"
  shows "dispatch call x (add k' h w) = (case entry w k of Some g \<Rightarrow> call g x (add k' h w) | None \<Rightarrow> drop' x (add k' h w))"
  using assms by (simp add: dispatch_eq slot_add entry_add)

lemma dispatch_unknown:
  assumes "slot x w = Ok k" "k \<notin> keys"
  shows "dispatch call x w = drop' x w"
  using assms by (simp add: dispatch_eq entry_outside)

end

definition eth_keys :: "uint16_t set" where "eth_keys = {ETH_P_IP, ETH_P_ARP}"
definition ipp_keys :: "uint8_t set" where "ipp_keys = {IPPROTO_ICMP, IPPROTO_TCP, IPPROTO_UDP}"

lemma key_neqs [simp]: "ETH_P_IP \<noteq> ETH_P_ARP" "ETH_P_ARP \<noteq> ETH_P_IP" "ETH_P_IP \<noteq> 0" "ETH_P_ARP \<noteq> 0"
  "IPPROTO_ICMP \<noteq> IPPROTO_TCP" "IPPROTO_TCP \<noteq> IPPROTO_ICMP" "IPPROTO_UDP \<noteq> IPPROTO_ICMP"
  "IPPROTO_ICMP \<noteq> IPPROTO_UDP" "IPPROTO_TCP \<noteq> IPPROTO_UDP" "IPPROTO_UDP \<noteq> IPPROTO_TCP"
  by (simp_all add: ETH_P_IP_def ETH_P_ARP_def IPPROTO_ICMP_def IPPROTO_TCP_def IPPROTO_UDP_def)

definition eth_entry :: "('h, 'w) tab_world_scheme \<Rightarrow> uint16_t \<Rightarrow> proto_hdlr option" where
  "eth_entry w k = (if k = ETH_P_IP then eth_ip (recv_ops w) else if k = ETH_P_ARP then eth_arp (recv_ops w) else None)"

definition eth_slot :: "'z swaps_scheme \<Rightarrow> nbp \<Rightarrow> ('h, 'w) tab_world_scheme \<Rightarrow> uint16_t res" where
  "eth_slot P nb w = bnd (load_nb w nb) (\<lambda>b. Ok (if nb_protocol b = htons P ETH_P_IP then ETH_P_IP
     else if nb_protocol b = htons P ETH_P_ARP then ETH_P_ARP else 0))"

definition ipp_entry :: "('h, 'w) tab_world_scheme \<Rightarrow> uint8_t \<Rightarrow> proto_hdlr option" where
  "ipp_entry w k = (if k = IPPROTO_ICMP then ipp_icmp (ip_proto_ops w)
     else if k = IPPROTO_TCP then ipp_tcp (ip_proto_ops w)
     else if k = IPPROTO_UDP then ipp_udp (ip_proto_ops w) else None)"

lemma load_nb_tab [simp]:
  "load_nb (w\<lparr>recv_ops := r\<rparr>) p = load_nb w p" "load_nb (w\<lparr>ip_proto_ops := i\<rparr>) p = load_nb w p"
  by (simp_all add: load_nb_def split: nbp.split)

interpretation recv_tab: handler_table eth_keys eth_entry pkt_hdlr_add pkt_hdlr_del "eth_slot P" drop_nb
  "recv_pkt_handler P" for P :: "'z swaps_scheme"
  by unfold_locales (auto simp: eth_keys_def eth_entry_def pkt_hdlr_add_def pkt_hdlr_del_def eth_slot_def
    recv_pkt_handler_def bnd_assoc intro!: bnd_cong)

interpretation ipp_tab: handler_table ipp_keys ipp_entry ip_proto_handler_add ip_proto_handler_del
  "\<lambda>(proto, nb) w. Ok proto" "\<lambda>(proto, nb). drop_nb nb"
  "\<lambda>call (proto, nb). ip_proto_handler (\<lambda>h nb. call h (proto, nb)) proto nb"
  by unfold_locales (auto simp: ipp_keys_def ipp_entry_def ip_proto_handler_add_def ip_proto_handler_del_def
    ip_proto_handler_def)

lemma eth_slot_Ok:
  assumes "swaps_ok P" "nbs w a = Some b"
  shows "nb_protocol b = htons P k \<Longrightarrow> k \<in> eth_keys \<Longrightarrow> eth_slot P (NB a) w = Ok k"
    and "nb_protocol b \<notin> htons P ` eth_keys \<Longrightarrow> eth_slot P (NB a) w = Ok 0"
  using assms by (auto simp: eth_slot_def load_nb_NB eth_keys_def swap_simps)

lemma drop_nb_Ok: "nbs w a = Some b \<Longrightarrow> drop_nb (NB a) w = Ok (NETDEV_RX_DROP, w\<lparr>nbs := (nbs w)(a := None)\<rparr>)"
  by (simp add: drop_nb_def free_net_buff_NB)

lemma pkt_hdlr_nbs [simp]: "nbs (pkt_hdlr_add k h w) = nbs w" "nbs (pkt_hdlr_del k w) = nbs w"
  by (simp_all add: pkt_hdlr_add_def pkt_hdlr_del_def)

lemma ip_proto_handler_nbs [simp]:
  "nbs (ip_proto_handler_add k h w) = nbs w" "nbs (ip_proto_handler_del k w) = nbs w"
  by (simp_all add: ip_proto_handler_add_def ip_proto_handler_del_def)

section \<open>Properties\<close>

text \<open>C29: a packet of a known Ethernet protocol goes to the handler registered last for exactly that
  protocol; after the handler is deleted the packet is freed and dropped; registering anything for
  another protocol does not change where it goes; a packet of an unknown protocol is freed and
  dropped whatever is registered.\<close>

theorem recv_dispatch:
  assumes "swaps_ok P" "nbs w a = Some b"
  shows "if \<exists>k \<in> {ETH_P_IP, ETH_P_ARP}. nb_protocol b = htons P k
    then \<exists>k. nb_protocol b = htons P k \<and>
      (\<forall>call h. recv_pkt_handler P call (NB a) (pkt_hdlr_add k (Some h) w) = call h (NB a) (pkt_hdlr_add k (Some h) w)) \<and>
      (\<forall>call. recv_pkt_handler P call (NB a) (pkt_hdlr_del k w) =
         Ok (NETDEV_RX_DROP, (pkt_hdlr_del k w)\<lparr>nbs := (nbs w)(a := None)\<rparr>)) \<and>
      (\<forall>call g k' h. k' \<noteq> k \<longrightarrow> eth_entry w k = Some g \<longrightarrow>
         recv_pkt_handler P call (NB a) (pkt_hdlr_add k' h w) = call g (NB a) (pkt_hdlr_add k' h w))
    else \<forall>call. recv_pkt_handler P call (NB a) w = Ok (NETDEV_RX_DROP, w\<lparr>nbs := (nbs w)(a := None)\<rparr>)"
proof (cases "\<exists>k \<in> {ETH_P_IP, ETH_P_ARP}. nb_protocol b = htons P k")
  case True
  then obtain k where k: "k \<in> eth_keys" "nb_protocol b = htons P k" by (auto simp: eth_keys_def)
  have slot: "eth_slot P (NB a) w = Ok k" using eth_slot_Ok(1)[OF assms k(2,1)] .
  show ?thesis
    using True k recv_tab.dispatch_add[OF slot k(1)] recv_tab.dispatch_del[OF slot] recv_tab.dispatch_other[OF slot]
    by (auto simp: drop_nb_Ok[where b = b] assms(2))
next
  case False
  then have "eth_slot P (NB a) w = Ok 0" using eth_slot_Ok(2)[OF assms] by (auto simp: eth_keys_def)
  from recv_tab.dispatch_unknown[OF this] False show ?thesis
    by (auto simp: eth_keys_def drop_nb_Ok[where b = b] assms(2))
qed

definition demo_tab_world :: "(addr \<Rightarrow> net_buff option) \<Rightarrow> demo_hw tab_world" where
  "demo_tab_world bs = \<lparr>nbs = bs, queues = Map.empty, mallocs = [], junk = \<lambda>_ _. 0, place = \<lambda>_. 0, devs = [1 \<mapsto> demo_dev],
     curr_net_dev = 1, irq_net_dev = 0, hw = \<lparr>demo_on = True, demo_busy = True, demo_log = []\<rparr>,
     recv_ops = \<lparr>eth_ip = None, eth_arp = None\<rparr>, ip_proto_ops = \<lparr>ipp_icmp = None, ipp_tcp = None, ipp_udp = None\<rparr>\<rparr>"

lemma demo_tab_world_nbs [simp]: "nbs (demo_tab_world bs) = bs"
  by (simp add: demo_tab_world_def)

theorem recv_dispatch_witness:
  "\<exists>w'. recv_pkt_handler avr_swaps (\<lambda>h nb w. Ok (7, w)) (NB 3)
      (pkt_hdlr_add ETH_P_ARP (Some H_arp_recv) (demo_tab_world [3 \<mapsto> (demo_nb [])\<lparr>nb_protocol := htons avr_swaps ETH_P_ARP\<rparr>])) =
    Ok (7, w')"
proof -
  let ?b = "(demo_nb [])\<lparr>nb_protocol := htons avr_swaps ETH_P_ARP\<rparr>"
  have "nbs (demo_tab_world [3 \<mapsto> ?b]) 3 = Some ?b" by simp
  from recv_dispatch[OF swaps_ok_avr this] obtain k where "nb_protocol ?b = htons avr_swaps k"
    "\<forall>call h. recv_pkt_handler avr_swaps call (NB 3) (pkt_hdlr_add k (Some h) (demo_tab_world [3 \<mapsto> ?b])) =
       call h (NB 3) (pkt_hdlr_add k (Some h) (demo_tab_world [3 \<mapsto> ?b]))" by auto
  moreover from this(1) have "k = ETH_P_ARP" by (simp add: swap_simps)
  ultimately show ?thesis by simp
qed

text \<open>The same for IP protocols: a packet goes to the handler registered last for exactly its
  protocol, is freed and dropped once that is deleted, is not affected by registrations for other
  protocols, and is freed and dropped when its protocol is none of ICMP, TCP and UDP.\<close>

theorem ip_proto_dispatch:
  assumes "nbs w a = Some b"
  shows "if proto \<in> {IPPROTO_ICMP, IPPROTO_TCP, IPPROTO_UDP}
    then (\<forall>call h. ip_proto_handler call proto (NB a) (ip_proto_handler_add proto (Some h) w) =
           call h (NB a) (ip_proto_handler_add proto (Some h) w)) \<and>
      (\<forall>call. ip_proto_handler call proto (NB a) (ip_proto_handler_del proto w) =
         Ok (NETDEV_RX_DROP, (ip_proto_handler_del proto w)\<lparr>nbs := (nbs w)(a := None)\<rparr>)) \<and>
      (\<forall>call g k' h. k' \<noteq> proto \<longrightarrow> ipp_entry w proto = Some g \<longrightarrow>
         ip_proto_handler call proto (NB a) (ip_proto_handler_add k' h w) = call g (NB a) (ip_proto_handler_add k' h w))
    else \<forall>call. ip_proto_handler call proto (NB a) w = Ok (NETDEV_RX_DROP, w\<lparr>nbs := (nbs w)(a := None)\<rparr>)"
proof -
  have "proto \<in> ipp_keys \<Longrightarrow> ip_proto_handler call proto (NB a) (ip_proto_handler_add proto (Some h) w) =
      call h (NB a) (ip_proto_handler_add proto (Some h) w)" for call h
    using ipp_tab.dispatch_add[of "(proto, NB a)" w proto "\<lambda>h x. call h (snd x)" h] by simp
  moreover have "ip_proto_handler call proto (NB a) (ip_proto_handler_del proto w) =
      Ok (NETDEV_RX_DROP, (ip_proto_handler_del proto w)\<lparr>nbs := (nbs w)(a := None)\<rparr>)" for call
    using ipp_tab.dispatch_del[of "(proto, NB a)" w proto "\<lambda>h x. call h (snd x)"] assms
    by (simp add: drop_nb_Ok[where b = b])
  moreover have "k' \<noteq> proto \<Longrightarrow> ipp_entry w proto = Some g \<Longrightarrow>
      ip_proto_handler call proto (NB a) (ip_proto_handler_add k' h w) = call g (NB a) (ip_proto_handler_add k' h w)"
    for call g k' h
    using ipp_tab.dispatch_other[of "(proto, NB a)" w proto k' "\<lambda>h x. call h (snd x)" h] by simp
  moreover have "proto \<notin> ipp_keys \<Longrightarrow> ip_proto_handler call proto (NB a) w =
      Ok (NETDEV_RX_DROP, w\<lparr>nbs := (nbs w)(a := None)\<rparr>)" for call
    using ipp_tab.dispatch_unknown[of "(proto, NB a)" w proto "\<lambda>h x. call h (snd x)"] assms
    by (simp add: drop_nb_Ok[where b = b])
  ultimately show ?thesis unfolding ipp_keys_def[symmetric] by (metis (no_types, lifting))
qed

theorem ip_proto_dispatch_witness:
  "\<exists>w'. ip_proto_handler (\<lambda>h nb w. Ok (7, w)) 99 (NB 3) (demo_tab_world [3 \<mapsto> demo_nb []]) = Ok (NETDEV_RX_DROP, w') \<and>
    nbs w' 3 = None"
  using ip_proto_dispatch[of "demo_tab_world [3 \<mapsto> demo_nb []]" 3 "demo_nb []" 99]
  by (simp add: IPPROTO_ICMP_def IPPROTO_TCP_def IPPROTO_UDP_def)

end
