(* ===== verification/Frame_View.thy ===== *)
theory Frame_View
  imports Proto_Table
begin

text \<open>
  Buffers seen as headers.  The handlers overlay structs on the bytes of a buffer and change single
  fields; the proofs see the block as three consecutive windows, the link header at \<open>e\<close>, the network
  header at \<open>n\<close> and the transport data at \<open>t\<close>, and a field access as one on the contents of a
  window.  \<open>in_windows\<close> is the world with given contents; \<open>window_simps\<close> runs a handler on it by rewriting.
\<close>

definition view :: "nat \<Rightarrow> nat \<Rightarrow> nat \<Rightarrow> bytes \<Rightarrow> bytes \<Rightarrow> bytes \<Rightarrow> bytes \<Rightarrow> bool" where
  "view e n t m E N T \<longleftrightarrow> e + length E \<le> n \<and> n + length N \<le> t \<and> t + length T \<le> length m \<and>
     bslice e (length E) m = E \<and> bslice n (length N) m = N \<and> bslice t (length T) m = T"

lemma view_rd:
  assumes "view e n t m E N T"
  shows "k + l \<le> length E \<Longrightarrow> bslice (e + k) l m = bslice k l E"
    and "k + l \<le> length N \<Longrightarrow> bslice (n + k) l m = bslice k l N"
    and "k + l \<le> length T \<Longrightarrow> bslice (t + k) l m = bslice k l T"
  using assms bslice_bslice[of k l "length E" e m] bslice_bslice[of k l "length N" n m]
    bslice_bslice[of k l "length T" t m] by (simp_all add: view_def add.commute)

lemma view_bounds:
  assumes "view e n t m E N T"
  shows "k + l \<le> length E \<Longrightarrow> e + k + l \<le> length m" "k + l \<le> length N \<Longrightarrow> n + k + l \<le> length m"
    "k + l \<le> length T \<Longrightarrow> t + k + l \<le> length m"
  using assms by (simp_all add: view_def)

lemma view_full:
  assumes "view 0 n t m E N T" "length E = n" "n + length N = t" "length m = t + length T"
  shows "m = E @ N @ T"
proof -
  have 1: "bslice 0 (length m) m = bslice 0 n m @ bslice n (length N + length T) m"
    by (rule bslice_split) (use assms in simp_all)
  have 2: "bslice n (length N + length T) m = bslice n (length N) m @ bslice t (length T) m"
    by (rule bslice_split) (use assms in simp_all)
  have "bslice 0 n m = E" "bslice n (length N) m = N" "bslice t (length T) m = T"
    using assms(1,2) by (simp_all add: view_def)
  then have "bslice 0 (length m) m = E @ N @ T" by (simp only: 1 2)
  then show ?thesis by (simp add: bslice_all)
qed

section \<open>Handlers in windows\<close>

text \<open>
  The world in which the buffer \<open>a\<close> is \<open>b\<close> with the contents \<open>E\<close>, \<open>N\<close> and \<open>T\<close> in its three windows.  The
  rules of \<open>window_simps\<close> run the loads and stores of a handler on the contents of the windows.
\<close>

named_theorems window_simps

definition fits :: "nat \<Rightarrow> nat \<Rightarrow> nat \<Rightarrow> nat \<Rightarrow> nat \<Rightarrow> nat \<Rightarrow> nat \<Rightarrow> bool" where
  "fits e n t lm le ln lt \<longleftrightarrow> e + le \<le> n \<and> n + ln \<le> t \<and> t + lt \<le> lm"

definition windows :: "nat \<Rightarrow> nat \<Rightarrow> nat \<Rightarrow> bytes \<Rightarrow> bytes \<Rightarrow> bytes \<Rightarrow> bytes \<Rightarrow> bytes" where
  "windows e n t E N T m = upd e E (upd n N (upd t T m))"

lemma length_windows [simp]: "fits e n t (length m) (length E) (length N) (length T) \<Longrightarrow> length (windows e n t E N T m) = length m"
  by (simp add: windows_def fits_def)

lemma windows_view: "fits e n t (length m) (length E) (length N) (length T) \<Longrightarrow> view e n t (windows e n t E N T m) E N T"
  by (simp add: fits_def view_def windows_def mem_simps)

lemma view_fits: "view e n t m E N T \<Longrightarrow> fits e n t (length m) (length E) (length N) (length T)"
  by (simp add: fits_def view_def)

lemma windows_id: "view e n t m E N T \<Longrightarrow> windows e n t E N T m = m"
  using upd_bslice_id[of t "length T" m] upd_bslice_id[of n "length N" m] upd_bslice_id[of e "length E" m]
  by (simp add: view_def windows_def)

lemma upd_inside:
  assumes "off + length A \<le> length m" "k + length bs \<le> length A"
  shows "upd (off + k) bs (upd off A m) = upd off (upd k bs A) m"
  by (rule nth_equalityI) (use assms in \<open>auto simp: nth_upd\<close>)

lemma upd_windows:
  assumes "fits e n t (length m) (length E) (length N) (length T)"
  shows "k + length bs \<le> length E \<Longrightarrow> upd (e + k) bs (windows e n t E N T m) = windows e n t (upd k bs E) N T m"
    and "k + length bs \<le> length N \<Longrightarrow> upd (n + k) bs (windows e n t E N T m) = windows e n t E (upd k bs N) T m"
    and "k + length bs \<le> length T \<Longrightarrow> upd (t + k) bs (windows e n t E N T m) = windows e n t E N (upd k bs T) m"
proof -
  note f = assms[unfolded fits_def]
  show "k + length bs \<le> length E \<Longrightarrow> upd (e + k) bs (windows e n t E N T m) = windows e n t (upd k bs E) N T m"
    using f by (simp add: windows_def upd_inside)
  have c: "upd i bs (upd e E m') = upd e E (upd i bs m')" if "n \<le> i" "i + length bs \<le> length m'" "length m' = length m" for i m'
    by (rule nth_equalityI) (use f that in \<open>auto simp: nth_upd\<close>)
  have d: "upd i bs (upd n N m') = upd n N (upd i bs m')" if "t \<le> i" "i + length bs \<le> length m'" "length m' = length m" for i m'
    by (rule nth_equalityI) (use f that in \<open>auto simp: nth_upd\<close>)
  show "k + length bs \<le> length N \<Longrightarrow> upd (n + k) bs (windows e n t E N T m) = windows e n t E (upd k bs N) T m"
    using f by (simp add: windows_def upd_inside c)
  show "k + length bs \<le> length T \<Longrightarrow> upd (t + k) bs (windows e n t E N T m) = windows e n t E N (upd k bs T) m"
    using f by (simp add: windows_def upd_inside c d)
qed

lemma windows_full:
  assumes "length E = n" "n + length N = t" "length m = t + length T"
  shows "windows 0 n t E N T m = E @ N @ T"
  by (rule view_full[OF windows_view]) (use assms in \<open>simp_all add: fits_def\<close>)

definition in_windows :: "addr \<Rightarrow> net_buff \<Rightarrow> nat \<Rightarrow> nat \<Rightarrow> nat \<Rightarrow> bytes \<Rightarrow> bytes \<Rightarrow> bytes \<Rightarrow> 'w nb_world_scheme \<Rightarrow> 'w nb_world_scheme" where
  "in_windows a b e n t E N T w = w\<lparr>nbs := (nbs w)(a \<mapsto> b\<lparr>nb_mem := windows e n t E N T (nb_mem b)\<rparr>)\<rparr>"

lemma in_windows_start:
  assumes "nbs w a = Some b" "view e n t (nb_mem b) E N T"
  shows "in_windows a b e n t E N T w = w"
  using assms by (simp add: in_windows_def windows_id fun_upd_idem)

lemma in_windows_buf [window_simps]: "nbs (in_windows a b e n t E N T w) a = Some (b\<lparr>nb_mem := windows e n t E N T (nb_mem b)\<rparr>)"
  by (simp add: in_windows_def)

lemma in_windows_rd [window_simps]:
  assumes "fits e n t (length (nb_mem b)) (length E) (length N) (length T)"
  shows "e \<le> i \<Longrightarrow> i + l \<le> e + length E \<Longrightarrow> nb_rd (NB a) i l (in_windows a b e n t E N T w) = Ok (bslice (i - e) l E)"
    and "n \<le> i \<Longrightarrow> i + l \<le> n + length N \<Longrightarrow> nb_rd (NB a) i l (in_windows a b e n t E N T w) = Ok (bslice (i - n) l N)"
    and "t \<le> i \<Longrightarrow> i + l \<le> t + length T \<Longrightarrow> nb_rd (NB a) i l (in_windows a b e n t E N T w) = Ok (bslice (i - t) l T)"
  using view_rd[OF windows_view[OF assms], of "i - e" l] view_rd[OF windows_view[OF assms], of "i - n" l]
    view_rd[OF windows_view[OF assms], of "i - t" l] assms
  by (simp_all add: nb_rd_NB[OF in_windows_buf] fits_def)

lemma in_windows_wr [window_simps]:
  assumes f: "fits e n t (length (nb_mem b)) (length E) (length N) (length T)"
  shows "e \<le> i \<Longrightarrow> i + length bs \<le> e + length E \<Longrightarrow>
      nb_wr (NB a) i bs (in_windows a b e n t E N T w) = Ok (in_windows a b e n t (upd (i - e) bs E) N T w)"
    and "n \<le> i \<Longrightarrow> i + length bs \<le> n + length N \<Longrightarrow>
      nb_wr (NB a) i bs (in_windows a b e n t E N T w) = Ok (in_windows a b e n t E (upd (i - n) bs N) T w)"
    and "t \<le> i \<Longrightarrow> i + length bs \<le> t + length T \<Longrightarrow>
      nb_wr (NB a) i bs (in_windows a b e n t E N T w) = Ok (in_windows a b e n t E N (upd (i - t) bs T) w)"
proof -
  have step: "nb_wr (NB a) i bs (in_windows a b e n t E N T w) = Ok (in_windows a b e n t E' N' T' w)"
    if "i + length bs \<le> length (nb_mem b)" "upd i bs (windows e n t E N T (nb_mem b)) = windows e n t E' N' T' (nb_mem b)" for E' N' T'
    using that f by (subst nb_wr_NB[OF in_windows_buf]) (simp_all add: in_windows_def)
  note F = f[unfolded fits_def]
  show "nb_wr (NB a) i bs (in_windows a b e n t E N T w) = Ok (in_windows a b e n t (upd (i - e) bs E) N T w)"
    if "e \<le> i" "i + length bs \<le> e + length E" using that F upd_windows(1)[OF f, of "i - e" bs] by (intro step) simp_all
  show "nb_wr (NB a) i bs (in_windows a b e n t E N T w) = Ok (in_windows a b e n t E (upd (i - n) bs N) T w)"
    if "n \<le> i" "i + length bs \<le> n + length N" using that F upd_windows(2)[OF f, of "i - n" bs] by (intro step) simp_all
  show "nb_wr (NB a) i bs (in_windows a b e n t E N T w) = Ok (in_windows a b e n t E N (upd (i - t) bs T) w)"
    if "t \<le> i" "i + length bs \<le> t + length T" using that F upd_windows(3)[OF f, of "i - t" bs] by (intro step) simp_all
qed

lemma in_windows_upd [window_simps]:
  assumes "\<And>x. f (b\<lparr>nb_mem := x\<rparr>) = (f b)\<lparr>nb_mem := x\<rparr>" "nb_mem (f b) = nb_mem b"
  shows "nb_upd (NB a) f (in_windows a b e n t E N T w) = Ok (in_windows a (f b) e n t E N T w)"
  by (simp add: nb_upd_NB[OF in_windows_buf] assms) (simp add: in_windows_def assms)

lemma in_windows_put [window_simps]:
  assumes "nb_tail b + unat l \<le> nb_end b" "nb_end b \<le> length (nb_mem b)" "nb_end b < 65536"
    and "fits e n t (length (nb_mem b)) (length E) (length N) (length T)"
  shows "put_net_buff (NB a) l (in_windows a b e n t E N T w) =
    Ok (nb_tail b, in_windows a (b\<lparr>nb_tail := nb_tail b + unat l, nb_pkt_len := nb_pkt_len b + l\<rparr>) e n t E N T w)"
  using assms by (subst put_net_buff_fits[OF in_windows_buf]) (simp_all add: in_windows_def)

lemma in_windows_sel [window_simps]:
  "devs (in_windows a b e n t E N T (w :: ('h, 'w) dev_world_scheme)) = devs w" "hw (in_windows a b e n t E N T w) = hw w"
  "load_dev (in_windows a b e n t E N T w) = load_dev w"
  by (auto simp: in_windows_def load_dev_def)

text \<open>\<open>memcpy\<close> inside one buffer, between fields that do not overlap.\<close>

definition nb_copy :: "nbp \<Rightarrow> nat \<Rightarrow> nat \<Rightarrow> nat \<Rightarrow> 'w nb_world_scheme \<Rightarrow> 'w nb_world_scheme res" where
  "nb_copy nb dst src n w = bnd (nb_rd nb src n w) (\<lambda>bs. nb_wr nb dst bs w)"

lemmas [window_simps] = nb_copy_def

text \<open>Loads from a buffer whose windows are known, and fields of the link header.\<close>

lemma view_loads:
  assumes "nbs w a = Some b" "view e n t (nb_mem b) E N T"
  shows "e \<le> i \<Longrightarrow> i + l \<le> e + length E \<Longrightarrow> nb_rd (NB a) i l w = Ok (bslice (i - e) l E)"
    and "n \<le> i \<Longrightarrow> i + l \<le> n + length N \<Longrightarrow> nb_rd (NB a) i l w = Ok (bslice (i - n) l N)"
    and "t \<le> i \<Longrightarrow> i + l \<le> t + length T \<Longrightarrow> nb_rd (NB a) i l w = Ok (bslice (i - t) l T)"
  by (rule in_windows_rd[OF view_fits[OF assms(2)], where a = a and w = w, unfolded in_windows_start[OF assms]], assumption+)+

lemma eth_windows [window_simps]:
  assumes "length dst = 6" "length src = 6"
  shows "bslice 0 6 (eth_bytes dst src type) = dst" "bslice 6 6 (eth_bytes dst src type) = src"
    "length m = 6 \<Longrightarrow> upd 0 m (eth_bytes dst src type) = eth_bytes m src type"
    "length m = 6 \<Longrightarrow> upd 6 m (eth_bytes dst src type) = eth_bytes dst m type"
  using assms by (simp_all add: eth_bytes_def bslice_def upd_def)

end
