(* ===== verification/Arp.thy ===== *)
theory Arp
  imports Frame_View
begin

text \<open>
  Address resolution (\<open>netinet/arp.h\<close>, \<open>netinet/arp.c\<close>): the table of one entry, the receive handler
  that answers requests and learns from replies, and the sender.  The header is overlaid on the bytes
  of a buffer; the abbreviations below are the offsets of its fields.  The world gains the globals of
  the IP layer that the handlers read.
\<close>

section \<open>Data\<close>

record arp_tbl_entry =
  at_ip :: uint32_t
  at_mac :: bytes

record 'h ip_world = "'h tab_world" +
  my_ip :: uint32_t
  net_mask :: uint32_t
  gateway :: uint32_t
  dns_serv :: uint32_t
  arp_tbl :: arp_tbl_entry

definition HWT_ETHER :: uint16_t where "HWT_ETHER = 1"
definition ARP_OP_REQ :: uint16_t where "ARP_OP_REQ = 1"
definition ARP_OP_REPLY :: uint16_t where "ARP_OP_REPLY = 2"

abbreviation (input) "arph_htype \<equiv> 0 :: nat"
abbreviation (input) "arph_ptype \<equiv> 2 :: nat"
abbreviation (input) "arph_hlen \<equiv> 4 :: nat"
abbreviation (input) "arph_plen \<equiv> 5 :: nat"
abbreviation (input) "arph_oper \<equiv> 6 :: nat"
abbreviation (input) "arph_sha \<equiv> 8 :: nat"
abbreviation (input) "arph_spa \<equiv> 14 :: nat"
abbreviation (input) "arph_tha \<equiv> 18 :: nat"
abbreviation (input) "arph_tpa \<equiv> 24 :: nat"

definition ARP_HDR_SIZE :: nat where "ARP_HDR_SIZE = 28"

section \<open>The table\<close>

definition arp_tbl_set :: "bytes \<Rightarrow> bytes \<Rightarrow> ('h, 'w) ip_world_scheme \<Rightarrow> ('h, 'w) ip_world_scheme res" where
  "arp_tbl_set ip mac w =
     bnd (rd 0 IP4_LEN ip) (\<lambda>i.
     let e = arp_tbl w; e = (if le32 (at_ip e) \<noteq> i then e\<lparr>at_ip := un32 i\<rparr> else e) in
     bnd (mac_at mac) (\<lambda>m. Ok (w\<lparr>arp_tbl := e\<lparr>at_mac := m\<rparr>\<rparr>)))"

definition arp_tbl_get :: "bytes \<Rightarrow> ('h, 'w) ip_world_scheme \<Rightarrow> bytes option res" where
  "arp_tbl_get ip w =
     bnd (rd 0 IP4_LEN ip) (\<lambda>i. Ok (if le32 (at_ip (arp_tbl w)) = i then Some (at_mac (arp_tbl w)) else None))"

section \<open>Receiving\<close>

definition get_arp_hdr :: "net_buff \<Rightarrow> nat" where
  "get_arp_hdr b = unat (nb_network_hdr_offset b)"

definition arp_xmit :: "('h, 'w) dev_world_scheme platform \<Rightarrow> nat \<Rightarrow> nbp \<Rightarrow> ('h, 'w) dev_world_scheme \<Rightarrow>
    (int8_t \<times> ('h, 'w) dev_world_scheme) res" where
  "arp_xmit P fuel nb w = netdev_list_xmit P fuel nb w"

definition arp_proc :: "('h, 'w) ip_world_scheme platform \<Rightarrow> nat \<Rightarrow> nbp \<Rightarrow> ('h, 'w) ip_world_scheme \<Rightarrow>
    (int8_t \<times> ('h, 'w) ip_world_scheme) res" where
  "arp_proc P fuel nb w =
     bnd (load_nb w nb) (\<lambda>b.
     let arph = get_arp_hdr b;
         free_buf = (\<lambda>ret w. bnd (free_net_buff nb w) (\<lambda>w. Ok (ret, w))) in
     bnd (nb_rd nb (arph + arph_ptype) 2 w) (\<lambda>ptype.
     bnd (nb_rd nb (arph + arph_htype) 2 w) (\<lambda>htype.
     if un16 ptype \<noteq> htons P ETH_P_IP \<or> un16 htype \<noteq> htons P HWT_ETHER then free_buf NETDEV_RX_DROP w else
     bnd (nb_rd nb (arph + arph_oper) 2 w) (\<lambda>oper.
     if un16 oper \<noteq> htons P ARP_OP_REQ \<and> un16 oper \<noteq> htons P ARP_OP_REPLY then free_buf NETDEV_RX_DROP w else
     bnd (nb_rd nb (arph + arph_tpa) 4 w) (\<lambda>tpa.
     bnd (inet_class_determine P (Some tpa) None) (\<lambda>(cls, _).
     if cls = IN_CLASS_D \<or> (tpa ! 0) AND 0xF0 = 0x7F then free_buf NETDEV_RX_DROP w else
     bnd (nb_rd nb (arph + arph_spa) IP4_LEN w) (\<lambda>spa.
     if spa = tpa then free_buf NETDEV_RX_DROP w else
     if tpa \<noteq> le32 (my_ip w) then free_buf NETDEV_RX_DROP w else
     if un16 oper = htons P ARP_OP_REQ then
       bnd (nb_upd nb (\<lambda>b. b\<lparr>nb_pkt_len := nb_pkt_len b - 4\<rparr>) w) (\<lambda>w.
       let eth_hdr = unat (nb_mac_hdr_offset b) in
       bnd (nb_wr nb (arph + arph_oper) (le16 (htons P ARP_OP_REPLY)) w) (\<lambda>w.
       bnd (nb_copy nb (arph + arph_tha) (arph + arph_sha) ETH_MAC_LEN w) (\<lambda>w.
       bnd (nb_copy nb (arph + arph_tpa) (arph + arph_spa) IP4_LEN w) (\<lambda>w.
       bnd (load_dev w (nb_net_dev b)) (\<lambda>ndev.
       bnd (mac_at (nd_dev_addr ndev)) (\<lambda>dev_addr.
       bnd (nb_wr nb (arph + arph_sha) dev_addr w) (\<lambda>w.
       bnd (nb_wr nb (arph + arph_spa) (le32 (my_ip w)) w) (\<lambda>w.
       bnd (nb_copy nb eth_hdr (eth_hdr + 6) ETH_MAC_LEN w) (\<lambda>w.
       bnd (nb_wr nb (eth_hdr + 6) dev_addr w) (\<lambda>w.
       bnd (arp_xmit P fuel nb w) (\<lambda>(_, w). Ok (NETDEV_RX_SUCCESS, w))))))))))))
     else
       bnd (nb_rd nb (arph + arph_sha) ETH_MAC_LEN w) (\<lambda>sha.
       bnd (arp_tbl_set spa sha w) (\<lambda>w. free_buf NETDEV_RX_SUCCESS w))))))))) "

definition arp_recv :: "('h, 'w) ip_world_scheme platform \<Rightarrow> nat \<Rightarrow> nbp \<Rightarrow> ('h, 'w) ip_world_scheme \<Rightarrow>
    (int8_t \<times> ('h, 'w) ip_world_scheme) res" where
  "arp_recv P fuel nb w =
     bnd (load_nb w nb) (\<lambda>b.
     if unat (nb_pkt_type b) = PKT_OTHERHOST \<or> unat (nb_pkt_type b) = PKT_LOOPBACK then
       bnd (free_net_buff nb w) (\<lambda>w. Ok (NETDEV_RX_SUCCESS, w))
     else
       let arph = get_arp_hdr b in
       bnd (nb_rd nb (arph + arph_hlen) 1 w) (\<lambda>hlen.
       bnd (nb_rd nb (arph + arph_plen) 1 w) (\<lambda>plen.
       if hlen ! 0 = of_nat ETH_MAC_LEN \<or> plen ! 0 = of_nat IP4_LEN then arp_proc P fuel nb w
       else bnd (free_net_buff nb w) (\<lambda>w. Ok (NETDEV_RX_DROP, w)))))"

definition arp_init :: "('h, 'w) ip_world_scheme \<Rightarrow> ('h, 'w) ip_world_scheme" where
  "arp_init w = pkt_hdlr_add ETH_P_ARP (Some H_arp_recv) (w\<lparr>arp_tbl := \<lparr>at_ip = 0, at_mac = replicate 6 0\<rparr>\<rparr>)"

section \<open>Sending\<close>

definition arp_create :: "('h, 'w) ip_world_scheme platform \<Rightarrow> addr \<Rightarrow> uint16_t \<Rightarrow> uint16_t \<Rightarrow> bytes option \<Rightarrow>
    bytes option \<Rightarrow> bytes option \<Rightarrow> bytes option \<Rightarrow> bytes \<Rightarrow> ('h, 'w) ip_world_scheme \<Rightarrow>
    (nbp \<times> ('h, 'w) ip_world_scheme) res" where
  "arp_create P net_dev oper ptype dest_hw sha spa tha tpa w =
     (let (nb, w) = ndev_alloc_net_buff net_dev (of_nat (ETH_HDR_LEN + ARP_HDR_SIZE)) w in
      if nb = NULLP then Ok (NULLP, w) else
      bnd (load_dev w net_dev) (\<lambda>x.
      let dest_hw = (case dest_hw of None \<Rightarrow> nd_broadcast x | Some m \<Rightarrow> m);
          sha = (case sha of None \<Rightarrow> nd_dev_addr x | Some m \<Rightarrow> m);
          spa = (case spa of None \<Rightarrow> le32 (my_ip w) | Some i \<Rightarrow> i) in
      bnd (nb_upd nb (\<lambda>b. b\<lparr>nb_protocol := htons P ETH_P_ARP, nb_tail := nb_tail b + ETH_HDR_LEN\<rparr>) w) (\<lambda>w.
      bnd (load_nb w nb) (\<lambda>b.
      bnd (netdev_hdr_create P nb net_dev ETH_P_ARP (Some dest_hw) (Some sha) (nb_pkt_len b) w) (\<lambda>(err, w).
      if err \<noteq> 0 then bnd (free_net_buff nb w) (\<lambda>w. Ok (NULLP, w)) else
      bnd (put_net_buff nb (of_nat ARP_HDR_SIZE) w) (\<lambda>(arph, w).
      bnd (nb_wr nb (arph + arph_htype) (le16 (htons P 1)) w) (\<lambda>w.
      bnd (nb_wr nb (arph + arph_ptype) (le16 (htons P ptype)) w) (\<lambda>w.
      bnd (nb_wr nb (arph + arph_hlen) [of_nat ETH_MAC_LEN] w) (\<lambda>w.
      bnd (nb_wr nb (arph + arph_plen) [of_nat IP4_LEN] w) (\<lambda>w.
      bnd (nb_wr nb (arph + arph_oper) (le16 (htons P oper)) w) (\<lambda>w.
      bnd (mac_at sha) (\<lambda>s. bnd (nb_wr nb (arph + arph_sha) s w) (\<lambda>w.
      bnd (rd 0 IP4_LEN spa) (\<lambda>s. bnd (nb_wr nb (arph + arph_spa) s w) (\<lambda>w.
      bnd (case tha of None \<Rightarrow> Ok (replicate ETH_MAC_LEN 0) | Some m \<Rightarrow> mac_at m) (\<lambda>t.
      bnd (nb_wr nb (arph + arph_tha) t w) (\<lambda>w.
      bnd (rd 0 IP4_LEN tpa) (\<lambda>t. bnd (nb_wr nb (arph + arph_tpa) t w) (\<lambda>w.
      Ok (nb, w))))))))))))))))))))"

definition arp_send :: "('h, 'w) ip_world_scheme platform \<Rightarrow> nat \<Rightarrow> addr \<Rightarrow> uint16_t \<Rightarrow> uint16_t \<Rightarrow> bytes option \<Rightarrow>
    bytes option \<Rightarrow> bytes option \<Rightarrow> bytes option \<Rightarrow> bytes \<Rightarrow> ('h, 'w) ip_world_scheme \<Rightarrow>
    (int8_t \<times> ('h, 'w) ip_world_scheme) res" where
  "arp_send P fuel net_dev oper ptype dest_hw sha spa tha tpa w =
     bnd (arp_create P net_dev oper ptype dest_hw sha spa tha tpa w) (\<lambda>(nb, w).
     if nb = NULLP then Ok (- 1, w) else arp_xmit P fuel nb w)"

section \<open>Packets\<close>

record arp_pkt =
  ap_htype :: uint16_t
  ap_ptype :: uint16_t
  ap_hlen :: uint8_t
  ap_plen :: uint8_t
  ap_oper :: uint16_t
  ap_sha :: bytes
  ap_spa :: bytes
  ap_tha :: bytes
  ap_tpa :: bytes

definition arp_bytes :: "arp_pkt \<Rightarrow> bytes" where
  "arp_bytes p = be16 (ap_htype p) @ be16 (ap_ptype p) @ [ap_hlen p] @ [ap_plen p] @ be16 (ap_oper p) @
     ap_sha p @ ap_spa p @ ap_tha p @ ap_tpa p"

definition arp_ok :: "arp_pkt \<Rightarrow> bool" where
  "arp_ok p \<longleftrightarrow> length (ap_sha p) = 6 \<and> length (ap_spa p) = 4 \<and> length (ap_tha p) = 6 \<and> length (ap_tpa p) = 4"

lemma arp_okD [simp]:
  assumes "arp_ok p"
  shows "length (ap_sha p) = 6" "length (ap_spa p) = 4" "length (ap_tha p) = 6" "length (ap_tpa p) = 4"
    "length (arp_bytes p) = 28"
  using assms by (simp_all add: arp_ok_def arp_bytes_def)

lemma arp_ok_upd [simp]:
  "arp_ok (p\<lparr>ap_oper := x\<rparr>) = arp_ok p"
  "length m = 6 \<Longrightarrow> arp_ok p \<Longrightarrow> arp_ok (p\<lparr>ap_sha := m\<rparr>)"
  "length i = 4 \<Longrightarrow> arp_ok p \<Longrightarrow> arp_ok (p\<lparr>ap_spa := i\<rparr>)"
  "length m = 6 \<Longrightarrow> arp_ok p \<Longrightarrow> arp_ok (p\<lparr>ap_tha := m\<rparr>)"
  "length i = 4 \<Longrightarrow> arp_ok p \<Longrightarrow> arp_ok (p\<lparr>ap_tpa := i\<rparr>)"
  by (simp_all add: arp_ok_def del: arp_okD)

text \<open>Reading and replacing fields.\<close>

lemma arp_fields [window_simps]:
  assumes "arp_ok p"
  shows "bslice 0 2 (arp_bytes p) = be16 (ap_htype p)" "bslice 2 2 (arp_bytes p) = be16 (ap_ptype p)"
    "bslice 4 (Suc 0) (arp_bytes p) = [ap_hlen p]" "bslice 5 (Suc 0) (arp_bytes p) = [ap_plen p]"
    "bslice 6 2 (arp_bytes p) = be16 (ap_oper p)" "bslice 8 6 (arp_bytes p) = ap_sha p"
    "bslice 14 4 (arp_bytes p) = ap_spa p" "bslice 18 6 (arp_bytes p) = ap_tha p" "bslice 24 4 (arp_bytes p) = ap_tpa p"
  using assms by (simp_all add: bslice_def arp_bytes_def)

lemma arp_upds [window_simps]:
  assumes "arp_ok p"
  shows "upd 6 (be16 x) (arp_bytes p) = arp_bytes (p\<lparr>ap_oper := x\<rparr>)"
    "length m = 6 \<Longrightarrow> upd 8 m (arp_bytes p) = arp_bytes (p\<lparr>ap_sha := m\<rparr>)"
    "length i = 4 \<Longrightarrow> upd 14 i (arp_bytes p) = arp_bytes (p\<lparr>ap_spa := i\<rparr>)"
    "length m = 6 \<Longrightarrow> upd 18 m (arp_bytes p) = arp_bytes (p\<lparr>ap_tha := m\<rparr>)"
    "length i = 4 \<Longrightarrow> upd 24 i (arp_bytes p) = arp_bytes (p\<lparr>ap_tpa := i\<rparr>)"
  using assms by (simp_all add: upd_def arp_bytes_def)

text \<open>What the protocol asks of the host \<open>my\<close> (its address in memory) for a packet.\<close>

datatype arp_action = Ignore | Answer | Learn

definition arp_for :: "bytes \<Rightarrow> arp_pkt \<Rightarrow> bool" where
  "arp_for my p \<longleftrightarrow> ap_ptype p = ETH_P_IP \<and> ap_htype p = HWT_ETHER \<and> ap_oper p \<in> {ARP_OP_REQ, ARP_OP_REPLY} \<and>
     addr_class (ap_tpa p ! 0) \<noteq> 3 \<and> ap_spa p \<noteq> ap_tpa p \<and> ap_tpa p = my"

definition arp_decide :: "bytes \<Rightarrow> arp_pkt \<Rightarrow> arp_action" where
  "arp_decide my p =
     (if \<not> arp_for my p then Ignore else if ap_oper p = ARP_OP_REQ then Answer else Learn)"

definition arp_answer :: "bytes \<Rightarrow> bytes \<Rightarrow> arp_pkt \<Rightarrow> arp_pkt" where
  "arp_answer mac my p = p\<lparr>ap_oper := ARP_OP_REPLY, ap_tha := ap_sha p, ap_tpa := ap_spa p, ap_sha := mac, ap_spa := my\<rparr>"

section \<open>The handlers on packets\<close>

lemma no_loopback_test: "b AND 0xF0 \<noteq> 0x7F" for b :: uint8_t
proof
  assume "b AND 0xF0 = 0x7F"
  then have "bit (b AND 0xF0) 0 = bit (0x7F :: uint8_t) 0" by simp
  then show False by (simp add: bit_simps)
qed

text \<open>A buffer with an ARP packet behind an Ethernet header.\<close>

definition arp_frame :: "net_buff \<Rightarrow> bytes \<Rightarrow> bytes \<Rightarrow> uint16_t \<Rightarrow> arp_pkt \<Rightarrow> bool" where
  "arp_frame b dst src type p \<longleftrightarrow> arp_ok p \<and> length dst = 6 \<and> length src = 6 \<and>
     view (unat (nb_mac_hdr_offset b)) (unat (nb_network_hdr_offset b)) (unat (nb_network_hdr_offset b) + 28)
       (nb_mem b) (eth_bytes dst src type) (arp_bytes p) []"

lemma arp_ops_neq [simp]: "ARP_OP_REQ \<noteq> ARP_OP_REPLY" "ARP_OP_REPLY \<noteq> ARP_OP_REQ"
  by (simp_all add: ARP_OP_REQ_def ARP_OP_REPLY_def)

lemma class_D_iff: "(of_nat (addr_class x) :: int8_t) = IN_CLASS_D \<longleftrightarrow> addr_class x = 3"
proof -
  have "addr_class x = 0 \<or> addr_class x = 1 \<or> addr_class x = 2 \<or> addr_class x = 3 \<or> addr_class x = 4"
    using addr_class_le[of x] by linarith
  then show ?thesis by (elim disjE) (simp_all add: IN_CLASS_D_def)
qed

lemma ip_world_more:
  assumes "dev_world.more w = dev_world.more (w0 :: ('h, 'w) ip_world_scheme)"
  shows "my_ip w = my_ip w0" "arp_tbl w = arp_tbl w0" "net_mask w = net_mask w0" "gateway w = gateway w0"
    "dns_serv w = dns_serv w0" "recv_ops w = recv_ops w0" "ip_proto_ops w = ip_proto_ops w0"
    "ip_world.more w = ip_world.more w0"
  using assms by (cases w; cases w0; simp)+

lemma in_windows_ip [window_simps]:
  "my_ip (in_windows a b e n t E N T (w :: ('h, 'w) ip_world_scheme)) = my_ip w"
  by (simp add: in_windows_def)

lemma arp_tbl_set_Ok:
  assumes "length ip = 4" "length mac = 6"
  shows "arp_tbl_set ip mac w = Ok (w\<lparr>arp_tbl := \<lparr>at_ip = un32 ip, at_mac = mac\<rparr>\<rparr>)"
  using assms by (cases "arp_tbl w") (auto simp: arp_tbl_set_def IP4_LEN_def bslice_def Let_def)

text \<open>What \<open>arp_proc\<close> does with a packet, up to the transmission of an answer.\<close>

definition freed :: "addr \<Rightarrow> 'w nb_world_scheme \<Rightarrow> 'w nb_world_scheme" where
  "freed a w = w\<lparr>nbs := (nbs w)(a := None)\<rparr>"

lemma freed_sel [simp]: "nbs (freed a w) = (nbs w)(a := None)" "nb_world.more (freed a w) = nb_world.more w"
  by (simp_all add: freed_def)

lemma free_net_buff_freed: "nbs w a = Some b \<Longrightarrow> free_net_buff (NB a) w = Ok (freed a w)"
  by (simp add: freed_def free_net_buff_NB)

lemma arp_proc_frame:
  assumes P: "swaps_ok P" and b: "nbs w a = Some b" "arp_frame b dst src type p"
    and dev: "load_dev w (nb_net_dev b) = Ok x" "length (nd_dev_addr x) = 6"
  shows "case arp_decide (le32 (my_ip w)) p of
      Ignore \<Rightarrow> arp_proc P fuel (NB a) w = Ok (NETDEV_RX_DROP, freed a w)
    | Learn \<Rightarrow> arp_proc P fuel (NB a) w =
        Ok (NETDEV_RX_SUCCESS, freed a (w\<lparr>arp_tbl := \<lparr>at_ip = un32 (ap_spa p), at_mac = ap_sha p\<rparr>\<rparr>))
    | Answer \<Rightarrow> \<exists>m. arp_proc P fuel (NB a) w = bnd (arp_xmit P fuel (NB a)
          (w\<lparr>nbs := (nbs w)(a \<mapsto> b\<lparr>nb_pkt_len := nb_pkt_len b - 4, nb_mem := m\<rparr>)\<rparr>))
          (\<lambda>(_, w). Ok (NETDEV_RX_SUCCESS, w)) \<and>
        arp_frame (b\<lparr>nb_pkt_len := nb_pkt_len b - 4, nb_mem := m\<rparr>) src (nd_dev_addr x) type
          (arp_answer (nd_dev_addr x) (le32 (my_ip w)) p)"
proof -
  define e n where "e = unat (nb_mac_hdr_offset b)" and "n = unat (nb_network_hdr_offset b)"
  note en = e_def[symmetric] n_def[symmetric]
  have ok: "arp_ok p" "length dst = 6" "length src = 6"
    and v: "view e n (n + 28) (nb_mem b) (eth_bytes dst src type) (arp_bytes p) []"
    using b(2) by (simp_all add: arp_frame_def e_def n_def)
  note code = arp_proc_def get_arp_hdr_def en inet_class_determine_code swaps_okD(1)[OF P] le_swap_be class_D_iff
    no_loopback_test IP4_LEN_def ETH_MAC_LEN_def
  note head = code ok(1) load_nb_NB[OF b(1)] view_loads(2)[OF b(1) v] window_simps free_net_buff_freed[OF b(1)]
  consider (no) "\<not> arp_for (le32 (my_ip w)) p" | (req) "arp_for (le32 (my_ip w)) p" "ap_oper p = ARP_OP_REQ"
    | (rep) "arp_for (le32 (my_ip w)) p" "ap_oper p = ARP_OP_REPLY"
    by (auto simp: arp_for_def)
  then show ?thesis
  proof cases
    case no
    then show ?thesis by (simp add: head arp_decide_def) (auto simp: arp_for_def)
  next
    case rep
    have "arp_tbl_set (ap_spa p) (ap_sha p) w = Ok (w\<lparr>arp_tbl := \<lparr>at_ip = un32 (ap_spa p), at_mac = ap_sha p\<rparr>\<rparr>)"
      by (rule arp_tbl_set_Ok) (use ok(1) in simp_all)
    moreover have "free_net_buff (NB a) (w\<lparr>arp_tbl := t\<rparr>) = Ok (freed a (w\<lparr>arp_tbl := t\<rparr>))" for t
      using b(1) by (intro free_net_buff_freed) simp
    ultimately show ?thesis using rep by (simp add: head arp_decide_def arp_for_def)
  next
    case req
    let ?p = "arp_answer (nd_dev_addr x) (le32 (my_ip w)) p" and ?b = "b\<lparr>nb_pkt_len := nb_pkt_len b - 4\<rparr>"
    let ?E = "eth_bytes src (nd_dev_addr x) type"
    have a: "arp_ok ?p" using ok dev(2) by (simp add: arp_answer_def)
    then have "fits e n (n + 28) (length (nb_mem ?b)) (length ?E) (length (arp_bytes ?p)) (length [])"
      using view_fits[OF v] ok dev(2) by simp
    from windows_view[OF this] have fr: "arp_frame (?b\<lparr>nb_mem := windows e n (n + 28) ?E (arp_bytes ?p) [] (nb_mem b)\<rparr>) src (nd_dev_addr x) type ?p"
      using a ok dev(2) by (simp add: arp_frame_def en)
    have "addr_class (le32 (my_ip w) ! 0) \<noteq> 3" "ap_spa p \<noteq> le32 (my_ip w)" using req(1) by (auto simp: arp_for_def)
    moreover have "fits e n (n + 28) (length (nb_mem b)) 14 28 0" using view_fits[OF v] ok by simp
    ultimately have run: "arp_proc P fuel (NB a) (in_windows a b e n (n + 28) (eth_bytes dst src type) (arp_bytes p) [] w) =
        bnd (arp_xmit P fuel (NB a) (in_windows a ?b e n (n + 28) ?E (arp_bytes ?p) [] w)) (\<lambda>(_, w). Ok (NETDEV_RX_SUCCESS, w))"
      using req ok dev
      by (simp add: code load_nb_NB[OF in_windows_buf] window_simps arp_for_def arp_answer_def Let_def)
    show ?thesis using req fr run unfolding in_windows_start[OF b(1) v] by (auto simp: arp_decide_def in_windows_def)
  qed
qed

section \<open>The packet that is sent\<close>

text \<open>The defaults of \<open>arp_create\<close> for the pointers that may be \<open>NULL\<close>.\<close>

definition arp_out :: "net_dev \<Rightarrow> uint32_t \<Rightarrow> uint16_t \<Rightarrow> uint16_t \<Rightarrow> bytes option \<Rightarrow> bytes option \<Rightarrow> bytes option \<Rightarrow>
    bytes \<Rightarrow> arp_pkt" where
  "arp_out x my oper ptype sha spa tha tpa = \<lparr>ap_htype = HWT_ETHER, ap_ptype = ptype, ap_hlen = 6, ap_plen = 4,
     ap_oper = oper, ap_sha = (case sha of None \<Rightarrow> nd_dev_addr x | Some m \<Rightarrow> m),
     ap_spa = (case spa of None \<Rightarrow> le32 my | Some i \<Rightarrow> i),
     ap_tha = (case tha of None \<Rightarrow> replicate 6 0 | Some m \<Rightarrow> m), ap_tpa = tpa\<rparr>"

definition dst_of :: "bytes option \<Rightarrow> net_dev \<Rightarrow> bytes" where
  "dst_of dest x = (case dest of None \<Rightarrow> nd_broadcast x | Some m \<Rightarrow> m)"

definition arp_buff :: "'z swaps_scheme \<Rightarrow> addr \<Rightarrow> bytes \<Rightarrow> arp_pkt \<Rightarrow> net_buff" where
  "arp_buff P d dst p = (nb_fresh (eth_bytes dst (ap_sha p) ETH_P_ARP @ arp_bytes p) 42)
     \<lparr>nb_net_dev := d, nb_pkt_len := 42, nb_protocol := htons P ETH_P_ARP, nb_tail := 42\<rparr>"

lemma arp_write:
  assumes "arp_ok p" "length m = 42" "length E = 14"
  shows "upd 38 (ap_tpa p) (upd 32 (ap_tha p) (upd 28 (ap_spa p) (upd 22 (ap_sha p) (upd 20 (be16 (ap_oper p))
    (upd 19 [ap_plen p] (upd 18 [ap_hlen p] (upd 16 (be16 (ap_ptype p)) (upd 14 (be16 (ap_htype p)) (upd 0 E m)))))))))
    = E @ arp_bytes p"
proof -
  have "upd 0 E m = E @ drop 14 m" using assms(2,3) by (simp add: upd_def)
  then show ?thesis
    using assms arp_okD[OF assms(1)] by (simp add: upd_build arp_bytes_def del: append_assoc)
qed

text \<open>The device can send Ethernet frames.\<close>

definition eth_dev :: "addr \<Rightarrow> ('h, 'w) dev_world_scheme \<Rightarrow> net_dev \<Rightarrow> bool" where
  "eth_dev d w x \<longleftrightarrow> d \<noteq> 0 \<and> devs w d = Some x \<and> mac_ok x \<and> nd_header_ops x = Some (Some Eth_header_create)"

definition opt_len :: "nat \<Rightarrow> bytes option \<Rightarrow> bool" where
  "opt_len n b \<longleftrightarrow> (\<forall>bs. b = Some bs \<longrightarrow> length bs = n)"

lemma opt_len_simps [simp]: "opt_len n None" "opt_len n (Some bs) \<longleftrightarrow> length bs = n"
  by (simp_all add: opt_len_def)

lemma arp_create_cases:
  assumes P: "swaps_ok P" and dev: "eth_dev d w x"
    and len: "opt_len 6 dest" "opt_len 6 sha" "opt_len 4 spa" "opt_len 6 tha" "length tpa = 4"
  obtains (fail) ms where "arp_create P d oper ptype dest sha spa tha tpa w = Ok (NULLP, w\<lparr>mallocs := ms\<rparr>)"
      "\<not> alloc_ok w"
  | (ok) a ms where "nbs w a = None" "a \<noteq> 0" "alloc_ok w"
      "arp_create P d oper ptype dest sha spa tha tpa w = Ok (NB a, w\<lparr>mallocs := ms, nbs := (nbs w)(a \<mapsto>
         arp_buff P d (dst_of dest x) (arp_out x (my_ip w) oper ptype sha spa tha tpa))\<rparr>)"
proof -
  obtain q w1 where q: "ndev_alloc_net_buff d 42 w = (q, w1)" by fastforce
  have x: "d \<noteq> 0" "devs w d = Some x" "length (nd_dev_addr x) = 6" "length (nd_broadcast x) = 6"
    "nd_header_ops x = Some (Some Eth_header_create)" using dev by (simp_all add: eth_dev_def mac_ok_def)
  note size = ETH_HDR_LEN_def ARP_HDR_SIZE_def
  from q show ?thesis
  proof (cases rule: ndev_alloc_net_buff_cases)
    case (fail ms)
    then show ?thesis using q by (intro that(1)[of ms]) (simp add: arp_create_def size)
  next
    case (ok a ms m)
    define dst where "dst = (case dest of None \<Rightarrow> nd_broadcast x | Some m \<Rightarrow> m)"
    define s where "s = (case sha of None \<Rightarrow> nd_dev_addr x | Some m \<Rightarrow> m)"
    define i where "i = (case spa of None \<Rightarrow> le32 (my_ip w) | Some m \<Rightarrow> m)"
    define t where "t = (case tha of None \<Rightarrow> replicate 6 0 | Some m \<Rightarrow> m)"
    have l: "length dst = 6" "length s = 6" "length i = 4" "length t = 6"
      using len x by (simp_all add: dst_def s_def i_def t_def opt_len_def split: option.split)
    have tm: "(case tha of None \<Rightarrow> Ok (replicate ETH_MAC_LEN 0) | Some m \<Rightarrow> mac_at m) = Ok t"
      using len(4) by (simp add: t_def opt_len_def ETH_MAC_LEN_def split: option.split)
    let ?b = "(nb_fresh m 42)\<lparr>nb_net_dev := d, nb_protocol := htons P ETH_P_ARP, nb_tail := 14\<rparr>"
    let ?w = "w\<lparr>mallocs := ms, nbs := (nbs w)(a \<mapsto> ?b)\<rparr>"
    have "sint (ETH_P_ARP :: uint16_t) \<le> 1500 \<longleftrightarrow> False" by (simp add: ETH_P_ARP_def)
    then have hdr: "eth_header_create P (NB a) d ETH_P_ARP (Some dst) (Some s) 0 ?w =
        Ok (0, ?w\<lparr>nbs := (nbs ?w)(a \<mapsto> ?b\<lparr>nb_pkt_len := 14, nb_mem := upd 0 (eth_bytes dst s ETH_P_ARP) m\<rparr>)\<rparr>)"
      using eth_header_create_Ok[OF P, of ?w a ?b d x dst "Some s" ETH_P_ARP 0] x l ok(5)
      by (simp add: src_of_def)
    have "arp_ok (arp_out x (my_ip w) oper ptype sha spa tha tpa)"
      using l len(5) by (simp add: arp_ok_def arp_out_def s_def i_def t_def)
    from arp_write[OF this, of m "eth_bytes dst s ETH_P_ARP"]
    have mem: "upd 38 tpa (upd 32 t (upd 28 i (upd 22 s (upd 20 (be16 oper) (upd 19 [4] (upd 18 [6]
        (upd 16 (be16 ptype) (upd 14 (be16 1) (upd 0 (eth_bytes dst s ETH_P_ARP) m)))))))))
      = eth_bytes dst s ETH_P_ARP @ arp_bytes (arp_out x (my_ip w) oper ptype sha spa tha tpa)"
      using ok(5) l by (simp add: arp_out_def s_def[symmetric] i_def[symmetric] t_def[symmetric] HWT_ETHER_def)
    have p: "ap_sha (arp_out x (my_ip w) oper ptype sha spa tha tpa) = s"
      "dst_of dest x = dst"
      by (simp_all add: arp_out_def s_def dst_of_def dst_def)
    have im: "(case spa of None \<Rightarrow> le32 (my_ip w') | Some m \<Rightarrow> m) = i" if "my_ip w' = my_ip w"
      for w' :: "('a, 'b) ip_world_scheme" unfolding i_def that ..
    show ?thesis
      using q ok l x len(5) tm hdr P
      by (intro that(2)[of a ms]) (simp_all add: arp_create_def size Let_def load_dev_def nb_upd_NB load_nb_NB
        dst_def[symmetric] s_def[symmetric] im netdev_hdr_create_def put_net_buff_fits store_nb_NB
        nb_wr_NB le16_htons ETH_MAC_LEN_def IP4_LEN_def bslice_all mem arp_buff_def p)
  qed
qed

section \<open>Receiving, as a whole\<close>

definition arp_sized :: "arp_pkt \<Rightarrow> bool" where
  "arp_sized p \<longleftrightarrow> ap_hlen p = 6 \<or> ap_plen p = 4"

lemma loopback_never [simp]: "unat (t :: 2 word) \<noteq> PKT_LOOPBACK"
  using unsigned_less[of t, where ?'a = nat] by (simp add: PKT_LOOPBACK_def)

lemma arp_recv_frame:
  assumes b: "nbs w a = Some b" "arp_frame b dst src type p"
  shows "arp_recv P fuel (NB a) w =
    (if unat (nb_pkt_type b) = PKT_OTHERHOST then Ok (NETDEV_RX_SUCCESS, freed a w)
     else if arp_sized p then arp_proc P fuel (NB a) w
     else Ok (NETDEV_RX_DROP, freed a w))"
proof -
  define n where "n = unat (nb_network_hdr_offset b)"
  have ok: "arp_ok p" and v: "view (unat (nb_mac_hdr_offset b)) n (n + 28) (nb_mem b) (eth_bytes dst src type) (arp_bytes p) []"
    using b(2) by (simp_all add: arp_frame_def n_def)
  show ?thesis
    by (simp add: arp_recv_def load_nb_NB[OF b(1)] get_arp_hdr_def n_def[symmetric] view_loads(2)[OF b(1) v] arp_fields ok ETH_MAC_LEN_def IP4_LEN_def
      free_net_buff_freed[OF b(1)] arp_sized_def Let_def)
qed

text \<open>An answer goes to the driver.\<close>

lemma arp_recv_answers:
  assumes P: "swaps_ok P" and drv: "tx_driver P sent m K d k q" "tx_ready d k w" "2 * Suc K \<le> fuel"
    and b: "nbs w a = Some b" "arp_frame b dst src type p" "nb_net_dev b = d" "nb_next b = NULLP"
    and dev: "eth_dev d w x"
    and p: "unat (nb_pkt_type b) \<noteq> PKT_OTHERHOST" "arp_sized p" "arp_decide (le32 (my_ip w)) p = Answer"
  shows "\<exists>w' c. arp_recv P fuel (NB a) w = Ok (NETDEV_RX_SUCCESS, w') \<and> sent (hw w') = sent (hw w) @ [c] \<and>
    arp_frame c src (nd_dev_addr x) type (arp_answer (nd_dev_addr x) (le32 (my_ip w)) p) \<and>
    (\<exists>m. c = b\<lparr>nb_pkt_len := nb_pkt_len b - 4, nb_mem := m\<rparr>)"
proof -
  have x: "load_dev w (nb_net_dev b) = Ok x" "length (nd_dev_addr x) = 6"
    using dev b(3) by (simp_all add: eth_dev_def mac_ok_def load_dev_def)
  obtain m where m: "arp_proc P fuel (NB a) w = bnd (arp_xmit P fuel (NB a)
          (w\<lparr>nbs := (nbs w)(a \<mapsto> b\<lparr>nb_pkt_len := nb_pkt_len b - 4, nb_mem := m\<rparr>)\<rparr>))
          (\<lambda>(_, w). Ok (NETDEV_RX_SUCCESS, w))"
      "arp_frame (b\<lparr>nb_pkt_len := nb_pkt_len b - 4, nb_mem := m\<rparr>) src (nd_dev_addr x) type
          (arp_answer (nd_dev_addr x) (le32 (my_ip w)) p)"
    using arp_proc_frame[OF P b(1,2) x, of fuel] p(3) by auto
  let ?b = "b\<lparr>nb_pkt_len := nb_pkt_len b - 4, nb_mem := m\<rparr>" and ?w = "w\<lparr>nbs := (nbs w)(a \<mapsto> b\<lparr>nb_pkt_len := nb_pkt_len b - 4, nb_mem := m\<rparr>)\<rparr>"
  have "tx_ready d k ?w" using drv(2) by (simp add: tx_ready_def)
  from netdev_list_xmit_one[OF drv(1) this _ _ _ drv(3), of a ?b] obtain r w' where
    "netdev_list_xmit P fuel (NB a) ?w = Ok (r, w')" "sent (hw w') = sent (hw w) @ [?b]"
    using b(3,4) by auto
  with m p(1,2) show ?thesis
    by (intro exI[of _ w'] exI[of _ ?b]) (auto simp: arp_recv_frame[OF b(1,2)] arp_xmit_def)
qed

text \<open>A buffer that arrives with the bytes of one that was sent.\<close>

definition arrives :: "net_buff \<Rightarrow> net_buff \<Rightarrow> addr \<Rightarrow> bool" where
  "arrives c b d \<longleftrightarrow> nb_mem b = nb_mem c \<and> nb_mac_hdr_offset b = nb_mac_hdr_offset c \<and>
     nb_network_hdr_offset b = nb_network_hdr_offset c \<and> nb_net_dev b = d \<and> nb_next b = NULLP \<and>
     unat (nb_pkt_type b) \<noteq> PKT_OTHERHOST"

lemma arrives_frame: "arrives c b d \<Longrightarrow> arp_frame b dst src type p = arp_frame c dst src type p"
  by (simp add: arrives_def arp_frame_def)

lemma arp_buff_frame:
  assumes "arp_ok p" "length dst = 6"
  shows "arp_frame (arp_buff P d dst p) dst (ap_sha p) ETH_P_ARP p"
  using assms by (simp add: arp_frame_def arp_buff_def view_def bslice_def)

lemma arp_out_ok:
  assumes "mac_ok x" "opt_len 6 sha" "opt_len 4 spa" "opt_len 6 tha" "length tpa = 4"
  shows "arp_ok (arp_out x my oper ptype sha spa tha tpa)"
  using assms by (simp add: arp_ok_def arp_out_def mac_ok_def opt_len_def split: option.split)

lemma le32_eq_iff [simp]: "le32 x = le32 y \<longleftrightarrow> x = y"
  by (metis un32_le32)

section \<open>Properties\<close>

text \<open>C30: whatever fresh memory contains, \<open>arp_create\<close> builds exactly the Ethernet frame and ARP packet
  that its arguments describe, with the defaults for null pointers (broadcast destination, the
  device's own address, this host's address, zero target), in a buffer of 42 bytes ready for
  transmission; it returns \<open>NULL\<close> and changes nothing on the heap exactly when \<open>malloc\<close> fails.\<close>

theorem arp_create_packet:
  assumes "swaps_ok P" "eth_dev d w x" "opt_len 6 dest" "opt_len 6 sha" "opt_len 4 spa" "opt_len 6 tha" "length tpa = 4"
  shows "\<exists>p w'. arp_create P d oper ptype dest sha spa tha tpa w = Ok (p, w') \<and>
    (if alloc_ok w
     then \<exists>a b. p = NB a \<and> nbs w a = None \<and> nbs w' = (nbs w)(a \<mapsto> b) \<and> nb_wf b \<and>
       nb_mem b = dst_of dest x @ ap_sha (arp_out x (my_ip w) oper ptype sha spa tha tpa) @ be16 ETH_P_ARP @
         arp_bytes (arp_out x (my_ip w) oper ptype sha spa tha tpa) \<and>
       nb_tail b = 42 \<and> nb_pkt_len b = 42 \<and> nb_net_dev b = d \<and> nb_protocol b = htons P ETH_P_ARP
     else p = NULLP \<and> nbs w' = nbs w)"
proof -
  have x: "length (nd_dev_addr x) = 6" "length (nd_broadcast x) = 6" using assms(2) by (simp_all add: eth_dev_def mac_ok_def)
  have "arp_ok (arp_out x (my_ip w) oper ptype sha spa tha tpa)" "length (dst_of dest x) = 6"
    using assms(3-7) x by (simp_all add: arp_ok_def arp_out_def dst_of_def opt_len_def split: option.split)
  with arp_create_cases[OF assms, of oper ptype] show ?thesis
    by (cases rule: arp_create_cases[OF assms, where oper = oper and ptype = ptype])
      (simp_all add: arp_buff_def nb_wf_def eth_bytes_def)
qed

text \<open>C8: \<open>arp_recv\<close> implements the decision the protocol prescribes for a packet in a buffer.  A packet
  for another host, without Ethernet or IPv4 address lengths, or that the decision ignores is freed
  and changes nothing else; a reply for this host is freed after its sender has become the entry of
  the table; a request for this host is answered: exactly one frame is handed to the driver, the
  received one turned round, with this host's addresses as sender and the asker as target.\<close>

theorem arp_recv_refines:
  assumes "swaps_ok P" "tx_driver P sent m K d k q" "tx_ready d k w" "2 * Suc K \<le> fuel"
    and "nbs w a = Some b" "arp_frame b dst src type p" "nb_net_dev b = d" "nb_next b = NULLP" "eth_dev d w x"
  shows "\<exists>r w'. arp_recv P fuel (NB a) w = Ok (r, w') \<and>
    (if unat (nb_pkt_type b) = PKT_OTHERHOST then r = NETDEV_RX_SUCCESS \<and> w' = freed a w
     else if \<not> arp_sized p then r = NETDEV_RX_DROP \<and> w' = freed a w
     else case arp_decide (le32 (my_ip w)) p of
       Ignore \<Rightarrow> r = NETDEV_RX_DROP \<and> w' = freed a w
     | Learn \<Rightarrow> r = NETDEV_RX_SUCCESS \<and> arp_tbl_get (ap_spa p) w' = Ok (Some (ap_sha p)) \<and>
         nbs w' = (nbs w)(a := None) \<and> hw w' = hw w
     | Answer \<Rightarrow> r = NETDEV_RX_SUCCESS \<and> (\<exists>c. sent (hw w') = sent (hw w) @ [c] \<and>
         arp_frame c src (nd_dev_addr x) type (arp_answer (nd_dev_addr x) (le32 (my_ip w)) p)))"
proof -
  have x: "load_dev w (nb_net_dev b) = Ok x" "length (nd_dev_addr x) = 6"
    using assms(7,9) by (simp_all add: eth_dev_def mac_ok_def load_dev_def)
  have ok: "length (ap_spa p) = 4" "length (ap_sha p) = 6" using assms(6) by (simp_all add: arp_frame_def)
  note proc = arp_proc_frame[OF assms(1,5,6) x, of fuel] and recv = arp_recv_frame[OF assms(5,6), of P fuel]
  show ?thesis
  proof (cases "unat (nb_pkt_type b) = PKT_OTHERHOST \<or> \<not> arp_sized p \<or> arp_decide (le32 (my_ip w)) p \<noteq> Answer")
    case True
    then show ?thesis using proc ok by (cases "arp_decide (le32 (my_ip w)) p")
      (auto simp: recv arp_tbl_get_def IP4_LEN_def bslice_all le32_un32 freed_def)
  next
    case False
    then show ?thesis using arp_recv_answers[OF assms(1-9)] by auto
  qed
qed

definition demo_ip_world :: "uint32_t \<Rightarrow> (addr \<Rightarrow> net_buff option) \<Rightarrow> demo_hw ip_world" where
  "demo_ip_world ip bs = \<lparr>nbs = bs, queues = Map.empty, mallocs = [21, 22], junk = \<lambda>_ _. 0, place = \<lambda>_. 0, devs = [1 \<mapsto> demo_dev],
     curr_net_dev = 1, irq_net_dev = 0, hw = \<lparr>demo_on = True, demo_busy = True, demo_log = []\<rparr>,
     recv_ops = \<lparr>eth_ip = None, eth_arp = None\<rparr>, ip_proto_ops = \<lparr>ipp_icmp = None, ipp_tcp = None, ipp_udp = None\<rparr>,
     my_ip = ip, net_mask = INADDR_NONE, gateway = INADDR_NONE, dns_serv = INADDR_NONE,
     arp_tbl = \<lparr>at_ip = 0, at_mac = replicate 6 0\<rparr>\<rparr>"

lemma demo_ip_world_sel [simp]:
  "nbs (demo_ip_world ip bs) = bs" "devs (demo_ip_world ip bs) = [1 \<mapsto> demo_dev]" "my_ip (demo_ip_world ip bs) = ip"
  "hw (demo_ip_world ip bs) = \<lparr>demo_on = True, demo_busy = True, demo_log = []\<rparr>" "mallocs (demo_ip_world ip bs) = [21, 22]"
  "curr_net_dev (demo_ip_world ip bs) = 1"
  by (simp_all add: demo_ip_world_def)

lemma demo_ip_world_ok [simp]:
  "eth_dev (Suc 0) (demo_ip_world ip bs) demo_dev" "tx_ready (Suc 0) (Suc 0) (demo_ip_world ip bs)"
  "bs 21 = None \<Longrightarrow> alloc_ok (demo_ip_world ip bs)"
  by (simp_all add: eth_dev_def tx_ready_def alloc_ok_def)

theorem arp_create_packet_witness:
  "\<exists>p w'. arp_create (demo_platform 1) 1 ARP_OP_REQ ETH_P_IP None None None None [10, 0, 0, 2]
     (demo_ip_world 0x0100000A Map.empty) = Ok (p, w') \<and> p \<noteq> NULLP"
  using arp_create_packet[of "demo_platform 1" 1 "demo_ip_world 0x0100000A Map.empty" demo_dev None None None None
    "[10, 0, 0, 2]" ARP_OP_REQ ETH_P_IP] by auto

definition demo_reply :: arp_pkt where
  "demo_reply = \<lparr>ap_htype = HWT_ETHER, ap_ptype = ETH_P_IP, ap_hlen = 6, ap_plen = 4, ap_oper = ARP_OP_REPLY,
     ap_sha = [2, 0, 0, 0, 0, 9], ap_spa = [10, 0, 0, 1], ap_tha = [2, 0, 0, 0, 0, 1], ap_tpa = [10, 0, 0, 2]\<rparr>"

lemma le32_demo: "le32 (0x0200000A) = [10, 0, 0, 2]" "le32 (0x0100000A) = [10, 0, 0, 1]"
  by code_simp+

theorem arp_recv_refines_witness:
  "\<exists>w'. arp_recv (demo_platform 1) 8 (NB 5) (demo_ip_world 0x0200000A
      [5 \<mapsto> arp_buff avr_swaps 1 [2, 0, 0, 0, 0, 1] demo_reply]) = Ok (NETDEV_RX_SUCCESS, w') \<and>
    arp_tbl_get [10, 0, 0, 1] w' = Ok (Some [2, 0, 0, 0, 0, 9])"
proof -
  let ?b = "arp_buff avr_swaps 1 [2, 0, 0, 0, 0, 1] demo_reply"
  let ?w = "demo_ip_world 0x0200000A [5 \<mapsto> arp_buff avr_swaps 1 [2, 0, 0, 0, 0, 1] demo_reply]"
  have ok: "arp_ok demo_reply" by (simp add: arp_ok_def demo_reply_def)
  have b: "nb_net_dev ?b = 1" "nb_next ?b = NULLP" "unat (nb_pkt_type ?b) \<noteq> PKT_OTHERHOST" "arp_sized demo_reply"
    by (simp_all add: arp_buff_def PKT_OTHERHOST_def arp_sized_def demo_reply_def)
  have "arp_decide [10, 0, 0, 2] demo_reply = Learn"
    by (simp add: arp_decide_def arp_for_def demo_reply_def addr_class_def)
  then have dec: "arp_decide (le32 (my_ip ?w)) demo_reply = Learn" by (simp add: le32_demo)
  have nb: "nbs ?w 5 = Some ?b" by simp
  show ?thesis
    using arp_recv_refines[OF demo_swaps_ok demo_tx_driver[of 1 1 "QVAR 0"] _ _ nb arp_buff_frame[OF ok] b(1,2)
        demo_ip_world_ok(1)[unfolded One_nat_def[symmetric]], of 8] b(3,4) dec
    by (auto simp: demo_reply_def)
qed

text \<open>C9: address resolution works end to end: when host A asks for the address of host B and the frame
  arrives at B, B transmits one frame, and when that arrives at A, A's table answers B's IP address
  with B's hardware address.\<close>

theorem arp_resolves:
  assumes "swaps_ok PA" "eth_dev dA wA xA"
    "arp_create PA dA ARP_OP_REQ ETH_P_IP None None None None (le32 (my_ip wB)) wA = Ok (NB a, vA)" "nbs vA a = Some qa"
    and "swaps_ok PB" "tx_driver PB sent m K dB k q" "tx_ready dB k wB" "2 * Suc K \<le> fuel"
    and "nbs wB b = Some qb" "arrives qa qb dB" "eth_dev dB wB xB"
    and "my_ip wA \<noteq> my_ip wB" "addr_class (le32 (my_ip wA) ! 0) \<noteq> 3" "addr_class (le32 (my_ip wB) ! 0) \<noteq> 3"
  shows "\<exists>vB c. arp_recv PB fuel (NB b) wB = Ok (NETDEV_RX_SUCCESS, vB) \<and> sent (hw vB) = sent (hw wB) @ [c] \<and>
    (\<forall>wA' e qe f. my_ip wA' = my_ip wA \<longrightarrow> eth_dev dA wA' xA \<longrightarrow> nbs wA' e = Some qe \<longrightarrow> arrives c qe dA \<longrightarrow>
       (\<exists>vA'. arp_recv PA f (NB e) wA' = Ok (NETDEV_RX_SUCCESS, vA') \<and>
          arp_tbl_get (le32 (my_ip wB)) vA' = Ok (Some (nd_dev_addr xB))))"
proof -
  define p where "p = arp_out xA (my_ip wA) ARP_OP_REQ ETH_P_IP None None None (le32 (my_ip wB))"
  have macs: "mac_ok xA" "length (nd_dev_addr xB) = 6" using assms(2,11) by (simp_all add: eth_dev_def mac_ok_def)
  have ok: "arp_ok p" unfolding p_def by (rule arp_out_ok[OF macs(1)]) simp_all
  have qa: "qa = arp_buff PA dA (dst_of None xA) p"
    using assms(3,4)
    by (cases rule: arp_create_cases[OF assms(1,2), where oper = ARP_OP_REQ and ptype = ETH_P_IP and dest = None
          and sha = None and spa = None and tha = None and tpa = "le32 (my_ip wB)"]) (auto simp: p_def)
  have dst: "length (dst_of None xA) = 6" using macs(1) by (simp add: dst_of_def mac_ok_def)
  have fb: "arp_frame qb (dst_of None xA) (ap_sha p) ETH_P_ARP p"
    unfolding arrives_frame[OF assms(10)] qa by (rule arp_buff_frame[OF ok dst])
  have pf: "ap_tpa p = le32 (my_ip wB)" "ap_spa p = le32 (my_ip wA)" "ap_htype p = HWT_ETHER" "ap_ptype p = ETH_P_IP"
    "ap_oper p = ARP_OP_REQ" "arp_sized p" by (simp_all add: p_def arp_out_def arp_sized_def)
  then have "arp_decide (le32 (my_ip wB)) p = Answer" using assms(12-14) by (simp add: arp_decide_def arp_for_def)
  from arp_recv_answers[OF assms(5-9) fb _ _ assms(11) _ pf(6) this] assms(10) obtain vB c where
    B: "arp_recv PB fuel (NB b) wB = Ok (NETDEV_RX_SUCCESS, vB)" "sent (hw vB) = sent (hw wB) @ [c]"
    and fc: "arp_frame c (ap_sha p) (nd_dev_addr xB) ETH_P_ARP (arp_answer (nd_dev_addr xB) (le32 (my_ip wB)) p)"
    by (auto simp: arrives_def)
  let ?p = "arp_answer (nd_dev_addr xB) (le32 (my_ip wB)) p"
  have pf': "ap_tpa ?p = le32 (my_ip wA)" "ap_spa ?p = le32 (my_ip wB)" "ap_htype ?p = HWT_ETHER" "ap_ptype ?p = ETH_P_IP"
    "ap_oper ?p = ARP_OP_REPLY" "arp_sized ?p" "ap_sha ?p = nd_dev_addr xB"
    using pf by (simp_all add: arp_answer_def arp_sized_def)
  then have dec: "arp_decide (le32 (my_ip wA)) ?p = Learn" using assms(12-14) by (simp add: arp_decide_def arp_for_def)
  have "\<exists>vA'. arp_recv PA f (NB e) wA' = Ok (NETDEV_RX_SUCCESS, vA') \<and>
      arp_tbl_get (le32 (my_ip wB)) vA' = Ok (Some (nd_dev_addr xB))"
    if A: "my_ip wA' = my_ip wA" "eth_dev dA wA' xA" "nbs wA' e = Some qe" "arrives c qe dA" for wA' e qe f
  proof -
    have fe: "arp_frame qe (ap_sha p) (nd_dev_addr xB) ETH_P_ARP ?p" unfolding arrives_frame[OF A(4)] by (rule fc)
    have x: "load_dev wA' (nb_net_dev qe) = Ok xA" "length (nd_dev_addr xA) = 6" "unat (nb_pkt_type qe) \<noteq> PKT_OTHERHOST"
      using A(2,4) by (simp_all add: eth_dev_def mac_ok_def load_dev_def arrives_def)
    show ?thesis
      using arp_proc_frame[OF assms(1) A(3) fe x(1,2), of f] dec A(1) x(3) pf'
      by (simp add: arp_recv_frame[OF A(3) fe] arp_tbl_get_def IP4_LEN_def bslice_all)
         (simp add: freed_def)
  qed
  with B show ?thesis by blast
qed

theorem arp_resolves_witness:
  "\<exists>a v qa vB c. arp_create (demo_platform 1) 1 ARP_OP_REQ ETH_P_IP None None None None [10, 0, 0, 2]
      (demo_ip_world 0x0100000A Map.empty) = Ok (NB a, v) \<and> nbs v a = Some qa \<and>
    arp_recv (demo_platform 1) 8 (NB 5) (demo_ip_world 0x0200000A [5 \<mapsto> qa]) = Ok (NETDEV_RX_SUCCESS, vB) \<and>
    demo_log (hw vB) = [c]"
proof -
  let ?P = "demo_platform 1 :: (demo_hw, unit) ip_world_scheme platform"
  let ?wA = "demo_ip_world 0x0100000A Map.empty"
  have ip: "my_ip ?wA = 0x0100000A" by simp
  have dev: "eth_dev 1 ?wA demo_dev" "alloc_ok ?wA" by simp_all
  obtain a ms where A: "arp_create ?P 1 ARP_OP_REQ ETH_P_IP None None None None [10, 0, 0, 2] ?wA = Ok (NB a, ?wA\<lparr>mallocs := ms,
      nbs := (nbs ?wA)(a \<mapsto> arp_buff ?P 1 (dst_of None demo_dev) (arp_out demo_dev 0x0100000A ARP_OP_REQ ETH_P_IP None None None [10, 0, 0, 2]))\<rparr>)"
    using dev(2) by (cases rule: arp_create_cases[OF demo_swaps_ok dev(1), where oper = ARP_OP_REQ and ptype = ETH_P_IP
        and dest = None and sha = None and spa = None and tha = None and tpa = "[10, 0, 0, 2]"]) (auto simp: ip)
  let ?qa = "arp_buff ?P 1 (dst_of None demo_dev) (arp_out demo_dev 0x0100000A ARP_OP_REQ ETH_P_IP None None None [10, 0, 0, 2])"
  let ?wB = "demo_ip_world 0x0200000A [5 \<mapsto> ?qa]"
  have arr: "arrives ?qa ?qa 1" by (simp add: arrives_def arp_buff_def PKT_OTHERHOST_def)
  have wB: "my_ip ?wB = 0x0200000A" "nbs ?wB 5 = Some ?qa" "tx_ready 1 1 ?wB" "eth_dev 1 ?wB demo_dev" by simp_all
  have cls: "my_ip ?wA \<noteq> my_ip ?wB" "addr_class (le32 (my_ip ?wA) ! 0) \<noteq> 3" "addr_class (le32 (my_ip ?wB) ! 0) \<noteq> 3"
    by (simp_all add: le32_demo addr_class_def)
  have A': "arp_create ?P 1 ARP_OP_REQ ETH_P_IP None None None None (le32 (my_ip ?wB)) ?wA = Ok (NB a, ?wA\<lparr>mallocs := ms,
      nbs := (nbs ?wA)(a \<mapsto> ?qa)\<rparr>)" using A by (simp add: le32_demo)
  have qa: "nbs (?wA\<lparr>mallocs := ms, nbs := (nbs ?wA)(a \<mapsto> ?qa)\<rparr>) a = Some ?qa" by simp
  from arp_resolves[OF demo_swaps_ok dev(1) A' qa demo_swaps_ok demo_tx_driver[of 1 1 "QVAR 0"] wB(3) _ wB(2) arr wB(4) cls, of 8]
  obtain vB c where "arp_recv ?P 8 (NB 5) ?wB = Ok (NETDEV_RX_SUCCESS, vB)" "demo_log (hw vB) = [c]" by auto
  with A qa show ?thesis by blast
qed

end
