(* ===== verification/Checksum.thy ===== *)
theory Checksum
  imports Net_Prelude
begin

text \<open>
  The Internet checksum of \<open>net/checksum.c\<close>: the summing loop over 16-bit words read through a
  little-endian pointer, the odd last byte, the folding loop and the final complement.  The lemmas
  show that the 32-bit accumulator never overflows, that the loop ends, and that the value is the one
  of RFC 1071; the locale states the contract the IP and ICMP code relies on.
\<close>

section \<open>The code\<close>

function in_sum :: "bytes \<Rightarrow> nat \<Rightarrow> uint16_t \<Rightarrow> uint32_t \<Rightarrow> uint32_t res" where
  "in_sum m ptr count acc =
     (if 1 < count then bnd (rd ptr 2 m) (\<lambda>w. in_sum m (ptr + 2) (count - 2) (acc + ucast (un16 w)))
      else if 0 < count then bnd (rd ptr 1 m) (\<lambda>b. Ok (acc + ucast (b ! 0)))
      else Ok acc)"
  by pat_completeness auto
termination
proof (relation "measure (\<lambda>(m, ptr, count, acc). unat count)", goal_cases)
  case (2 m ptr count acc x)
  then have "2 \<le> count" by (simp add: word_le_nat_alt word_less_nat_alt)
  then show ?case by (simp add: unat_sub word_le_nat_alt)
qed simp

declare in_sum.simps [simp del]

lemma unat_low16: "unat (s AND 0xffff) = unat s mod 65536" for s :: uint32_t
proof -
  have "s AND 0xffff = take_bit 16 s" by (simp add: take_bit_eq_mask mask_eq_exp_minus_1)
  then show ?thesis by (simp add: unsigned_take_bit_eq) (simp add: take_bit_eq_mod)
qed

lemma unat_high16: "unat (drop_bit 16 s) = unat s div 65536" for s :: uint32_t
  using drop_bit_eq_div[of 16 "unat s"] by (simp add: unat_drop_bit_eq)

lemma fold_step_nat:
  "unat ((s AND 0xffff) + drop_bit 16 s) = unat s mod 65536 + unat s div 65536" for s :: uint32_t
proof -
  have "unat s div 65536 < 65536" by (simp add: less_mult_imp_div_less)
  then show ?thesis by (simp add: unat_word_ariths unat_low16 unat_high16)
qed

lemma drop16_zero_iff: "drop_bit 16 s = 0 \<longleftrightarrow> unat s < 65536" for s :: uint32_t
proof -
  have "drop_bit 16 s = 0 \<longleftrightarrow> unat s div 65536 = 0"
    unfolding unat_high16[symmetric] by (simp add: unat_eq_0)
  then show ?thesis by (simp add: div_eq_0_iff)
qed

lemma fold_step_less: "65536 \<le> n \<Longrightarrow> n mod 65536 + n div 65536 < n" for n :: nat
proof -
  assume "65536 \<le> n"
  then have "1 \<le> n div 65536" using div_le_mono[of 65536 n 65536] by simp
  then show ?thesis using div_mult_mod_eq[of n 65536] by linarith
qed

function fold_sum :: "uint32_t \<Rightarrow> uint32_t" where
  "fold_sum acc = (if drop_bit 16 acc \<noteq> 0 then fold_sum ((acc AND 0xffff) + drop_bit 16 acc) else acc)"
  by pat_completeness auto
termination
proof (relation "measure unat", goal_cases)
  case (2 s)
  then show ?case by (simp add: drop16_zero_iff fold_step_nat fold_step_less)
qed simp

declare fold_sum.simps [simp del]

definition in_checksum :: "bytes \<Rightarrow> nat \<Rightarrow> uint16_t \<Rightarrow> uint16_t res" where
  "in_checksum m buf count =
     (if count \<le> 0 then Ok (ucast (NOT (0 :: uint32_t)))
      else bnd (in_sum m buf count 0) (\<lambda>acc. Ok (ucast (NOT (fold_sum acc)))))"

section \<open>The sum as a number\<close>

text \<open>The little-endian words of a block, an odd last byte counted as it is.\<close>

fun words_sum :: "bytes \<Rightarrow> nat" where
  "words_sum [] = 0"
| "words_sum [b] = unat b"
| "words_sum (a # b # bs) = unat (mk16 a b) + words_sum bs"

text \<open>The representative of a sum modulo \<open>65535\<close> that folding the carries arrives at.\<close>

definition oc :: "nat \<Rightarrow> nat" where
  "oc n = (if n = 0 then 0 else Suc ((n - 1) mod 65535))"

definition chk :: "bytes \<Rightarrow> uint16_t" where
  "chk bs = of_nat (65535 - oc (words_sum bs))"

lemma oc_le: "oc n \<le> 65535"
  using mod_less_divisor[of 65535 "n - 1"] by (auto simp: oc_def)

lemma oc_0_iff [simp]: "oc n = 0 \<longleftrightarrow> n = 0"
  by (simp add: oc_def)

lemma oc_pos [simp]: "0 < oc n \<longleftrightarrow> 0 < n"
  by (simp add: oc_def)

lemma oc_mod: "oc n mod 65535 = n mod 65535"
  by (cases n) (simp_all add: oc_def mod_Suc_eq)

lemma oc_unique: "0 < x \<Longrightarrow> x \<le> 65535 \<Longrightarrow> 0 < n \<Longrightarrow> x mod 65535 = n mod 65535 \<Longrightarrow> oc n = x"
proof -
  assume a: "0 < x" "x \<le> 65535" "0 < n" "x mod 65535 = n mod 65535"
  then have "oc n mod 65535 = x mod 65535" by (simp add: oc_mod)
  moreover have "0 < oc n" "oc n \<le> 65535" using a oc_le[of n] by auto
  ultimately show "oc n = x"
    using a(1,2) by (cases "x = 65535"; cases "oc n = 65535") auto
qed

lemma oc_small: "n \<le> 65535 \<Longrightarrow> oc n = n"
  by (cases "n = 0") (auto intro: oc_unique)

lemma oc_fold: "oc (n mod 65536 + n div 65536) = oc n"
proof (cases "n = 0")
  case False
  have "n = 65535 * (n div 65536) + (n mod 65536 + n div 65536)"
    using div_mult_mod_eq[of n 65536] by linarith
  then have eq: "n mod 65535 = (n mod 65536 + n div 65536) mod 65535"
    by (metis mod_mult_self4)
  have pos: "0 < n mod 65536 + n div 65536"
    using False div_mult_mod_eq[of n 65536] by (metis add_gr_0 gr0I mult_0 add.right_neutral)
  show ?thesis
    by (rule oc_unique) (use False oc_le[of n] eq pos in \<open>simp_all add: oc_mod\<close>)
qed simp

lemma unat_fold_sum: "unat (fold_sum s) = oc (unat s)"
proof (induction s rule: fold_sum.induct)
  case (1 s)
  show ?case
  proof (cases "drop_bit 16 s = 0")
    case True
    then show ?thesis by (simp add: fold_sum.simps[of s] oc_small drop16_zero_iff)
  next
    case False
    then show ?thesis using 1 by (simp add: fold_sum.simps[of s] fold_step_nat oc_fold)
  qed
qed

lemma words_sum_bound: "words_sum bs \<le> 65535 * ((length bs + 1) div 2)"
proof (induction bs rule: words_sum.induct)
  case (2 b)
  then show ?case by (simp add: order_trans[OF unat8_le])
next
  case (3 a b bs)
  then show ?case using unat16_le[of "mk16 a b"] by (simp del: unat16_le)
qed simp

lemma bslice_step2: "ptr + Suc (Suc n) \<le> length m \<Longrightarrow>
   bslice ptr (Suc (Suc n)) m = m ! ptr # m ! Suc ptr # bslice (ptr + 2) n m"
  by (simp add: bslice_def Cons_nth_drop_Suc[symmetric])

lemma in_sum_Ok:
  assumes "ptr + unat count \<le> length m"
    and "unat acc + words_sum (bslice ptr (unat count) m) < 2 ^ 32"
  shows "in_sum m ptr count acc = Ok (acc + of_nat (words_sum (bslice ptr (unat count) m)))"
  using assms
proof (induction m ptr count acc rule: in_sum.induct)
  case (1 m ptr count acc)
  consider (many) "1 < count" | (one) "unat count = 1" | (none) "unat count = 0"
    by (cases "unat count = 0"; cases "unat count = 1") (auto simp: word_less_nat_alt)
  then show ?case
  proof cases
    case many
    then have two: "2 \<le> count" by (simp add: word_le_nat_alt word_less_nat_alt)
    define n where "n = unat (count - 2)"
    have n': "unat (count - 2) = n" by (simp add: n_def)
    have n: "unat count = Suc (Suc n)"
      using two unat_sub[OF two] by (simp add: n_def word_le_nat_alt)
    let ?w = "mk16 (m ! ptr) (m ! Suc ptr)"
    have sl: "bslice ptr 2 m = [m ! ptr, m ! Suc ptr]"
      using bslice_step2[of ptr 0 m] "1.prems"(1) n by (simp add: numeral_2_eq_2 bslice_def)
    have ws: "words_sum (bslice ptr (unat count) m) = unat ?w + words_sum (bslice (ptr + 2) n m)"
      using "1.prems"(1) n by (simp add: bslice_step2)
    have un: "unat (acc + ucast ?w) = unat acc + unat ?w"
      using "1.prems"(2) ws by (simp add: unat_word_ariths)
    have "in_sum m (ptr + 2) (count - 2) (acc + ucast ?w) =
        Ok (acc + ucast ?w + of_nat (words_sum (bslice (ptr + 2) n m)))"
      using "1.IH"(1)[OF many, of "bslice ptr 2 m"] "1.prems" n n' ws un
      by (simp add: sl un16_def)
    then show ?thesis
      using many "1.prems"(1) n ws sl
      by (simp add: in_sum.simps[of m ptr] un16_def unsigned_ucast_eq)
  next
    case one
    then have "count = 1" by (simp add: word_unat_eq_iff)
    moreover have "bslice ptr 1 m = [m ! ptr]"
      using "1.prems"(1) one by (simp add: bslice_def Cons_nth_drop_Suc[symmetric])
    ultimately show ?thesis
      using "1.prems"(1) by (simp add: in_sum.simps[of m ptr])
  next
    case none
    then show ?thesis by (simp add: in_sum.simps[of m ptr] unat_eq_0 bslice_def)
  qed
qed

lemma unat_not_ucast:
  "unat s \<le> 65535 \<Longrightarrow> (ucast (NOT s) :: uint16_t) = of_nat (65535 - unat s)" for s :: uint32_t
proof -
  assume s: "unat s \<le> 65535"
  have "of_nat (65535 - unat s) = (65535 :: uint16_t) - of_nat (unat s)"
    using s by (simp add: of_nat_diff)
  also have "\<dots> = - 1 - ucast s"
    by simp
  also have "\<dots> = NOT (ucast s)"
    by (simp add: not_eq_complement)
  also have "\<dots> = ucast (NOT s)"
    by (rule bit_word_eqI) (auto simp: bit_simps)
  finally show ?thesis by simp
qed

lemma in_checksum_eq_chk:
  assumes "buf + unat count \<le> length m"
  shows "in_checksum m buf count = Ok (chk (bslice buf (unat count) m))"
proof -
  let ?bs = "bslice buf (unat count) m"
  have "words_sum ?bs \<le> 65535 * ((unat count + 1) div 2)"
    using words_sum_bound[of ?bs] assms by simp
  also have "\<dots> \<le> 65535 * 32768" using unat16_le[of count] by (simp del: unat16_le)
  finally have ws: "words_sum ?bs < 2 ^ 32" by simp
  then have "unat (of_nat (words_sum ?bs) :: uint32_t) = words_sum ?bs"
    by (simp add: unsigned_of_nat take_bit_eq_mod)
  then have "ucast (NOT (fold_sum (of_nat (words_sum ?bs)))) = chk ?bs"
    by (simp add: chk_def unat_not_ucast unat_fold_sum oc_le)
  moreover have "in_sum m buf count 0 = Ok (of_nat (words_sum ?bs))"
    using in_sum_Ok[of buf count m 0] assms ws by simp
  moreover have "count = 0 \<Longrightarrow> chk ?bs = ucast (NOT (0 :: uint32_t))"
    using unat_not_ucast[of 0] by (simp add: bslice_def chk_def oc_def)
  ultimately show ?thesis
    by (cases "count = 0") (simp_all add: in_checksum_def)
qed

lemma in_sum_Fault:
  "length m < ptr + unat count \<Longrightarrow> 0 < count \<Longrightarrow> in_sum m ptr count acc = Fault Out_of_bounds"
proof (induction m ptr count acc rule: in_sum.induct)
  case (1 m ptr count acc)
  consider (many) "1 < count" | (one) "unat count = 1" | (none) "unat count = 0"
    by (cases "unat count = 0"; cases "unat count = 1") (auto simp: word_less_nat_alt)
  then show ?case
  proof cases
    case many
    then have two: "2 \<le> count" by (simp add: word_le_nat_alt word_less_nat_alt)
    show ?thesis
    proof (cases "ptr + 2 \<le> length m")
      case True
      have "length m < ptr + 2 + unat (count - 2)"
        using "1.prems" two unat_sub[OF two] by (simp add: word_le_nat_alt)
      moreover from this True have "0 < count - 2"
        by (simp add: word_less_nat_alt)
      ultimately show ?thesis
        using True many "1.IH"(1)[of "bslice ptr 2 m"]
        by (simp add: in_sum.simps[of m ptr])
    qed (use many in \<open>simp add: in_sum.simps[of m ptr] rd_def\<close>)
  next
    case one
    then have "count = 1" by (simp add: word_unat_eq_iff)
    with "1.prems" show ?thesis by (simp add: in_sum.simps[of m ptr] rd_def)
  next
    case none
    with "1.prems" show ?thesis by (simp add: word_less_nat_alt)
  qed
qed

lemma in_checksum_fault:
  assumes "0 < count" "length m < buf + unat count"
  shows "in_checksum m buf count = Fault Out_of_bounds"
  using in_sum_Fault[OF assms(2,1), of 0] assms(1) by (auto simp: in_checksum_def)

section \<open>RFC 1071\<close>

text \<open>
  The specification, independent of the code: one's-complement addition with end-around carry over
  the big-endian words of the data, an odd last byte padded with a zero byte on its right, and the
  complement of the sum.
\<close>

definition oc_add :: "nat \<Rightarrow> nat \<Rightarrow> nat" where
  "oc_add a b = (if a + b < 65536 then a + b else a + b - 65535)"

fun be_words :: "bytes \<Rightarrow> nat list" where
  "be_words [] = []"
| "be_words [b] = [256 * unat b]"
| "be_words (a # b # bs) = (256 * unat a + unat b) # be_words bs"

definition rfc1071 :: "bytes \<Rightarrow> nat" where
  "rfc1071 bs = 65535 - foldl oc_add 0 (be_words bs)"

lemma oc_add_oc: "b \<le> 65535 \<Longrightarrow> oc_add (oc n) b = oc (n + b)"
proof -
  assume b: "b \<le> 65535"
  show ?thesis
  proof (cases "n + b = 0")
    case False
    have "oc_add (oc n) b mod 65535 = (oc n + b) mod 65535"
      using le_mod_geq[of 65535 "oc n + b"] by (auto simp: oc_add_def)
    also have "\<dots> = (n + b) mod 65535"
      by (metis mod_add_left_eq oc_mod)
    finally have "oc_add (oc n) b mod 65535 = (n + b) mod 65535" .
    then show ?thesis
      using b False oc_le[of n] by (intro oc_unique[symmetric]) (auto simp: oc_add_def)
  qed (simp add: oc_add_def oc_def)
qed

lemma be_words_le: "w \<in> set (be_words bs) \<Longrightarrow> w \<le> 65535"
proof (induction bs rule: be_words.induct)
  case (2 b)
  then show ?case using unat8_le[of b] by (simp del: unat8_le)
next
  case (3 a b bs)
  then show ?case using unat8_le[of a] unat8_le[of b] by (auto simp del: unat8_le)
qed simp

lemma foldl_oc_add:
  "(\<forall>w \<in> set ws. w \<le> 65535) \<Longrightarrow> foldl oc_add (oc n) ws = oc (n + sum_list ws)"
  by (induction ws arbitrary: n) (simp_all add: oc_add_oc add.assoc)

lemma rfc1071_eq: "rfc1071 bs = 65535 - oc (sum_list (be_words bs))"
  using foldl_oc_add[of "be_words bs" 0] be_words_le[of _ bs] by (simp add: rfc1071_def oc_def)

lemma be_words_cong: "(256 * words_sum bs) mod 65535 = sum_list (be_words bs) mod 65535"
proof (induction bs rule: words_sum.induct)
  case (3 a b bs)
  have "256 * words_sum (a # b # bs) = (256 * unat a + unat b) + 256 * words_sum bs + 65535 * unat b"
    by (simp add: unat_mk16 algebra_simps)
  then have "(256 * words_sum (a # b # bs)) mod 65535
      = ((256 * unat a + unat b) + 256 * words_sum bs) mod 65535"
    by (metis mod_mult_self2)
  also have "\<dots> = (256 * unat a + unat b + sum_list (be_words bs)) mod 65535"
    using 3 by (metis mod_add_right_eq)
  finally show ?case by simp
qed simp_all

lemma words_sum_0_iff: "words_sum bs = 0 \<longleftrightarrow> sum_list (be_words bs) = 0"
  by (induction bs rule: words_sum.induct) (auto simp: unat_mk16)

lemma unat_chk: "unat (chk bs) = 65535 - oc (words_sum bs)"
  by (simp add: chk_def unsigned_of_nat take_bit_eq_mod)

lemma chk_0_iff: "chk bs = 0 \<longleftrightarrow> words_sum bs \<noteq> 0 \<and> words_sum bs mod 65535 = 0"
proof -
  have "chk bs = 0 \<longleftrightarrow> oc (words_sum bs) = 65535"
    using oc_le[of "words_sum bs"] by (auto simp: unat_eq_0[symmetric] unat_chk)
  also have "\<dots> \<longleftrightarrow> words_sum bs \<noteq> 0 \<and> words_sum bs mod 65535 = 0"
  proof
    assume "oc (words_sum bs) = 65535"
    then show "words_sum bs \<noteq> 0 \<and> words_sum bs mod 65535 = 0"
      using oc_mod[of "words_sum bs"] by (cases "words_sum bs = 0") (simp_all add: oc_def)
  qed (auto intro!: oc_unique)
  finally show ?thesis .
qed

lemma chk_wire: "256 * unat (byte_of 0 (chk bs)) + unat (byte_of 1 (chk bs)) = rfc1071 bs"
proof -
  define c0 c1 where "c0 = unat (byte_of 0 (chk bs))" and "c1 = unat (byte_of 1 (chk bs))"
  have c: "unat (chk bs) = c0 + 256 * c1"
    using unat_mk16[of "byte_of 0 (chk bs)" "byte_of 1 (chk bs)"] by (simp add: c0_def c1_def)
  have le: "c0 \<le> 255" "c1 \<le> 255" by (simp_all add: c0_def c1_def)
  have x: "oc (words_sum bs) = 65535 - (c0 + 256 * c1)"
    using c oc_le[of "words_sum bs"] by (simp add: unat_chk)
  have "oc (sum_list (be_words bs)) = 65535 - (256 * c0 + c1)"
  proof (cases "words_sum bs = 0")
    case True
    then have "c0 + 256 * c1 = 65535" using c by (simp add: unat_chk oc_def)
    then have "c0 = 255 \<and> c1 = 255" using le by linarith
    then show ?thesis using True by (simp add: words_sum_0_iff oc_def)
  next
    case False
    then have pos: "0 < 65535 - (c0 + 256 * c1)" unfolding x[symmetric] by simp
    have "256 * (65535 - (c0 + 256 * c1)) = (65535 - (256 * c0 + c1)) + 65535 * (255 - c1)"
      using le pos by (simp add: algebra_simps)
    then have "(65535 - (256 * c0 + c1)) mod 65535 = (256 * oc (words_sum bs)) mod 65535"
      unfolding x by (metis mod_mult_self2)
    also have "\<dots> = (256 * words_sum bs) mod 65535"
      by (metis mod_mult_right_eq oc_mod)
    also have "\<dots> = sum_list (be_words bs) mod 65535"
      by (rule be_words_cong)
    finally have cong: "(65535 - (256 * c0 + c1)) mod 65535 = sum_list (be_words bs) mod 65535" .
    show ?thesis
    proof (rule oc_unique)
      show "0 < sum_list (be_words bs)" using False by (simp only: words_sum_0_iff neq0_conv)
      show "0 < 65535 - (256 * c0 + c1)" using pos le by linarith
    qed (use cong in simp_all)
  qed
  then show ?thesis using le by (simp add: rfc1071_eq flip: c0_def c1_def[simplified])
qed

section \<open>The contract the headers rely on\<close>

lemma words_sum_upd:
  "even k \<Longrightarrow> k + 2 \<le> length bs \<Longrightarrow> length w = 2 \<Longrightarrow>
     words_sum (upd k w bs) + unat (un16 (bslice k 2 bs)) = words_sum bs + unat (un16 w)"
proof (induction bs arbitrary: k rule: words_sum.induct)
  case (3 a b bs)
  show ?case
  proof (cases k)
    case 0
    from "3.prems"(3) obtain x y where "w = [x, y]" using le_exhaust2 by blast
    with 0 show ?thesis by (simp add: upd_def bslice_def un16_def numeral_2_eq_2)
  next
    case (Suc k')
    with "3.prems"(1) obtain j where k: "k = Suc (Suc j)" and "even j" by (cases k') auto
    with 3 have "words_sum (upd j w bs) + unat (un16 (bslice j 2 bs)) = words_sum bs + unat (un16 w)"
      by simp
    then show ?thesis using k by (simp add: upd_def bslice_def)
  qed
qed simp_all

text \<open>
  What the code that writes and verifies headers needs of a checksum: storing the checksum of a block
  whose checksum field is zero in that field makes the whole block verify (\<open>ck\<close> gives 0).  The
  second locale adds error detection.
\<close>

locale self_checking =
  fixes ck :: "bytes \<Rightarrow> uint16_t"
  assumes ck_insert: "even k \<Longrightarrow> k + 2 \<le> length bs \<Longrightarrow> bslice k 2 bs = [0, 0] \<Longrightarrow>
    ck (upd k (le16 (ck bs)) bs) = 0"
begin

lemma seal_verifies:
  assumes "even k" and "k + 2 \<le> length bs"
  shows "ck (upd k (le16 (ck (upd k [0, 0] bs))) bs) = 0"
proof -
  let ?z = "upd k [0, 0] bs"
  have "bslice k 2 ?z = [0, 0]" using assms(2) by (simp add: mem_simps)
  then have "ck (upd k (le16 (ck ?z)) ?z) = 0"
    using assms by (intro ck_insert) simp_all
  then show ?thesis using assms(2) by (simp add: mem_simps)
qed

end

locale error_detecting = self_checking +
  assumes ck_detect: "even k \<Longrightarrow> k + 2 \<le> length bs \<Longrightarrow> length w = 2 \<Longrightarrow> ck bs = 0 \<Longrightarrow>
    ck (upd k w bs) = 0 \<Longrightarrow> w = bslice k 2 bs \<or> w = [0, 0] \<and> bslice k 2 bs = [255, 255] \<or>
      w = [255, 255] \<and> bslice k 2 bs = [0, 0]"
begin

lemma byte_error_detected:
  assumes bs: "ck bs = 0" "ck (upd i [x] bs) = 0" and i: "i < length bs" "even (length bs)"
  shows "x = bs ! i"
proof -
  define k where "k = 2 * (i div 2)"
  define w where "w = bslice k 2 (upd i [x] bs)"
  have k: "even k" "k + 2 \<le> length bs" "k \<le> i" "i < k + 2"
    using i unfolding k_def by presburger+
  have w: "w = [if i = k then x else bs ! k, if i = k then bs ! Suc k else x]"
    using k i by (auto intro!: nth_equalityI simp: w_def nth_bslice nth_upd nth_Cons' less_Suc_eq numeral_2_eq_2)
  have s: "bslice k 2 bs = [bs ! k, bs ! Suc k]"
    using k by (auto intro!: nth_equalityI simp: nth_bslice nth_Cons' less_Suc_eq numeral_2_eq_2)
  have "upd i [x] bs = upd k w bs"
    unfolding w_def by (rule upd_bslice_eq[symmetric]) (use k i in \<open>auto simp: nth_upd\<close>)
  then have "w = bslice k 2 bs \<or> w = [0, 0] \<and> bslice k 2 bs = [255, 255] \<or>
      w = [255, 255] \<and> bslice k 2 bs = [0, 0]"
    using ck_detect[of k bs w] bs k w by simp
  then show ?thesis
    using k(3,4) by (cases "i = k") (auto simp: w s less_Suc_eq)
qed

end

lemma dvd_sums_mod: "a + x = b + y \<Longrightarrow> a mod m = 0 \<Longrightarrow> b mod m = 0 \<Longrightarrow> x mod m = y mod m"
  for a b x y m :: nat
  using mod_add_cong[of a m 0 x x] mod_add_cong[of b m 0 y y] by simp

lemma mod_65535_cases:
  "a \<le> 65535 \<Longrightarrow> b \<le> 65535 \<Longrightarrow> a mod 65535 = b mod 65535 \<Longrightarrow>
     a = b \<or> b = 0 \<and> a = 65535 \<or> b = 65535 \<and> a = 0" for a b :: nat
  by (cases "a = 65535"; cases "b = 65535") auto

lemma chk_detect:
  assumes "even k" "k + 2 \<le> length bs" "length w = 2" "chk bs = 0" "chk (upd k w bs) = 0"
  shows "w = bslice k 2 bs \<or> w = [0, 0] \<and> bslice k 2 bs = [255, 255] \<or>
    w = [255, 255] \<and> bslice k 2 bs = [0, 0]"
proof -
  let ?s = "bslice k 2 bs"
  have s: "length ?s = 2" using assms(2) by simp
  have "words_sum (upd k w bs) + unat (un16 ?s) = words_sum bs + unat (un16 w)"
    using assms by (intro words_sum_upd)
  moreover have "words_sum (upd k w bs) mod 65535 = 0" "words_sum bs mod 65535 = 0"
    using assms(4,5) by (simp_all add: chk_0_iff)
  ultimately have "unat (un16 ?s) mod 65535 = unat (un16 w) mod 65535"
    by (rule dvd_sums_mod)
  then consider "unat (un16 ?s) = unat (un16 w)" | "unat (un16 w) = 0" "unat (un16 ?s) = 65535"
    | "unat (un16 w) = 65535" "unat (un16 ?s) = 0"
    using mod_65535_cases[OF unat16_le[of "un16 ?s"] unat16_le[of "un16 w"]] by linarith
  then show ?thesis
  proof cases
    case 1
    then have "un16 ?s = un16 w" by (simp only: word_unat_eq_iff)
    then show ?thesis using le16_un16[OF s] le16_un16[OF assms(3)] by metis
  next
    case 2
    then have "un16 w = 0" "un16 ?s = 65535" by (simp_all add: word_unat_eq_iff)
    then show ?thesis using le16_un16[OF s] le16_un16[OF assms(3)] by (simp add: le16_consts)
  next
    case 3
    then have "un16 w = 65535" "un16 ?s = 0" by (simp_all add: word_unat_eq_iff)
    then show ?thesis using le16_un16[OF s] le16_un16[OF assms(3)] by (simp add: le16_consts)
  qed
qed

lemma chk_insert:
  assumes "even k" "k + 2 \<le> length bs" "bslice k 2 bs = [0, 0]"
  shows "chk (upd k (le16 (chk bs)) bs) = 0"
proof -
  let ?n = "words_sum bs"
  have z: "unat (un16 [0, 0]) = 0" by (simp add: un16_def unat_mk16)
  have "words_sum (upd k (le16 (chk bs)) bs) = ?n + (65535 - oc ?n)"
    using words_sum_upd[OF assms(1,2), of "le16 (chk bs)"] assms(3) z by (simp add: unat_chk)
  moreover have "?n \<noteq> 0 \<or> 65535 - oc ?n \<noteq> 0" by (auto simp: oc_def)
  moreover have "(?n + (65535 - oc ?n)) mod 65535 = 0"
  proof -
    have "(?n + (65535 - oc ?n)) mod 65535 = (oc ?n + (65535 - oc ?n)) mod 65535"
      by (metis mod_add_left_eq oc_mod)
    then show ?thesis using oc_le[of ?n] by simp
  qed
  ultimately show ?thesis by (simp add: chk_0_iff)
qed

interpretation ic: error_detecting chk
  by unfold_locales (simp add: chk_insert, rule chk_detect)

lemma bslice_upd_within:
  "k + length w \<le> n \<Longrightarrow> off + n \<le> length m \<Longrightarrow>
     bslice off n (upd (off + k) w m) = upd k w (bslice off n m)"
  by (rule nth_equalityI) (auto simp: nth_bslice nth_upd)

section \<open>Properties\<close>

text \<open>C7: on any block that lies in memory, the checksum loop returns, without overflow of its 32-bit
  accumulator, the value RFC 1071 prescribes: the two bytes it stores on the little-endian target,
  read in network order, are the complement of the one's-complement sum of the big-endian words.\<close>

theorem in_checksum_rfc1071:
  assumes "buf + unat count \<le> length m"
  shows "\<exists>c. in_checksum m buf count = Ok c \<and>
     256 * unat (byte_of 0 c) + unat (byte_of 1 c) = rfc1071 (bslice buf (unat count) m)"
  using in_checksum_eq_chk[OF assms] chk_wire by blast

theorem in_checksum_rfc1071_witness:
  "\<exists>c. in_checksum [0x00, 0x01, 0xf2, 0x03, 0xf4] 0 5 = Ok c \<and>
     256 * unat (byte_of 0 c) + unat (byte_of 1 c) = rfc1071 [0x00, 0x01, 0xf2, 0x03, 0xf4]"
  using in_checksum_rfc1071[of 0 5 "[0x00, 0x01, 0xf2, 0x03, 0xf4]"] by (simp add: bslice_def)

text \<open>The checksum reads out of the block exactly when the block is shorter than the length it is
  given; otherwise it returns.\<close>

theorem in_checksum_fault_iff:
  "in_checksum m buf count = Fault e \<longleftrightarrow>
     e = Out_of_bounds \<and> 0 < count \<and> length m < buf + unat count"
proof (cases "count = 0 \<or> buf + unat count \<le> length m")
  case True
  then have "\<exists>c. in_checksum m buf count = Ok c"
    using in_checksum_eq_chk[of buf count m] by (auto simp: in_checksum_def)
  with True show ?thesis by auto
next
  case False
  then have "in_checksum m buf count = Fault Out_of_bounds"
    by (intro in_checksum_fault) (auto simp: word_neq_0_conv)
  with False show ?thesis by (auto simp: word_neq_0_conv)
qed

text \<open>C31: a header written the way the code writes it (checksum field zeroed, checksum of the header
  computed, stored in the field) passes the verification of the receiving side, which is that the
  checksum of the whole header is zero.\<close>

theorem in_checksum_sealed:
  assumes "even k" "k + 2 \<le> unat count" "off + unat count \<le> length m"
    and "in_checksum (upd (off + k) [0, 0] m) off count = Ok c"
  shows "in_checksum (upd (off + k) (le16 c) m) off count = Ok 0"
proof -
  let ?b = "bslice off (unat count) m"
  have "c = chk (upd k [0, 0] ?b)"
    using assms by (simp add: in_checksum_eq_chk bslice_upd_within)
  moreover have "chk (upd k (le16 (chk (upd k [0, 0] ?b))) ?b) = 0"
    using assms by (intro ic.seal_verifies) simp_all
  ultimately show ?thesis
    using assms(2,3) by (simp add: in_checksum_eq_chk bslice_upd_within)
qed

theorem in_checksum_sealed_witness:
  "in_checksum [0x45, 0x00, 0x7a, 0xee, 0x40, 0x11] 0 6 = Ok 0 \<and>
   in_checksum (upd 2 [0, 0] [0x45, 0x00, 0x7a, 0xee, 0x40, 0x11]) 0 6 = Ok 0xee7a"
proof -
  let ?m = "[0x45, 0x00, 0x7a, 0xee, 0x40, 0x11] :: bytes"
  have z: "in_checksum (upd (0 + 2) [0, 0] ?m) 0 6 = Ok 0xee7a" by code_simp
  have "in_checksum (upd (0 + 2) (le16 0xee7a) ?m) 0 6 = Ok 0"
    using in_checksum_sealed[OF _ _ _ z] by simp
  moreover have "upd (0 + 2) (le16 0xee7a) ?m = ?m" by code_simp
  ultimately show ?thesis using z by (simp only: add_0)
qed

text \<open>An odd last byte counts as if a zero byte followed it.\<close>

lemma words_sum_pad: "odd (length bs) \<Longrightarrow> words_sum (bs @ [0]) = words_sum bs"
  by (induction bs rule: words_sum.induct) (simp_all add: unat_mk16)

lemma chk_pad: "odd (length bs) \<Longrightarrow> chk (bs @ [0]) = chk bs"
  by (simp add: chk_def words_sum_pad)

lemma chk_byte_error:
  assumes "chk bs = 0" "chk (upd i [x] bs) = 0" "i < length bs"
  shows "x = bs ! i"
proof (cases "even (length bs)")
  case True
  then show ?thesis using ic.byte_error_detected assms by blast
next
  case False
  have u: "upd i [x] (bs @ [0]) = upd i [x] bs @ [0]" using assms(3) by (simp add: upd_def)
  have "chk (bs @ [0]) = 0" "chk (upd i [x] (bs @ [0])) = 0"
    using assms chk_pad[of bs] chk_pad[of "upd i [x] bs"] False unfolding u by simp_all
  then have "x = (bs @ [0]) ! i" using ic.byte_error_detected[of "bs @ [0]" i x] assms(3) False by simp
  then show ?thesis using assms(3) by (simp add: nth_append)
qed

text \<open>C32: corruption of any single byte of a block that verified, of even or odd length, is detected: the block
  no longer verifies.\<close>

theorem in_checksum_detects_byte:
  assumes "off + unat count \<le> length m" "i < unat count" "in_checksum m off count = Ok 0" "x \<noteq> m ! (off + i)"
  shows "\<exists>c. in_checksum (upd (off + i) [x] m) off count = Ok c \<and> c \<noteq> 0"
proof -
  let ?b = "bslice off (unat count) m"
  have "chk ?b = 0" using assms(1,3) by (simp add: in_checksum_eq_chk)
  then have "chk (upd i [x] ?b) \<noteq> 0"
    using chk_byte_error[of ?b i x] assms by (auto simp: nth_bslice)
  then show ?thesis
    using assms(1,2) by (simp add: in_checksum_eq_chk bslice_upd_within)
qed

theorem in_checksum_detects_byte_witness:
  "(\<exists>c. in_checksum (upd 5 [0x12] [0x45, 0x00, 0x7a, 0xee, 0x40, 0x11]) 0 6 = Ok c \<and> c \<noteq> 0) \<and>
   (\<exists>c. in_checksum (upd 4 [0x12] [0x45, 0x00, 0xba, 0xff, 0x00]) 0 5 = Ok c \<and> c \<noteq> 0)"
proof -
  let ?m = "[0x45, 0x00, 0x7a, 0xee, 0x40, 0x11] :: bytes" and ?n = "[0x45, 0x00, 0xba, 0xff, 0x00] :: bytes"
  have "in_checksum ?m 0 6 = Ok 0" "in_checksum ?n 0 5 = Ok 0" by code_simp+
  then show ?thesis using in_checksum_detects_byte[of 0 6 ?m 5 "0x12"] in_checksum_detects_byte[of 0 5 ?n 4 "0x12"] by simp
qed

end
