(* ===== verification/Ip.thy ===== *)
theory Ip
  imports Arp Checksum
begin

text \<open>
  The IP header (\<open>struct ip_hdr_s\<close> of \<open>netinet/ip.h\<close>) and the receive handler of \<open>netinet/ip.c\<close>.  The
  header is overlaid on twenty bytes of a buffer; \<open>ip_bytes\<close> relates it to the record \<open>ip_hdr\<close>.  The
  handler checks the header and hands the packet to the table of IP protocols (\<open>Proto_Table\<close>).
\<close>

section \<open>The header\<close>

text \<open>The first byte holds two bit fields, \<open>ihl\<close> in the low half and \<open>version\<close> in the high half.\<close>

record ip_hdr =
  ih_ihl :: "4 word"
  ih_version :: "4 word"
  ih_tos :: uint8_t
  ih_tot_len :: uint16_t
  ih_id :: uint16_t
  ih_frag_off :: uint16_t
  ih_ttl :: uint8_t
  ih_protocol :: uint8_t
  ih_hdr_chks :: uint16_t
  ih_src :: bytes
  ih_dst :: bytes

abbreviation (input) "iph_tos \<equiv> 1 :: nat"
abbreviation (input) "iph_tot_len \<equiv> 2 :: nat"
abbreviation (input) "iph_id \<equiv> 4 :: nat"
abbreviation (input) "iph_frag_off \<equiv> 6 :: nat"
abbreviation (input) "iph_ttl \<equiv> 8 :: nat"
abbreviation (input) "iph_protocol \<equiv> 9 :: nat"
abbreviation (input) "iph_hdr_chks \<equiv> 10 :: nat"
abbreviation (input) "iph_ip_src \<equiv> 12 :: nat"
abbreviation (input) "iph_ip_dst \<equiv> 16 :: nat"

definition IP_HDR_SIZE :: nat where "IP_HDR_SIZE = 20"
definition IP_DF :: uint16_t where "IP_DF = 0x4000"
definition IP_MF :: uint16_t where "IP_MF = 0x2000"
definition IP_OFFSET :: uint16_t where "IP_OFFSET = 0x1FFF"

text \<open>Reading and assigning the two bit fields of a byte.\<close>

definition get_ihl :: "uint8_t \<Rightarrow> 4 word" where "get_ihl b = ucast b"
definition get_version :: "uint8_t \<Rightarrow> 4 word" where "get_version b = ucast (drop_bit 4 b)"
definition set_ihl :: "4 word \<Rightarrow> uint8_t \<Rightarrow> uint8_t" where "set_ihl v b = (b AND 0xF0) OR ucast v"
definition set_version :: "4 word \<Rightarrow> uint8_t \<Rightarrow> uint8_t" where "set_version v b = (b AND 0x0F) OR push_bit 4 (ucast v)"

definition get_ip_hdr :: "net_buff \<Rightarrow> nat" where
  "get_ip_hdr b = unat (nb_network_hdr_offset b)"

text \<open>The address tests take a pointer to four bytes.\<close>

definition ip4_is_broadcast :: "'z swaps_scheme \<Rightarrow> bytes \<Rightarrow> bool res" where
  "ip4_is_broadcast P ip = bnd (rd 0 4 ip) (\<lambda>b. Ok (un32 b = htonl P INADDR_BROADCAST))"

definition ip4_is_multicast :: "bytes \<Rightarrow> bool res" where
  "ip4_is_multicast ip = bnd (rd 0 1 ip) (\<lambda>b. Ok ((b ! 0) AND 0xF0 = 0xE0))"

definition ip4_is_loopback :: "bytes \<Rightarrow> bool res" where
  "ip4_is_loopback ip = bnd (rd 0 1 ip) (\<lambda>b. Ok ((b ! 0) AND 0xFF = 0x7F))"

definition ip4_is_zero :: "bytes \<Rightarrow> bool res" where
  "ip4_is_zero ip = bnd (rd 0 4 ip) (\<lambda>b. Ok (un32 b = 0))"

section \<open>Receiving\<close>

text \<open>The checksum over bytes of a buffer.\<close>

definition nb_checksum :: "nbp \<Rightarrow> nat \<Rightarrow> uint16_t \<Rightarrow> 'w nb_world_scheme \<Rightarrow> uint16_t res" where
  "nb_checksum nb off n w = bnd (load_nb w nb) (\<lambda>b. in_checksum (nb_mem b) off n)"

text \<open>
  The last length test converts the truth value of a comparison to network order, as the code does;
  the comparison is of unsigned 16-bit numbers, since \<open>int\<close> has 16 bits.
\<close>

definition ip_recv :: "'z swaps_scheme \<Rightarrow> ('h, 'w) tab_world_scheme hdlr_call \<Rightarrow> nbp \<Rightarrow> ('h, 'w) tab_world_scheme \<Rightarrow>
    (int8_t \<times> ('h, 'w) tab_world_scheme) res" where
  "ip_recv P call nb w =
     bnd (load_nb w nb) (\<lambda>b.
     let out = drop_nb nb in
     if unat (nb_pkt_type b) = PKT_OTHERHOST then out w else
     let iph = get_ip_hdr b in
     bnd (nb_rd nb iph 1 w) (\<lambda>v.
     let version = get_version (v ! 0); ihl = unat (get_ihl (v ! 0)) in
     if version \<noteq> 4 \<or> ihl < 5 \<or> 15 < ihl then out w else
     bnd (nb_checksum nb iph (of_nat (ihl * 4)) w) (\<lambda>chks.
     if chks \<noteq> 0 then out w else
     bnd (nb_rd nb (iph + iph_tot_len) 2 w) (\<lambda>l. let tot_len = un16 l in
     if nb_pkt_len b < ntohs P tot_len \<or> ntohs P (if tot_len < of_nat (ihl * 4) then 1 else 0) \<noteq> 0 then out w else
     bnd (nb_upd nb (\<lambda>b. b\<lparr>nb_transport_hdr_offset := nb_network_hdr_offset b + of_nat (ihl * 4)\<rparr>) w) (\<lambda>w.
     if 5 < ihl then out w else
     bnd (nb_rd nb (iph + iph_protocol) 1 w) (\<lambda>proto.
     ip_proto_handler call (proto ! 0) nb w))))))"

section \<open>The header and its bytes\<close>

definition ver_ihl :: "ip_hdr \<Rightarrow> uint8_t" where
  "ver_ihl h = push_bit 4 (ucast (ih_version h)) OR ucast (ih_ihl h)"

definition ip_bytes :: "ip_hdr \<Rightarrow> bytes" where
  "ip_bytes h = [ver_ihl h] @ [ih_tos h] @ be16 (ih_tot_len h) @ be16 (ih_id h) @ be16 (ih_frag_off h) @
     [ih_ttl h] @ [ih_protocol h] @ le16 (ih_hdr_chks h) @ ih_src h @ ih_dst h"

definition ip_ok :: "ip_hdr \<Rightarrow> bool" where
  "ip_ok h \<longleftrightarrow> length (ih_src h) = 4 \<and> length (ih_dst h) = 4"

lemma ip_okD [simp]: "ip_ok h \<Longrightarrow> length (ih_src h) = 4" "ip_ok h \<Longrightarrow> length (ih_dst h) = 4"
  "ip_ok h \<Longrightarrow> length (ip_bytes h) = 20"
  by (simp_all add: ip_ok_def ip_bytes_def)

lemma bit_4_word: "\<not> bit x (4 + n)" for x :: "4 word"
  using bit_imp_le_length[of x "4 + n"] by auto

lemma get_ver_ihl [simp]: "get_ihl (ver_ihl h) = ih_ihl h" "get_version (ver_ihl h) = ih_version h"
  by (auto intro!: bit_word_eqI simp: get_ihl_def get_version_def ver_ihl_def bit_simps bit_4_word)

lemma set_ver_ihl: "set_ihl i (set_version v x) = push_bit 4 (ucast v) OR ucast i"
proof (rule bit_word_eqI)
  fix n assume "n < LENGTH(8)"
  moreover have m: "(0xF0 :: uint8_t) = NOT (mask 4)" "(0x0F :: uint8_t) = mask 4"
    by (simp_all add: mask_eq_exp_minus_1)
  ultimately show "bit (set_ihl i (set_version v x)) n = bit (push_bit 4 (ucast v) OR ucast i :: uint8_t) n"
    unfolding set_ihl_def set_version_def m
    by (auto simp: bit_simps dest: bit_imp_le_length)
qed

lemma ip_ok_upd [simp]:
  "ip_ok (h\<lparr>ih_ttl := x\<rparr>) = ip_ok h" "ip_ok (h\<lparr>ih_hdr_chks := c\<rparr>) = ip_ok h" "ip_ok (h\<lparr>ih_tot_len := c\<rparr>) = ip_ok h"
  "length i = 4 \<Longrightarrow> ip_ok h \<Longrightarrow> ip_ok (h\<lparr>ih_src := i\<rparr>)" "length i = 4 \<Longrightarrow> ip_ok h \<Longrightarrow> ip_ok (h\<lparr>ih_dst := i\<rparr>)"
  by (simp_all add: ip_ok_def del: ip_okD)

lemma ip_fields [window_simps]:
  assumes "ip_ok h"
  shows "bslice 0 (Suc 0) (ip_bytes h) = [ver_ihl h]" "bslice 2 2 (ip_bytes h) = be16 (ih_tot_len h)"
    "bslice 6 2 (ip_bytes h) = be16 (ih_frag_off h)"
    "bslice 8 (Suc 0) (ip_bytes h) = [ih_ttl h]" "bslice 9 (Suc 0) (ip_bytes h) = [ih_protocol h]"
    "bslice 12 4 (ip_bytes h) = ih_src h" "bslice 16 4 (ip_bytes h) = ih_dst h"
  using assms by (simp_all add: bslice_def ip_bytes_def le16_def be16_def)

lemma ip_upds [window_simps]:
  assumes "ip_ok h"
  shows "upd 8 [x] (ip_bytes h) = ip_bytes (h\<lparr>ih_ttl := x\<rparr>)"
    "upd 10 (le16 c) (ip_bytes h) = ip_bytes (h\<lparr>ih_hdr_chks := c\<rparr>)"
    "upd 10 [0, 0] (ip_bytes h) = ip_bytes (h\<lparr>ih_hdr_chks := 0\<rparr>)"
    "length i = 4 \<Longrightarrow> upd 12 i (ip_bytes h) = ip_bytes (h\<lparr>ih_src := i\<rparr>)"
    "length i = 4 \<Longrightarrow> upd 16 i (ip_bytes h) = ip_bytes (h\<lparr>ih_dst := i\<rparr>)"
  using assms by (simp_all add: upd_def ip_bytes_def ver_ihl_def le16_consts)

text \<open>A checksum over a whole window.\<close>

lemma view_checksum:
  assumes "nbs w a = Some b" "view e n t (nb_mem b) E N T"
  shows "unat c = length N \<Longrightarrow> nb_checksum (NB a) n c w = Ok (chk N)"
    and "unat c = length T \<Longrightarrow> nb_checksum (NB a) t c w = Ok (chk T)"
  using assms by (simp_all add: nb_checksum_def load_nb_NB view_def in_checksum_eq_chk)

lemma in_windows_checksum [window_simps]:
  assumes "fits e n t (length (nb_mem b)) (length E) (length N) (length T)"
  shows "unat c = length N \<Longrightarrow> nb_checksum (NB a) n c (in_windows a b e n t E N T w) = Ok (chk N)"
    and "unat c = length T \<Longrightarrow> nb_checksum (NB a) t c (in_windows a b e n t E N T w) = Ok (chk T)"
  using view_checksum[OF in_windows_buf] windows_view[OF assms] by simp_all

text \<open>The header with its checksum.\<close>

definition ip_sealed :: "ip_hdr \<Rightarrow> ip_hdr" where
  "ip_sealed h = h\<lparr>ih_hdr_chks := chk (ip_bytes (h\<lparr>ih_hdr_chks := 0\<rparr>))\<rparr>"

lemma ip_sealed_chk: "ip_ok h \<Longrightarrow> chk (ip_bytes (ip_sealed h)) = 0"
proof -
  assume h: "ip_ok h"
  have z: "le16 0 = [0, 0]" by (rule le16_consts(1))
  from h show ?thesis
    using ic.seal_verifies[of 10 "ip_bytes h"] unfolding z[symmetric] by (simp add: ip_upds ip_sealed_def)
qed

text \<open>The header that the sender builds.\<close>

definition ip_out :: "uint8_t \<Rightarrow> uint16_t \<Rightarrow> bytes \<Rightarrow> bytes \<Rightarrow> ip_hdr" where
  "ip_out proto len src dst = ip_sealed \<lparr>ih_ihl = 5, ih_version = 4, ih_tos = 0, ih_tot_len = len, ih_id = 0,
     ih_frag_off = IP_DF, ih_ttl = 64, ih_protocol = proto, ih_hdr_chks = 0, ih_src = src, ih_dst = dst\<rparr>"

lemma ip_out_sel [simp]:
  "ih_ihl (ip_out proto len src dst) = 5" "ih_version (ip_out proto len src dst) = 4"
  "ih_tot_len (ip_out proto len src dst) = len" "ih_protocol (ip_out proto len src dst) = proto"
  "ih_src (ip_out proto len src dst) = src" "ih_dst (ip_out proto len src dst) = dst"
  "ih_frag_off (ip_out proto len src dst) = IP_DF" "ih_ttl (ip_out proto len src dst) = 64"
  by (simp_all add: ip_out_def ip_sealed_def)

lemma ip_out_ok [simp]: "length src = 4 \<Longrightarrow> length dst = 4 \<Longrightarrow> ip_ok (ip_out proto len src dst)"
  by (simp add: ip_ok_def)

lemma ip_out_chk [simp]: "length src = 4 \<Longrightarrow> length dst = 4 \<Longrightarrow> chk (ip_bytes (ip_out proto len src dst)) = 0"
  unfolding ip_out_def by (rule ip_sealed_chk) (simp add: ip_ok_def)

section \<open>What the handler accepts\<close>

definition ip_at :: "net_buff \<Rightarrow> ip_hdr \<Rightarrow> bool" where
  "ip_at b h \<longleftrightarrow> ip_ok h \<and> (let n = unat (nb_network_hdr_offset b) in
     n + 20 \<le> length (nb_mem b) \<and> n + 4 * unat (ih_ihl h) \<le> length (nb_mem b) \<and>
     bslice n 20 (nb_mem b) = ip_bytes h)"

definition ip_valid :: "net_buff \<Rightarrow> ip_hdr \<Rightarrow> bool" where
  "ip_valid b h \<longleftrightarrow> unat (nb_pkt_type b) \<noteq> PKT_OTHERHOST \<and> ih_version h = 4 \<and> ih_ihl h = 5 \<and>
     chk (ip_bytes h) = 0 \<and> ih_tot_len h \<le> nb_pkt_len b"

text \<open>The last test as it works out: on the bytes of the total length in the wrong order.\<close>

definition len_refused :: "uint16_t \<Rightarrow> bool" where
  "len_refused l \<longleftrightarrow> byte_of 0 l = 0 \<and> unat (byte_of 1 l) < 20"

lemma unat_of_nat16: "n < 65536 \<Longrightarrow> unat (of_nat n :: uint16_t) = n"
  by (simp add: unsigned_of_nat take_bit_eq_mod)

lemma len_test:
  assumes "swaps_ok P"
  shows "ntohs P (if un16 (be16 l) < of_nat (5 * 4) then 1 else 0) \<noteq> 0 \<longleftrightarrow> len_refused l"
proof -
  have "swap16 1 \<noteq> 0" "swap16 0 = 0" by code_simp+
  moreover have "un16 (be16 l) = mk16 (byte_of 1 l) (byte_of 0 l)" by (simp add: swap16_def)
  then have "un16 (be16 l) < of_nat (5 * 4) \<longleftrightarrow> unat (byte_of 1 l) + 256 * unat (byte_of 0 l) < 20"
    by (simp add: word_less_nat_alt unat_mk16)
  moreover have "unat (byte_of 0 l) = 0 \<longleftrightarrow> byte_of 0 l = 0" by (simp add: unat_eq_0)
  then have "unat (byte_of 1 l) + 256 * unat (byte_of 0 l) < 20 \<longleftrightarrow> len_refused l"
    unfolding len_refused_def by (cases "unat (byte_of 0 l)") auto
  ultimately show ?thesis using assms by (simp add: swap_simps)
qed

lemma len_refused_iff: "len_refused l \<longleftrightarrow> unat l mod 256 = 0 \<and> unat l < 5120"
proof -
  have "unat (byte_of 0 l) < 256" by simp
  moreover have "byte_of 0 l = 0 \<longleftrightarrow> unat (byte_of 0 l) = 0" by (simp add: unat_eq_0)
  ultimately show ?thesis unfolding len_refused_def using unat_bytes[of l] by auto
qed

lemma drop_nb_freed: "nbs w a = Some b \<Longrightarrow> drop_nb (NB a) w = Ok (NETDEV_RX_DROP, freed a w)"
  by (simp add: drop_nb_Ok freed_def)

text \<open>The handler on a header.\<close>

lemma ip_recv_cases:
  assumes P: "swaps_ok P" and b: "nbs w a = Some b" "ip_at b h"
  shows "ip_recv P call (NB a) w =
    (if ip_valid b h \<and> \<not> len_refused (ih_tot_len h)
     then ip_proto_handler call (ih_protocol h) (NB a)
       (w\<lparr>nbs := (nbs w)(a \<mapsto> b\<lparr>nb_transport_hdr_offset := nb_network_hdr_offset b + 20\<rparr>)\<rparr>)
     else Ok (NETDEV_RX_DROP, freed a w))"
proof -
  define n where "n = unat (nb_network_hdr_offset b)"
  have h: "ip_ok h" and m: "n + 20 \<le> length (nb_mem b)" "n + unat (ih_ihl h) * 4 \<le> length (nb_mem b)"
    "bslice n 20 (nb_mem b) = ip_bytes h"
    using b(2) by (simp_all add: ip_at_def n_def Let_def mult.commute)
  have fld: "bslice (n + k) l (nb_mem b) = bslice k l (ip_bytes h)" if "k + l \<le> 20" for k l
    using that by (simp add: m(3)[symmetric] bslice_bslice)
  note rd = fld[of 0 "Suc 0"] fld[of 2 2] fld[of 9 "Suc 0"]
  have reads: "nb_rd (NB a) n (Suc 0) w = Ok [ver_ihl h]" "nb_rd (NB a) (n + 2) 2 w = Ok (be16 (ih_tot_len h))"
    using m(1) rd by (simp_all add: nb_rd_NB[OF b(1)] ip_fields[OF h])
  have i15: "unat (ih_ihl h) \<le> 15" using unsigned_less[of "ih_ihl h", where ?'a = nat] by simp
  have v4: "ih_version h = 4 \<longleftrightarrow> ih_version h = 4" ..
  note head = ip_recv_def Let_def load_nb_NB[OF b(1)] get_ip_hdr_def n_def[symmetric] reads reads[simplified] drop_nb_freed[OF b(1)]
  show ?thesis
  proof (cases "unat (nb_pkt_type b) = PKT_OTHERHOST \<or> ih_version h \<noteq> 4 \<or> unat (ih_ihl h) < 5")
    case True
    then show ?thesis by (auto simp: head ip_valid_def)
  next
    case False
    have cnt: "unat (of_nat (unat (ih_ihl h) * 4) :: uint16_t) = unat (ih_ihl h) * 4"
      using i15 by (intro unat_of_nat16) simp
    have chk: "nb_checksum (NB a) n (of_nat (unat (ih_ihl h) * 4)) w = Ok (chk (bslice n (unat (ih_ihl h) * 4) (nb_mem b)))"
      using m(2) cnt by (simp add: nb_checksum_def load_nb_NB[OF b(1)] in_checksum_eq_chk)
    show ?thesis
    proof (cases "unat (ih_ihl h) = 5")
      case True
      then have five: "ih_ihl h = 5" by (simp add: word_unat_eq_iff)
      have sw: "ntohs P (swap16 (ih_tot_len h)) = ih_tot_len h" using P by (simp add: swap_simps)
      have chk5: "nb_checksum (NB a) n 20 w = Ok (chk (ip_bytes h))" using chk True m(3) by simp
      let ?w = "w\<lparr>nbs := (nbs w)(a \<mapsto> b\<lparr>nb_transport_hdr_offset := nb_network_hdr_offset b + 20\<rparr>)\<rparr>"
      have "nb_rd (NB a) (n + 9) (Suc 0) ?w = Ok [ih_protocol h]"
        using m(1) rd by (simp add: nb_rd_NB ip_fields[OF h])
      then show ?thesis
        using True False len_test[OF P, of "ih_tot_len h"] five m(3)
        by (auto simp: head chk5 sw nb_upd_NB[OF b(1)] ip_valid_def linorder_not_less[symmetric])
    next
      case other: False
      have "drop_nb (NB a) (w\<lparr>nbs := (nbs w)(a \<mapsto> b')\<rparr>) = Ok (NETDEV_RX_DROP, freed a w)" for b'
        by (simp add: drop_nb_Ok freed_def)
      moreover have "ih_ihl h \<noteq> 5" "5 < unat (ih_ihl h)" using other False by auto
      ultimately show ?thesis
        using False other i15 by (simp add: head chk chk[simplified] nb_upd_NB[OF b(1)] ip_valid_def Let_def)
    qed
  qed
qed

section \<open>Properties\<close>

text \<open>C10: for every packet whose header lies in the buffer, \<open>ip_recv\<close> either hands it to the handler of
  its protocol, with the transport header located behind the twenty bytes of the header, or frees it
  and reports a drop, changing nothing else.  It accepts exactly the packets that are not for another
  host, have version 4, no options, a correct header checksum and a total length that does not exceed
  what was received, except those whose total length is a multiple of 256 below 5120.\<close>

theorem ip_recv_decides:
  assumes "swaps_ok P" "nbs w a = Some b" "ip_at b h"
  shows "ip_recv P call (NB a) w =
    (if unat (nb_pkt_type b) \<noteq> PKT_OTHERHOST \<and> ih_version h = 4 \<and> ih_ihl h = 5 \<and> chk (ip_bytes h) = 0 \<and>
        ih_tot_len h \<le> nb_pkt_len b \<and> \<not> (unat (ih_tot_len h) mod 256 = 0 \<and> unat (ih_tot_len h) < 5120)
     then ip_proto_handler call (ih_protocol h) (NB a)
       (w\<lparr>nbs := (nbs w)(a \<mapsto> b\<lparr>nb_transport_hdr_offset := nb_network_hdr_offset b + 20\<rparr>)\<rparr>)
     else Ok (NETDEV_RX_DROP, freed a w))"
  using ip_recv_cases[OF assms, of call] unfolding ip_valid_def len_refused_iff by simp

text \<open>A received buffer: link header, IP header and data.\<close>

definition demo_ip_nb :: "ip_hdr \<Rightarrow> bytes \<Rightarrow> net_buff" where
  "demo_ip_nb h t = demo_nb (eth_bytes [2, 0, 0, 0, 0, 1] [2, 0, 0, 0, 0, 9] ETH_P_IP @ ip_bytes h @ t)"

lemma demo_ip_nb_at [simp]: "ip_ok h \<Longrightarrow> ih_ihl h = 5 \<Longrightarrow> ip_at (demo_ip_nb h t) h"
  by (simp add: ip_at_def demo_ip_nb_def bslice_def)

lemma demo_ip_nb_sel [simp]:
  "ip_ok h \<Longrightarrow> nb_pkt_len (demo_ip_nb h t) = of_nat (34 + length t)" "nb_pkt_type (demo_ip_nb h t) = 0"
  "nb_network_hdr_offset (demo_ip_nb h t) = 14"
  by (simp_all add: demo_ip_nb_def add.commute)

theorem ip_recv_decides_witness:
  "\<exists>w' c. ip_recv avr_swaps (\<lambda>h nb w. Ok (7, w)) (NB 3)
     (ip_proto_handler_add IPPROTO_UDP (Some (H_user 0)) (demo_tab_world
       [3 \<mapsto> demo_ip_nb (ip_out IPPROTO_UDP 22 [10, 0, 0, 1] [10, 0, 0, 2]) [1, 2]])) = Ok (7, w') \<and>
   nbs w' 3 = Some c \<and> nb_transport_hdr_offset c = 34"
proof -
  let ?h = "ip_out IPPROTO_UDP 22 [10, 0, 0, 1] [10, 0, 0, 2]"
  let ?w = "ip_proto_handler_add IPPROTO_UDP (Some (H_user 0)) (demo_tab_world [3 \<mapsto> demo_ip_nb ?h [1, 2]])"
  have "nbs ?w 3 = Some (demo_ip_nb ?h [1, 2])" "ip_at (demo_ip_nb ?h [1, 2]) ?h" by simp_all
  from ip_recv_decides[OF swaps_ok_avr this, of "\<lambda>h nb w. Ok (7, w)"] show ?thesis
    by (simp add: PKT_OTHERHOST_def ip_proto_handler_def ip_proto_handler_add_def)
qed

end
