(* ===== verification/Icmp.thy ===== *)
theory Icmp
  imports Ip
begin

text \<open>
  ICMP (\<open>netinet/icmp.h\<close>, \<open>netinet/icmp.c\<close>): the receive handler, which answers echo requests by
  turning the received frame round, and the function that fills in a header for sending.
\<close>

section \<open>The code\<close>

definition ICMP_ECHO_REPLY :: uint8_t where "ICMP_ECHO_REPLY = 0"
definition ICMP_ECHO_REQ :: uint8_t where "ICMP_ECHO_REQ = 8"
definition ICMP_HDR_SIZE :: nat where "ICMP_HDR_SIZE = 8"

abbreviation (input) "icmph_type \<equiv> 0 :: nat"
abbreviation (input) "icmph_code \<equiv> 1 :: nat"
abbreviation (input) "icmph_chks \<equiv> 2 :: nat"
abbreviation (input) "icmph_data \<equiv> 4 :: nat"

definition get_icmp_hdr :: "net_buff \<Rightarrow> nat" where
  "get_icmp_hdr b = unat (nb_transport_hdr_offset b)"

definition icmp_is_query :: "uint8_t \<Rightarrow> bool" where
  "icmp_is_query type \<longleftrightarrow> type = ICMP_ECHO_REPLY \<or> type = ICMP_ECHO_REQ"

text \<open>
  The length of the ICMP message, \<open>ntohs(iph->tot_len) - iph->ihl * 4\<close>, computed from the header
  each time: an unsigned 16-bit subtraction.
\<close>

definition icmp_len :: "'z swaps_scheme \<Rightarrow> nbp \<Rightarrow> nat \<Rightarrow> 'w nb_world_scheme \<Rightarrow> uint16_t res" where
  "icmp_len P nb iph w =
     bnd (nb_rd nb (iph + iph_tot_len) 2 w) (\<lambda>l.
     bnd (nb_rd nb iph 1 w) (\<lambda>v.
     Ok (ntohs P (un16 l) - of_nat (unat (get_ihl (v ! 0)) * 4))))"

text \<open>The result is a \<open>bool\<close>; \<open>NETDEV_RX_DROP\<close>, which is 1, converts to \<open>true\<close>.\<close>

definition icmp_echo :: "('h, 'w) ip_world_scheme platform \<Rightarrow> nat \<Rightarrow> nbp \<Rightarrow> ('h, 'w) ip_world_scheme \<Rightarrow>
    (bool \<times> ('h, 'w) ip_world_scheme) res" where
  "icmp_echo P fuel nb w =
     bnd (load_nb w nb) (\<lambda>b.
     let ndev = nb_net_dev b; eth_hdr = unat (nb_mac_hdr_offset b); iph = get_ip_hdr b; icmp_h = get_icmp_hdr b in
     bnd (nb_rd nb (iph + iph_ip_dst) 4 w) (\<lambda>dst.
     if un32 dst \<noteq> my_ip w then Ok (NETDEV_RX_DROP \<noteq> 0, w) else
     bnd (nb_upd nb (\<lambda>b. b\<lparr>nb_pkt_len := nb_pkt_len b - 4\<rparr>) w) (\<lambda>w.
     bnd (nb_copy nb eth_hdr (eth_hdr + 6) ETH_MAC_LEN w) (\<lambda>w.
     bnd (load_dev w ndev) (\<lambda>x. bnd (mac_at (nd_dev_addr x)) (\<lambda>dev_addr.
     bnd (nb_wr nb (eth_hdr + 6) dev_addr w) (\<lambda>w.
     bnd (nb_copy nb (iph + iph_ip_dst) (iph + iph_ip_src) IP4_LEN w) (\<lambda>w.
     bnd (nb_wr nb (iph + iph_ip_src) (le32 (my_ip w)) w) (\<lambda>w.
     bnd (nb_rd nb (iph + iph_ttl) 1 w) (\<lambda>ttl.
     bnd (nb_wr nb (iph + iph_ttl) [ttl ! 0 - 1] w) (\<lambda>w.
     bnd (nb_wr nb (iph + iph_hdr_chks) (le16 0) w) (\<lambda>w.
     bnd (nb_rd nb iph 1 w) (\<lambda>v.
     bnd (nb_checksum nb iph (of_nat (unat (get_ihl (v ! 0)) * 4)) w) (\<lambda>chks.
     bnd (nb_wr nb (iph + iph_hdr_chks) (le16 chks) w) (\<lambda>w.
     bnd (nb_wr nb (icmp_h + icmph_type) [ICMP_ECHO_REPLY] w) (\<lambda>w.
     bnd (nb_wr nb (icmp_h + icmph_chks) (le16 0) w) (\<lambda>w.
     bnd (icmp_len P nb iph w) (\<lambda>len.
     bnd (nb_checksum nb icmp_h len w) (\<lambda>chks.
     bnd (nb_wr nb (icmp_h + icmph_chks) (le16 chks) w) (\<lambda>w.
     bnd (netdev_list_xmit P fuel nb w) (\<lambda>(_, w).
     Ok (True, w))))))))))))))))))))))"

definition icmp_recv :: "('h, 'w) ip_world_scheme platform \<Rightarrow> nat \<Rightarrow> nbp \<Rightarrow> ('h, 'w) ip_world_scheme \<Rightarrow>
    (int8_t \<times> ('h, 'w) ip_world_scheme) res" where
  "icmp_recv P fuel nb w =
     bnd (load_nb w nb) (\<lambda>b.
     let drop' = drop_nb nb; iph = get_ip_hdr b; icmp_h = get_icmp_hdr b in
     bnd (nb_rd nb (icmp_h + icmph_type) 1 w) (\<lambda>type.
     if 18 < type ! 0 then drop' w else
     bnd (nb_rd nb (iph + iph_ip_dst) 4 w) (\<lambda>dst.
     bnd (ip4_is_multicast dst) (\<lambda>mc.
     bnd (ip4_is_broadcast P dst) (\<lambda>bc.
     if mc \<or> bc then drop' w else
     bnd (icmp_len P nb iph w) (\<lambda>len.
     bnd (nb_checksum nb icmp_h len w) (\<lambda>chks.
     if chks \<noteq> 0 then drop' w else
     bnd (if type ! 0 = ICMP_ECHO_REQ then icmp_echo P fuel nb w else Ok (False, w)) (\<lambda>(ret, w).
     if ret then Ok (NETDEV_RX_SUCCESS, w) else drop' w))))))))"

definition icmp_init :: "('h, 'w) tab_world_scheme \<Rightarrow> ('h, 'w) tab_world_scheme" where
  "icmp_init w = ip_proto_handler_add IPPROTO_ICMP (Some H_icmp_recv) w"

text \<open>
  \<open>icmp_h + sizeof(struct icmp_hdr_s)\<close> is pointer arithmetic in units of the struct: the data goes 64
  bytes behind the start of the header.
\<close>

definition icmp_hdr_create :: "'z swaps_scheme \<Rightarrow> nbp \<Rightarrow> uint8_t \<Rightarrow> uint8_t \<Rightarrow> uint32_t \<Rightarrow> bytes \<Rightarrow> uint16_t \<Rightarrow>
    'w nb_world_scheme \<Rightarrow> (int8_t \<times> 'w nb_world_scheme) res" where
  "icmp_hdr_create P nb type code hdr_data data data_len w =
     bnd (load_nb w nb) (\<lambda>b. let icmp_h = get_icmp_hdr b in
     bnd (nb_wr nb (icmp_h + icmph_type) [type] w) (\<lambda>w.
     bnd (nb_wr nb (icmp_h + icmph_code) [code] w) (\<lambda>w.
     bnd (nb_wr nb (icmp_h + icmph_data) (le32 (htonl P hdr_data)) w) (\<lambda>w.
     bnd (rd 0 (unat data_len) data) (\<lambda>bs.
     bnd (if bs = [] then Ok w else nb_wr nb (icmp_h + ICMP_HDR_SIZE * ICMP_HDR_SIZE) bs w) (\<lambda>w.
     bnd (nb_wr nb (icmp_h + icmph_chks) (le16 0) w) (\<lambda>w.
     bnd (nb_checksum nb icmp_h (of_nat ICMP_HDR_SIZE + data_len) w) (\<lambda>chks.
     bnd (nb_wr nb (icmp_h + icmph_chks) (le16 chks) w) (\<lambda>w.
     bnd (nb_checksum nb icmp_h (of_nat ICMP_HDR_SIZE + data_len) w) (\<lambda>chks.
     Ok (if chks \<noteq> 0 then - 1 else 0, w)))))))))))"

section \<open>Packets\<close>

text \<open>
  A buffer with a complete IP packet behind an Ethernet header: the data \<open>t\<close> fills the total length
  and lies where the transport header is expected.
\<close>

definition ip_frame :: "net_buff \<Rightarrow> bytes \<Rightarrow> bytes \<Rightarrow> uint16_t \<Rightarrow> ip_hdr \<Rightarrow> bytes \<Rightarrow> bool" where
  "ip_frame b dst src type h t \<longleftrightarrow> ip_ok h \<and> length dst = 6 \<and> length src = 6 \<and> ih_ihl h = 5 \<and>
     unat (ih_tot_len h) = 20 + length t \<and>
     view (unat (nb_mac_hdr_offset b)) (unat (nb_network_hdr_offset b)) (unat (nb_transport_hdr_offset b))
       (nb_mem b) (eth_bytes dst src type) (ip_bytes h) t"

text \<open>The answer to an echo request.\<close>

definition echo_hdr :: "uint32_t \<Rightarrow> ip_hdr \<Rightarrow> ip_hdr" where
  "echo_hdr my h = ip_sealed (h\<lparr>ih_dst := ih_src h, ih_src := le32 my, ih_ttl := ih_ttl h - 1\<rparr>)"

definition echo_data :: "bytes \<Rightarrow> bytes" where
  "echo_data t = (let z = upd 2 [0, 0] (upd 0 [ICMP_ECHO_REPLY] t) in upd 2 (le16 (chk z)) z)"

lemma echo_hdr_ok [simp]: "ip_ok h \<Longrightarrow> ip_ok (echo_hdr my h)" "ih_ihl (echo_hdr my h) = ih_ihl h"
  "ih_tot_len (echo_hdr my h) = ih_tot_len h" "ih_dst (echo_hdr my h) = ih_src h" "ih_src (echo_hdr my h) = le32 my"
  "ih_ttl (echo_hdr my h) = ih_ttl h - 1" "ih_protocol (echo_hdr my h) = ih_protocol h"
  "ih_version (echo_hdr my h) = ih_version h"
  by (simp_all add: echo_hdr_def ip_sealed_def ip_ok_def del: ip_okD)

lemma length_echo_data [simp]: "4 \<le> length t \<Longrightarrow> length (echo_data t) = length t"
  by (simp add: echo_data_def Let_def)

lemma echo_data_chk: "4 \<le> length t \<Longrightarrow> chk (echo_data t) = 0"
  using ic.seal_verifies[of 2 "upd 0 [ICMP_ECHO_REPLY] t"] by (simp add: echo_data_def Let_def upd_upd_same)

text \<open>The stores of \<open>icmp_echo\<close>, up to the transmission.\<close>

lemma icmp_echo_frame:
  assumes P: "swaps_ok P" and b: "nbs w a = Some b" "ip_frame b dst src type h t" "4 \<le> length t"
    and dev: "load_dev w (nb_net_dev b) = Ok x" "length (nd_dev_addr x) = 6" and ours: "ih_dst h = le32 (my_ip w)"
  shows "\<exists>m. icmp_echo P fuel (NB a) w = bnd (netdev_list_xmit P fuel (NB a)
      (w\<lparr>nbs := (nbs w)(a \<mapsto> b\<lparr>nb_pkt_len := nb_pkt_len b - 4, nb_mem := m\<rparr>)\<rparr>)) (\<lambda>(_, w). Ok (True, w)) \<and>
    ip_frame (b\<lparr>nb_pkt_len := nb_pkt_len b - 4, nb_mem := m\<rparr>) src (nd_dev_addr x) type
      (echo_hdr (my_ip w) h) (echo_data t)"
proof -
  define e n o4 where "e = unat (nb_mac_hdr_offset b)" and "n = unat (nb_network_hdr_offset b)"
    and "o4 = unat (nb_transport_hdr_offset b)"
  define mac my where "mac = nd_dev_addr x" and "my = my_ip w"
  note offs = e_def[symmetric] n_def[symmetric] o4_def[symmetric]
  have h: "ip_ok h" "length dst = 6" "length src = 6" "ih_ihl h = 5" "unat (ih_tot_len h) = 20 + length t"
    and v: "view e n o4 (nb_mem b) (eth_bytes dst src type) (ip_bytes h) t" and mac: "length mac = 6"
    using b(2) dev(2) by (simp_all add: ip_frame_def offs mac_def)
  let ?b = "b\<lparr>nb_pkt_len := nb_pkt_len b - 4\<rparr>" and ?E = "eth_bytes src mac type" and ?h = "echo_hdr my h" and ?t = "echo_data t"
  have len: "unat (ih_tot_len h - 20) = length t" using h(5) by (simp add: unat_sub_if_size)
  have f: "fits e n o4 (length (nb_mem b)) 14 20 (length t)" using view_fits[OF v] h by simp
  then have "view e n o4 (windows e n o4 ?E (ip_bytes ?h) ?t (nb_mem b)) ?E (ip_bytes ?h) ?t"
    using h mac b(3) by (intro windows_view) simp
  then have fr: "ip_frame (?b\<lparr>nb_mem := windows e n o4 ?E (ip_bytes ?h) ?t (nb_mem b)\<rparr>) src mac type ?h ?t"
    using h mac b(3) by (simp add: ip_frame_def offs)
  have run: "icmp_echo P fuel (NB a) (in_windows a b e n o4 (eth_bytes dst src type) (ip_bytes h) t w) =
      bnd (netdev_list_xmit P fuel (NB a) (in_windows a ?b e n o4 ?E (ip_bytes ?h) ?t w)) (\<lambda>(_, w). Ok (True, w))"
    using f h b(3) mac len ours dev unfolding mac_def my_def
    by (simp add: icmp_echo_def get_ip_hdr_def get_icmp_hdr_def icmp_len_def offs IP4_LEN_def ETH_MAC_LEN_def load_nb_NB[OF in_windows_buf]
      window_simps swap_simps[OF P] echo_hdr_def ip_sealed_def echo_data_def le16_consts Let_def)
  show ?thesis using fr run unfolding in_windows_start[OF b(1) v] by (auto simp: in_windows_def mac_def my_def)
qed

lemma echo_data_parts:
  assumes "4 \<le> length t"
  shows "echo_data t ! 0 = ICMP_ECHO_REPLY" "echo_data t ! 1 = t ! 1" "drop 4 (echo_data t) = drop 4 t"
  using assms by (auto simp: echo_data_def Let_def upd_def nth_append intro!: nth_equalityI)

text \<open>The tests of the handler.\<close>

definition ip_unicast :: "bytes \<Rightarrow> bool" where
  "ip_unicast ip \<longleftrightarrow> addr_class (ip ! 0) \<noteq> 3 \<and> ip \<noteq> [255, 255, 255, 255]"

lemma un32_eq_iff: "length x = 4 \<Longrightarrow> length y = 4 \<Longrightarrow> un32 x = un32 y \<longleftrightarrow> x = y"
  by (metis le32_un32)

lemma ip_unicast_tests:
  assumes "swaps_ok P" "length ip = 4"
  shows "\<exists>mc bc. ip4_is_multicast ip = Ok mc \<and> ip4_is_broadcast P ip = Ok bc \<and> (ip_unicast ip \<longleftrightarrow> \<not> (mc \<or> bc))"
proof -
  have "bslice 0 1 ip ! 0 = ip ! 0" using assms(2) by (simp add: bslice_def)
  moreover have "swap32 INADDR_BROADCAST = un32 ([255, 255, 255, 255])"
    unfolding INADDR_BROADCAST_def by code_simp
  then have "un32 ip = htonl P INADDR_BROADCAST \<longleftrightarrow> ip = [255, 255, 255, 255]"
    using assms by (simp add: swap_simps un32_eq_iff)
  ultimately show ?thesis
    using assms class_tests[of "ip ! 0"]
    by (simp add: ip4_is_multicast_def ip4_is_broadcast_def ip_unicast_def bslice_all Suc_le_eq)
qed

lemma icmp_recv_frame:
  assumes P: "swaps_ok P" and b: "nbs w a = Some b" "ip_frame b dst src type h t" "1 \<le> length t"
  shows "icmp_recv P fuel (NB a) w =
    (if ip_unicast (ih_dst h) \<and> chk t = 0 \<and> t ! 0 = ICMP_ECHO_REQ
     then bnd (icmp_echo P fuel (NB a) w) (\<lambda>(ret, w). if ret then Ok (NETDEV_RX_SUCCESS, w) else drop_nb (NB a) w)
     else Ok (NETDEV_RX_DROP, freed a w))"
proof -
  define e n o4 where "e = unat (nb_mac_hdr_offset b)" and "n = unat (nb_network_hdr_offset b)"
    and "o4 = unat (nb_transport_hdr_offset b)"
  note offs = e_def[symmetric] n_def[symmetric] o4_def[symmetric]
  have h: "ip_ok h" "ih_ihl h = 5" "unat (ih_tot_len h) = 20 + length t"
    and v: "view e n o4 (nb_mem b) (eth_bytes dst src type) (ip_bytes h) t"
    using b(2) by (simp_all add: ip_frame_def offs)
  have t0: "bslice 0 (Suc 0) t ! 0 = t ! 0" using b(3) by (simp add: bslice_def)
  have len: "icmp_len P (NB a) n w = Ok (ih_tot_len h - 20)"
    using h by (simp add: icmp_len_def view_loads(2)[OF b(1) v] ip_fields swap_simps[OF P])
  have "unat (ih_tot_len h - 20) = length t" using h(3) by (simp add: unat_sub_if_size)
  then have c: "nb_checksum (NB a) o4 (ih_tot_len h - 20) w = Ok (chk t)" by (rule view_checksum(2)[OF b(1) v])
  obtain mc bc where mb: "ip4_is_multicast (ih_dst h) = Ok mc" "ip4_is_broadcast P (ih_dst h) = Ok bc"
    "ip_unicast (ih_dst h) \<longleftrightarrow> \<not> (mc \<or> bc)" using ip_unicast_tests[OF P, of "ih_dst h"] h(1) by auto
  have "ICMP_ECHO_REQ \<le> 18" by (simp add: ICMP_ECHO_REQ_def)
  then show ?thesis using b(3)
    by (simp add: icmp_recv_def load_nb_NB[OF b(1)] get_ip_hdr_def get_icmp_hdr_def offs view_loads[OF b(1) v] ip_fields h t0 mb len c
      drop_nb_freed[OF b(1)] Let_def linorder_not_le[symmetric])
qed

lemma icmp_echo_answer:
  assumes "swaps_ok P" "tx_driver P sent m K d k q" "tx_ready d k w" "2 * Suc K \<le> fuel"
    and "nbs w a = Some b" "ip_frame b dst src type h t" "nb_net_dev b = d" "nb_next b = NULLP" "eth_dev d w x"
    and "4 \<le> length t" "t ! 0 = ICMP_ECHO_REQ" "chk t = 0" "ip_unicast (ih_dst h)" "ih_dst h = le32 (my_ip w)"
  shows "\<exists>w' c h' t'. icmp_recv P fuel (NB a) w = Ok (NETDEV_RX_SUCCESS, w') \<and> sent (hw w') = sent (hw w) @ [c] \<and>
    ip_frame c src (nd_dev_addr x) type h' t' \<and>
    ih_src h' = ih_dst h \<and> ih_dst h' = ih_src h \<and> ih_ttl h' = ih_ttl h - 1 \<and> ih_protocol h' = ih_protocol h \<and>
    ih_tot_len h' = ih_tot_len h \<and> chk (ip_bytes h') = 0 \<and>
    t' ! 0 = ICMP_ECHO_REPLY \<and> t' ! 1 = t ! 1 \<and> drop 4 t' = drop 4 t \<and> length t' = length t \<and> chk t' = 0"
proof -
  let ?h = "echo_hdr (my_ip w) h"
  have x: "load_dev w (nb_net_dev b) = Ok x" "length (nd_dev_addr x) = 6"
    using assms(7,9) by (simp_all add: eth_dev_def mac_ok_def load_dev_def)
  obtain v where v: "icmp_echo P fuel (NB a) w = bnd (netdev_list_xmit P fuel (NB a)
      (w\<lparr>nbs := (nbs w)(a \<mapsto> b\<lparr>nb_pkt_len := nb_pkt_len b - 4, nb_mem := v\<rparr>)\<rparr>)) (\<lambda>(_, w). Ok (True, w))"
    "ip_frame (b\<lparr>nb_pkt_len := nb_pkt_len b - 4, nb_mem := v\<rparr>) src (nd_dev_addr x) type ?h (echo_data t)"
    using icmp_echo_frame[OF assms(1,5,6,10) x assms(14)] by blast
  let ?b = "b\<lparr>nb_pkt_len := nb_pkt_len b - 4, nb_mem := v\<rparr>" and ?w = "w\<lparr>nbs := (nbs w)(a \<mapsto> b\<lparr>nb_pkt_len := nb_pkt_len b - 4, nb_mem := v\<rparr>)\<rparr>"
  have w: "tx_ready d k ?w" "nbs ?w a = Some ?b" "nb_net_dev ?b = d" "nb_next ?b = NULLP"
    using assms(3,7,8) by (simp_all add: tx_ready_def)
  obtain r w' where w': "netdev_list_xmit P fuel (NB a) ?w = Ok (r, w')" "sent (hw w') = sent (hw w) @ [?b]"
    using netdev_list_xmit_one[OF assms(2) w assms(4)] by auto
  have h: "ip_ok h" using assms(6) by (simp add: ip_frame_def)
  have "icmp_recv P fuel (NB a) w = Ok (NETDEV_RX_SUCCESS, w')"
    using icmp_recv_frame[OF assms(1,5,6), of fuel] assms(10-13) v(1) w'(1) by simp
  moreover have "chk (ip_bytes ?h) = 0" unfolding echo_hdr_def
    by (rule ip_sealed_chk) (use h in \<open>simp add: ip_ok_def del: ip_okD\<close>)
  ultimately show ?thesis
    using w'(2) v(2) h assms(10,14) echo_data_chk[OF assms(10)] echo_data_parts[OF assms(10)]
    by (intro exI[of _ w'] exI[of _ ?b] exI[of _ ?h] exI[of _ "echo_data t"]) simp
qed

text \<open>The checksum of a message that does not lie in the buffer.\<close>

lemma icmp_overread:
  assumes "swaps_ok P" "nbs w a = Some b" "ip_at b h"
    and "unat (nb_pkt_type b) \<noteq> PKT_OTHERHOST" "ih_version h = 4" "ih_ihl h = 5" "chk (ip_bytes h) = 0"
    and "\<not> len_refused (ih_tot_len h)" "ih_tot_len h \<le> nb_pkt_len b" "ih_protocol h = IPPROTO_ICMP"
    and "ip_unicast (ih_dst h)" "unat (nb_network_hdr_offset b) = 14" "34 < length (nb_mem b)" "nb_mem b ! 34 \<le> 18"
    and "length (nb_mem b) < 34 + unat (ih_tot_len h - 20)" "ipp_icmp (ip_proto_ops w) = Some H_icmp_recv"
    and "call H_icmp_recv = icmp_recv P fuel"
  shows "ip_recv P call (NB a) w = Fault Out_of_bounds"
proof -
  let ?b = "b\<lparr>nb_transport_hdr_offset := nb_network_hdr_offset b + 20\<rparr>"
  let ?w = "w\<lparr>nbs := (nbs w)(a \<mapsto> ?b)\<rparr>"
  have h: "ip_ok h" and m: "bslice 14 20 (nb_mem b) = ip_bytes h"
    using assms(3,12) by (simp_all add: ip_at_def Let_def)
  have "nb_network_hdr_offset b = 14" using assms(12) by (simp add: word_unat_eq_iff)
  then have o4: "unat (nb_transport_hdr_offset ?b) = 34" by simp
  have "ip_recv P call (NB a) w = icmp_recv P fuel (NB a) ?w"
    using ip_recv_cases[OF assms(1-3), of call] assms(4-10,16,17)
    by (simp add: ip_valid_def ip_proto_handler_def)
  also have "\<dots> = Fault Out_of_bounds"
  proof -
    have fld: "nb_rd (NB a) (14 + k) l ?w = Ok (bslice k l (ip_bytes h))" if "k + l \<le> 20" for k l
      using that assms(13) by (simp add: nb_rd_NB m[symmetric] bslice_bslice)
    have dst: "nb_rd (NB a) 30 4 ?w = Ok (ih_dst h)" using fld[of 16 4] h by (simp add: ip_fields)
    have len: "icmp_len P (NB a) 14 ?w = Ok (ih_tot_len h - 20)"
      using fld[of 2 2] fld[of 0 "Suc 0"] h assms(1,6) by (simp add: icmp_len_def ip_fields swap_simps)
    have t0: "nb_rd (NB a) 34 (Suc 0) ?w = Ok (bslice 34 (Suc 0) (nb_mem b))" "bslice 34 (Suc 0) (nb_mem b) ! 0 = nb_mem b ! 34"
      using assms(13) by (simp_all add: nb_rd_NB bslice_def)
    obtain mc bc where mb: "ip4_is_multicast (ih_dst h) = Ok mc" "ip4_is_broadcast P (ih_dst h) = Ok bc" "\<not> (mc \<or> bc)"
      using ip_unicast_tests[OF assms(1), of "ih_dst h"] assms(11) h by auto
    have "nb_checksum (NB a) 34 (ih_tot_len h - 20) ?w = Fault Out_of_bounds"
      using assms(13,15) in_checksum_fault[of "ih_tot_len h - 20" "nb_mem b" 34]
      by (simp add: nb_checksum_def load_nb_NB word_less_nat_alt)
    moreover have "\<not> 18 < nb_mem b ! 34" using assms(14) by simp
    ultimately show ?thesis
      unfolding icmp_recv_def using o4
      by (simp add: load_nb_NB get_ip_hdr_def get_icmp_hdr_def assms(12) t0 dst len mb Let_def)
  qed
  finally show ?thesis .
qed

section \<open>Properties\<close>

text \<open>C11: a valid echo request for this host is answered.  The handler hands exactly one frame to the
  driver: sent back to the hardware address it came from, with the IP addresses exchanged, the time to
  live decremented and a header checksum that verifies; an echo reply with the code, the identifier,
  the sequence number and the data of the request and a checksum that verifies.\<close>

theorem icmp_echo_replies:
  assumes "swaps_ok P" "tx_driver P sent m K d k q" "tx_ready d k w" "2 * Suc K \<le> fuel"
    and "nbs w a = Some b" "ip_frame b dst src type h t" "nb_net_dev b = d" "nb_next b = NULLP" "eth_dev d w x"
    and "4 \<le> length t" "t ! 0 = ICMP_ECHO_REQ" "chk t = 0" "ip_unicast (ih_dst h)" "ih_dst h = le32 (my_ip w)"
  shows "\<exists>w' c h' t'. icmp_recv P fuel (NB a) w = Ok (NETDEV_RX_SUCCESS, w') \<and> sent (hw w') = sent (hw w) @ [c] \<and>
    ip_frame c src (nd_dev_addr x) type h' t' \<and>
    ih_src h' = ih_dst h \<and> ih_dst h' = ih_src h \<and> ih_ttl h' = ih_ttl h - 1 \<and> ih_protocol h' = ih_protocol h \<and>
    ih_tot_len h' = ih_tot_len h \<and> chk (ip_bytes h') = 0 \<and>
    t' ! 0 = ICMP_ECHO_REPLY \<and> t' ! 1 = t ! 1 \<and> drop 4 t' = drop 4 t \<and> length t' = length t \<and> chk t' = 0"
  by (rule icmp_echo_answer[OF assms])

definition demo_echo :: bytes where
  "demo_echo = upd 2 (le16 (chk (upd 2 [0, 0] [8, 0, 0, 0, 0, 7, 0, 1, 0x61]))) [8, 0, 0, 0, 0, 7, 0, 1, 0x61]"

lemma demo_echo_sel [simp]: "length demo_echo = 9" "demo_echo ! 0 = ICMP_ECHO_REQ" "chk demo_echo = 0"
  "drop 4 demo_echo = [0, 7, 0, 1, 0x61]"
proof -
  show "chk demo_echo = 0" unfolding demo_echo_def by (rule ic.seal_verifies) simp_all
  show "length demo_echo = 9" by (simp add: demo_echo_def)
  show "demo_echo ! 0 = ICMP_ECHO_REQ" "drop 4 demo_echo = [0, 7, 0, 1, 0x61]"
    by (simp_all add: demo_echo_def upd_def le16_def ICMP_ECHO_REQ_def)
qed

lemma demo_unicast [simp]: "ip_unicast [10, 0, 0, x]"
  by (simp add: ip_unicast_def addr_class_def)

definition demo_icmp_nb :: "ip_hdr \<Rightarrow> bytes \<Rightarrow> net_buff" where
  "demo_icmp_nb h t = (demo_ip_nb h t)\<lparr>nb_transport_hdr_offset := 34\<rparr>"

lemma demo_icmp_nb_frame [simp]:
  "ip_ok h \<Longrightarrow> ih_ihl h = 5 \<Longrightarrow> unat (ih_tot_len h) = 20 + length t \<Longrightarrow>
     ip_frame (demo_icmp_nb h t) [2, 0, 0, 0, 0, 1] [2, 0, 0, 0, 0, 9] ETH_P_IP h t"
  by (simp add: ip_frame_def demo_icmp_nb_def demo_ip_nb_def view_def bslice_def)

lemma demo_icmp_nb_sel [simp]:
  "nb_net_dev (demo_icmp_nb h t) = 1" "nb_next (demo_icmp_nb h t) = NULLP"
  by (simp_all add: demo_icmp_nb_def demo_ip_nb_def)

theorem icmp_echo_replies_witness:
  "\<exists>w' c h' t'. icmp_recv (demo_platform 1) 8 (NB 5) (demo_ip_world 0x0200000A
      [5 \<mapsto> demo_icmp_nb (ip_out IPPROTO_ICMP 29 [10, 0, 0, 1] [10, 0, 0, 2]) demo_echo]) = Ok (NETDEV_RX_SUCCESS, w') \<and>
    demo_log (hw w') = [c] \<and> ip_frame c [2, 0, 0, 0, 0, 9] [2, 0, 0, 0, 0, 1] ETH_P_IP h' t' \<and>
    drop 4 t' = [0, 7, 0, 1, 0x61]"
proof -
  let ?h = "ip_out IPPROTO_ICMP 29 [10, 0, 0, 1] [10, 0, 0, 2]"
  let ?w = "demo_ip_world 0x0200000A [5 \<mapsto> demo_icmp_nb ?h demo_echo]"
  have w: "nbs ?w 5 = Some (demo_icmp_nb ?h demo_echo)"
    "ip_frame (demo_icmp_nb ?h demo_echo) [2, 0, 0, 0, 0, 1] [2, 0, 0, 0, 0, 9] ETH_P_IP ?h demo_echo"
    "tx_ready 1 1 ?w" "eth_dev 1 ?w demo_dev" "ih_dst ?h = le32 (my_ip ?w)" "ip_unicast (ih_dst ?h)"
    by (simp_all add: le32_demo)
  show ?thesis
    using icmp_echo_replies[OF demo_swaps_ok demo_tx_driver[of 1 1 "QVAR 0"] w(3) _ w(1,2) _ _ w(4) _ _ _ w(6) w(5), of 8]
    by auto
qed

text \<open>An echo request for another host is neither answered nor freed.  The handler reports success
  and leaves everything as it was, so the buffer is lost: \<open>icmp_echo\<close> returns \<open>NETDEV_RX_DROP\<close>, which as
  a truth value means that the buffer has been used.\<close>

theorem icmp_echo_not_ours_leaks:
  assumes "swaps_ok P" "nbs w a = Some b" "ip_frame b dst src type h t" "1 \<le> length t" "t ! 0 = ICMP_ECHO_REQ"
    "chk t = 0" "ip_unicast (ih_dst h)" "ih_dst h \<noteq> le32 (my_ip w)"
  shows "icmp_recv P fuel (NB a) w = Ok (NETDEV_RX_SUCCESS, w)"
proof -
  have h: "ip_ok h" and v: "view (unat (nb_mac_hdr_offset b)) (unat (nb_network_hdr_offset b))
      (unat (nb_transport_hdr_offset b)) (nb_mem b) (eth_bytes dst src type) (ip_bytes h) t"
    using assms(3) by (simp_all add: ip_frame_def)
  have "nb_rd (NB a) (unat (nb_network_hdr_offset b) + 16) 4 w = Ok (ih_dst h)"
    using h by (simp add: view_loads(2)[OF assms(2) v] ip_fields)
  moreover have "un32 (ih_dst h) \<noteq> my_ip w" using assms(8) h by (metis ip_okD(2) le32_un32)
  ultimately have "icmp_echo P fuel (NB a) w = Ok (True, w)"
    by (simp add: icmp_echo_def load_nb_NB[OF assms(2)] get_ip_hdr_def NETDEV_RX_DROP_def Let_def)
  then show ?thesis using icmp_recv_frame[OF assms(1-4), of fuel] assms(5-7) by simp
qed

theorem icmp_echo_not_ours_leaks_witness:
  "\<exists>w'. icmp_recv (demo_platform 1) 8 (NB 5) (demo_ip_world 0x0200000A
      [5 \<mapsto> demo_icmp_nb (ip_out IPPROTO_ICMP 29 [10, 0, 0, 1] [10, 0, 0, 3]) demo_echo]) = Ok (NETDEV_RX_SUCCESS, w') \<and>
    nbs w' 5 \<noteq> None"
proof -
  let ?h = "ip_out IPPROTO_ICMP 29 [10, 0, 0, 1] [10, 0, 0, 3]"
  let ?w = "demo_ip_world 0x0200000A [5 \<mapsto> demo_icmp_nb ?h demo_echo]"
  have w: "nbs ?w 5 = Some (demo_icmp_nb ?h demo_echo)"
    "ip_frame (demo_icmp_nb ?h demo_echo) [2, 0, 0, 0, 0, 1] [2, 0, 0, 0, 0, 9] ETH_P_IP ?h demo_echo"
    "ih_dst ?h \<noteq> le32 (my_ip ?w)" "ip_unicast (ih_dst ?h)"
    by (simp_all add: le32_demo)
  show ?thesis
    using icmp_echo_not_ours_leaks[OF demo_swaps_ok w(1,2) _ _ _ w(4) w(3)] by simp
qed

text \<open>C40: \<open>icmp_recv\<close> trusts the total length.  Take an ICMP packet that passes the checks of \<open>ip_recv\<close>, goes to a unicast
  address and has a type of at most 18 (so that \<open>icmp_recv\<close> does not drop it first).  If its total length is less than
  its header, so that the message length wraps around, or reaches beyond the end of the buffer, then the checksum runs
  out of the bounds of the buffer.  Such packets pass, because \<open>ip_recv\<close> compares the total length with \<open>pkt_len\<close>,
  which counts the link header as well.\<close>

theorem icmp_message_overread:
  assumes "swaps_ok P" "nbs w a = Some b" "ip_at b h"
    and "unat (nb_pkt_type b) \<noteq> PKT_OTHERHOST" "ih_version h = 4" "ih_ihl h = 5" "chk (ip_bytes h) = 0"
    and "\<not> len_refused (ih_tot_len h)" "ih_tot_len h \<le> nb_pkt_len b" "ih_protocol h = IPPROTO_ICMP"
    and "ip_unicast (ih_dst h)" "unat (nb_network_hdr_offset b) = 14" "34 < length (nb_mem b)" "nb_mem b ! 34 \<le> 18"
    and "unat (ih_tot_len h) < 20 \<or> length (nb_mem b) < 14 + unat (ih_tot_len h)" "length (nb_mem b) < 65536"
    and "ipp_icmp (ip_proto_ops w) = Some H_icmp_recv" "call H_icmp_recv = icmp_recv P fuel"
  shows "ip_recv P call (NB a) w = Fault Out_of_bounds"
proof -
  have "length (nb_mem b) < 34 + unat (ih_tot_len h - 20)"
    using assms(15,16) by (auto simp: unat_sub_if_size word_le_nat_alt word_size)
  from icmp_overread[where call = call and P = P and fuel = fuel, OF assms(1-14) this assms(17,18)] show ?thesis .
qed

theorem icmp_message_overread_witness:
  "ip_recv (demo_platform 1 :: (demo_hw, unit) ip_world_scheme platform) (\<lambda>_. icmp_recv (demo_platform 1) 8) (NB 5) (icmp_init (demo_ip_world 0x0200000A
      [5 \<mapsto> demo_ip_nb (ip_out IPPROTO_ICMP 38 [10, 0, 0, 1] [10, 0, 0, 2]) [8, 0, 0, 0]])) = Fault Out_of_bounds"
proof -
  let ?h = "ip_out IPPROTO_ICMP 38 [10, 0, 0, 1] [10, 0, 0, 2]"
  let ?b = "demo_ip_nb ?h [8, 0, 0, 0]"
  let ?w = "icmp_init (demo_ip_world 0x0200000A [5 \<mapsto> ?b])"
  have w: "nbs ?w 5 = Some ?b" "ip_at ?b ?h" "ipp_icmp (ip_proto_ops ?w) = Some H_icmp_recv"
    by (simp_all add: icmp_init_def) (simp add: ip_proto_handler_add_def)
  have m: "length (nb_mem ?b) = 38" "nb_mem ?b ! 34 = 8"
    by (simp_all add: demo_ip_nb_def nth_append)
  have l: "\<not> len_refused (38 :: uint16_t)" by (simp add: len_refused_iff)
  show ?thesis
    by (rule icmp_message_overread[where call = "\<lambda>_. icmp_recv (demo_platform 1) 8", OF demo_swaps_ok w(1,2) _ _ _ _ _ _ _ _ _ _ _ _ _ w(3) refl])
      (simp_all add: m l PKT_OTHERHOST_def)
qed

text \<open>The packets with a positive total length shorter than their header.\<close>

theorem icmp_short_length_overread:
  assumes "swaps_ok P" "nbs w a = Some b" "ip_at b h"
    and "unat (nb_pkt_type b) \<noteq> PKT_OTHERHOST" "ih_version h = 4" "ih_ihl h = 5" "chk (ip_bytes h) = 0"
    and "0 < ih_tot_len h" "unat (ih_tot_len h) < 20" "ih_tot_len h \<le> nb_pkt_len b" "ih_protocol h = IPPROTO_ICMP"
    and "ip_unicast (ih_dst h)" "unat (nb_network_hdr_offset b) = 14" "34 < length (nb_mem b)" "nb_mem b ! 34 \<le> 18"
    and "length (nb_mem b) < 65000" "ipp_icmp (ip_proto_ops w) = Some H_icmp_recv"
    and "call H_icmp_recv = icmp_recv P fuel"
  shows "ip_recv P call (NB a) w = Fault Out_of_bounds"
proof -
  have "unat (ih_tot_len h - 20) = 65536 + unat (ih_tot_len h) - 20"
    using assms(9) by (simp add: unat_sub_if_size word_le_nat_alt word_size)
  moreover have "0 < unat (ih_tot_len h)" using assms(8) by (simp add: word_less_nat_alt)
  ultimately have "length (nb_mem b) < 34 + unat (ih_tot_len h - 20)" using assms(16) by linarith
  moreover have "\<not> len_refused (ih_tot_len h)"
    using assms(8,9) unfolding len_refused_iff by (auto simp: word_less_nat_alt)
  ultimately show ?thesis
    using icmp_overread[where call = call and P = P and fuel = fuel, OF assms(1-7) _ assms(10-15) _ assms(17,18)] by blast
qed

theorem icmp_short_length_overread_witness:
  "ip_recv (demo_platform 1 :: (demo_hw, unit) ip_world_scheme platform) (\<lambda>_. icmp_recv (demo_platform 1) 8) (NB 5) (icmp_init (demo_ip_world 0x0200000A
      [5 \<mapsto> demo_ip_nb (ip_out IPPROTO_ICMP 10 [10, 0, 0, 1] [10, 0, 0, 2]) [8, 0, 0, 0]])) = Fault Out_of_bounds"
proof -
  let ?h = "ip_out IPPROTO_ICMP 10 [10, 0, 0, 1] [10, 0, 0, 2]"
  let ?b = "demo_ip_nb ?h [8, 0, 0, 0]"
  let ?w = "icmp_init (demo_ip_world 0x0200000A [5 \<mapsto> ?b])"
  have w: "nbs ?w 5 = Some ?b" "ip_at ?b ?h" "ipp_icmp (ip_proto_ops ?w) = Some H_icmp_recv"
    by (simp_all add: icmp_init_def) (simp add: ip_proto_handler_add_def)
  have m: "length (nb_mem ?b) = 38" "nb_mem ?b ! 34 = 8"
    by (simp_all add: demo_ip_nb_def nth_append)
  show ?thesis
    by (rule icmp_short_length_overread[where call = "\<lambda>_. icmp_recv (demo_platform 1) 8", OF demo_swaps_ok w(1,2) _ _ _ _ _ _ _ _ _ _ _ _ _ w(3) refl])
      (simp_all add: m PKT_OTHERHOST_def)
qed

text \<open>\<open>icmp_hdr_create\<close> builds a message only when there is no data.  With data, at most 56 bytes of
  it, the bytes behind the header stay what they were, a checksum over them is computed and reported
  as good, and the data lands 64 bytes behind the start of the header; when the buffer is not that
  long the copy leaves it.\<close>

theorem icmp_hdr_create_misplaces:
  assumes "nbs w a = Some b" "unat (nb_transport_hdr_offset b) = k" "data \<noteq> []" "length data \<le> 56"
    "unat data_len = length data" "k + 8 + length data \<le> length (nb_mem b)"
  shows "if k + 64 + length data \<le> length (nb_mem b)
    then \<exists>w' c. icmp_hdr_create P (NB a) type code hdr data data_len w = Ok (0, w') \<and> nbs w' a = Some c \<and>
      nb_mem c ! k = type \<and> bslice (k + 8) (length data) (nb_mem c) = bslice (k + 8) (length data) (nb_mem b) \<and>
      bslice (k + 64) (length data) (nb_mem c) = data \<and> chk (bslice k (8 + length data) (nb_mem c)) = 0
    else icmp_hdr_create P (NB a) type code hdr data data_len w = Fault Out_of_bounds"
proof -
  let ?m = "upd (k + 4) (le32 (htonl P hdr)) (upd (k + 1) [code] (upd k [type] (nb_mem b)))"
  have rd: "rd 0 (length data) data = Ok data" by (simp add: bslice_all)
  have cnt: "unat (of_nat ICMP_HDR_SIZE + data_len) = 8 + length data"
    using assms(4,5) by (simp add: ICMP_HDR_SIZE_def unat_word_ariths)
  have size64: "ICMP_HDR_SIZE * ICMP_HDR_SIZE = 64" by (simp add: ICMP_HDR_SIZE_def)
  note head = icmp_hdr_create_def load_nb_NB nb_wr_NB get_icmp_hdr_def assms(2,3,5) rd Let_def
  show ?thesis
  proof (cases "k + 64 + length data \<le> length (nb_mem b)")
    case True
    define m2 where "m2 = upd (k + 2) [0, 0] (upd (k + 64) data ?m)"
    define c where "c = chk (bslice k (8 + length data) m2)"
    define m3 where "m3 = upd (k + 2) (le16 c) m2"
    have len: "length m2 = length (nb_mem b)" "length m3 = length (nb_mem b)"
      using True by (simp_all add: m2_def m3_def)
    have win: "bslice k (8 + length data) m3 = upd 2 (le16 c) (bslice k (8 + length data) m2)"
      "bslice k (8 + length data) m2 = upd 2 [0, 0] (bslice k (8 + length data) (upd (k + 64) data ?m))"
      using assms(6) True len unfolding m3_def m2_def by (simp_all add: bslice_upd_window)
    have z: "chk (bslice k (8 + length data) m3) = 0"
      using ic.seal_verifies[of 2 "bslice k (8 + length data) (upd (k + 64) data ?m)"] assms(6) True
      unfolding win(1) c_def unfolding win(2) by (simp add: upd_upd_same)
    have "nb_checksum (NB a) k (of_nat ICMP_HDR_SIZE + data_len) (w\<lparr>nbs := (nbs w)(a \<mapsto> b\<lparr>nb_mem := m\<rparr>)\<rparr>) =
        Ok (chk (bslice k (8 + length data) m))" if "length m = length (nb_mem b)" for m
      using that assms(6) cnt by (simp add: nb_checksum_def load_nb_NB in_checksum_eq_chk)
    note chks = this[OF len(1)] this[OF len(2)]
    have run: "icmp_hdr_create P (NB a) type code hdr data data_len w = Ok (0, w\<lparr>nbs := (nbs w)(a \<mapsto> b\<lparr>nb_mem := m3\<rparr>)\<rparr>)"
      using True assms(1) len by (simp add: head size64 le16_consts(1) m2_def[symmetric]
        chks z c_def[symmetric] m3_def[symmetric] del: add_2_eq_Suc' One_nat_def)
    have "m3 ! k = type" "bslice (k + 8) (length data) m3 = bslice (k + 8) (length data) (nb_mem b)"
      "bslice (k + 64) (length data) m3 = data"
      using True assms(4,6) by (simp_all add: m3_def m2_def nth_upd mem_simps)
    then show ?thesis using True run z by auto
  next
    case False
    then have "nb_wr (NB a) (k + 64) data (w\<lparr>nbs := (nbs w)(a \<mapsto> b\<lparr>nb_mem := ?m\<rparr>)\<rparr>) = Fault Out_of_bounds"
      using assms(6) by (simp add: nb_wr_def load_nb_NB wr_def)
    then show ?thesis using False assms(1,6)
      by (simp add: head size64 del: add_2_eq_Suc' One_nat_def)
  qed
qed

theorem icmp_hdr_create_misplaces_witness:
  "icmp_hdr_create avr_swaps (NB 5) 8 0 7 [1, 2] 2 (demo_ip_world 0 [5 \<mapsto> demo_nb (replicate 10 0)]) = Fault Out_of_bounds"
  using icmp_hdr_create_misplaces[of "demo_ip_world 0 [5 \<mapsto> demo_nb (replicate 10 0)]" 5 "demo_nb (replicate 10 0)" 0
    "[1, 2]" 2 avr_swaps 8 0 7] by (simp add: demo_nb_def)

end
