(* ===== verification/Sock_State.thy ===== *)
theory Sock_State
  imports Icmp
begin

text \<open>
  The data of the socket layer (\<open>net/socket.h\<close>, \<open>net/uio.h\<close>, \<open>netinet/in.h\<close>): sockets, messages and
  addresses, and the world with the socket heap.  The two queues of socket \<open>a\<close> are the queues \<open>TXQ a\<close>
  and \<open>RXQ a\<close> of the buffer heap.  A socket names its table of protocol operations, which lies in
  program memory, by a value of \<open>sock_ops\<close>.
\<close>

datatype sock_ops = Inet_stream_ops | Inet_dgram_ops

record socket =
  sk_state :: "4 word"
  sk_type :: "4 word"
  sk_p_ops :: "sock_ops option"
  sk_dst_addr :: uint32_t
  sk_src_addr :: uint32_t
  sk_dst_port :: uint16_t
  sk_src_port :: uint16_t
  sk_hash :: uint32_t
  sk_protocol :: uint8_t
  sk_prev :: addr
  sk_next :: addr

record 'h sock_world = "'h ip_world" +
  socks :: "addr \<Rightarrow> socket option"
  socket_list :: addr
  inet_port :: uint16_t

record sockaddr_in =
  sin_family :: uint8_t
  sin_port :: uint16_t
  sin_addr :: uint32_t

text \<open>A buffer of the application is the block of bytes that its pointer points to.\<close>

record iovec =
  iov_base :: bytes
  iov_len :: uint16_t

record msghdr =
  msg_name :: "sockaddr_in option"
  msg_namelen :: uint8_t
  msg_iov :: "iovec option"
  msg_flags :: uint8_t

definition iovec_import :: "bytes \<Rightarrow> uint16_t \<Rightarrow> iovec" where
  "iovec_import buf len = \<lparr>iov_base = buf, iov_len = len\<rparr>"

definition AF_UNSPEC :: uint8_t where "AF_UNSPEC = 0"
definition AF_INET :: uint8_t where "AF_INET = 1"
definition AF_MAX :: uint8_t where "AF_MAX = 2"
definition SS_FREE :: "4 word" where "SS_FREE = 0"
definition SS_UNCONNECTED :: "4 word" where "SS_UNCONNECTED = 1"
definition SOCK_STREAM :: uint8_t where "SOCK_STREAM = 1"
definition SOCK_DGRAM :: uint8_t where "SOCK_DGRAM = 2"
definition SOCK_MAX :: uint8_t where "SOCK_MAX = 3"
definition MSG_OOB :: uint8_t where "MSG_OOB = 8"
definition SOCKADDR_IN_SIZE :: uint8_t where "SOCKADDR_IN_SIZE = 7"

section \<open>Access through a pointer\<close>

definition load_sk :: "('h, 'w) sock_world_scheme \<Rightarrow> addr \<Rightarrow> socket res" where
  "load_sk w s = (if s = 0 then Fault Null_deref
     else case socks w s of None \<Rightarrow> Fault Dangling | Some k \<Rightarrow> Ok k)"

definition upd_sk :: "addr \<Rightarrow> (socket \<Rightarrow> socket) \<Rightarrow> ('h, 'w) sock_world_scheme \<Rightarrow> ('h, 'w) sock_world_scheme res" where
  "upd_sk s f w = bnd (load_sk w s) (\<lambda>k. Ok (w\<lparr>socks := (socks w)(s \<mapsto> f k)\<rparr>))"

named_theorems sk_simps \<open>loads and stores of sockets\<close>

lemma load_sk_Some [sk_simps]: "s \<noteq> 0 \<Longrightarrow> socks w s = Some k \<Longrightarrow> load_sk w s = Ok k"
  by (simp add: load_sk_def)

lemma load_sk_Ok_iff: "load_sk w s = Ok k \<longleftrightarrow> s \<noteq> 0 \<and> socks w s = Some k"
  by (auto simp: load_sk_def split: option.splits)

lemma upd_sk_Some [sk_simps]:
  "s \<noteq> 0 \<Longrightarrow> socks w s = Some k \<Longrightarrow> upd_sk s f w = Ok (w\<lparr>socks := (socks w)(s \<mapsto> f k)\<rparr>)"
  by (simp add: upd_sk_def load_sk_Some)

lemma load_sk_nbs [simp]: "load_sk (w\<lparr>nbs := m\<rparr>) s = load_sk w s"
  by (simp add: load_sk_def)

lemma alloc_ok_socks [simp]: "alloc_ok (w\<lparr>socks := s\<rparr>) = alloc_ok w"
  by (simp add: alloc_ok_def split: list.split)

text \<open>What an operation on the buffer heap leaves alone.\<close>

lemma sock_world_more:
  assumes "ip_world.more w = ip_world.more (w0 :: ('h, 'w) sock_world_scheme)"
  shows "socks w = socks w0" "socket_list w = socket_list w0" "inet_port w = inet_port w0"
    "sock_world.more w = sock_world.more w0"
  using assms by (cases w; cases w0; simp)+

lemmas nb_more_sock = sock_world_more[OF ip_world_more(8)[OF more_dev_world(5)]]

end
