(* ===== verification/Ip_Send.thy ===== *)
theory Ip_Send
  imports Sock_State
begin

text \<open>
  Sending over IP (\<open>ip_create_nb\<close> and \<open>ip_send_sock\<close> of \<open>netinet/ip.c\<close>): building the frame for a
  message of a socket, and transmitting the queue of the socket.
\<close>

section \<open>The code\<close>

text \<open>Assignments to the two bit fields of the first byte of the header.\<close>

definition nb_bits :: "nbp \<Rightarrow> nat \<Rightarrow> (uint8_t \<Rightarrow> uint8_t) \<Rightarrow> 'w nb_world_scheme \<Rightarrow> 'w nb_world_scheme res" where
  "nb_bits nb off f w = bnd (nb_rd nb off 1 w) (\<lambda>b. nb_wr nb off [f (b ! 0)] w)"

definition ip_create_nb :: "('h, 'w) sock_world_scheme platform \<Rightarrow> addr \<Rightarrow> msghdr \<Rightarrow> uint8_t \<Rightarrow> ssize_t \<Rightarrow>
    ('h, 'w) sock_world_scheme \<Rightarrow> (nbp \<times> ('h, 'w) sock_world_scheme) res" where
  "ip_create_nb P sk msg t_hdr_len len w =
     (let pkt_len = len + of_nat IP_HDR_SIZE + of_nat ETH_HDR_LEN; ndev = curr_net_dev w in
      bnd (upd_sk sk (\<lambda>k. k\<lparr>sk_src_addr := my_ip w\<rparr>) w) (\<lambda>w.
      let (nb, w) = ndev_alloc_net_buff ndev pkt_len w in
      if nb = NULLP then Ok (nb, w) else
      bnd (nb_upd nb (\<lambda>b. b\<lparr>nb_protocol := ETH_P_IP, nb_tail := nb_tail b + ETH_HDR_LEN,
             nb_transport_hdr_offset := nb_network_hdr_offset b + of_nat IP_HDR_SIZE\<rparr>) w) (\<lambda>w.
      bnd (load_dev w ndev) (\<lambda>x.
      bnd (netdev_hdr_create P nb ndev ETH_P_IP (Some (nd_broadcast x)) (Some (nd_dev_addr x)) pkt_len w) (\<lambda>(err, w).
      if err \<noteq> 0 then bnd (free_net_buff nb w) (\<lambda>w. Ok (NULLP, w)) else
      bnd (put_net_buff nb (of_nat IP_HDR_SIZE) w) (\<lambda>(iph, w).
      bnd (nb_bits nb iph (set_version 4) w) (\<lambda>w.
      bnd (nb_bits nb iph (set_ihl 5) w) (\<lambda>w.
      bnd (nb_wr nb (iph + iph_tos) [0] w) (\<lambda>w.
      bnd (nb_wr nb (iph + iph_tot_len) (le16 (htons P (len + of_nat IP_HDR_SIZE))) w) (\<lambda>w.
      bnd (nb_wr nb (iph + iph_id) (le16 0) w) (\<lambda>w.
      bnd (nb_wr nb (iph + iph_frag_off) (le16 (htons P IP_DF)) w) (\<lambda>w.
      bnd (nb_wr nb (iph + iph_ttl) [64] w) (\<lambda>w.
      bnd (load_sk w sk) (\<lambda>k.
      bnd (nb_wr nb (iph + iph_protocol) [sk_protocol k] w) (\<lambda>w.
      bnd (nb_wr nb (iph + iph_ip_src) (le32 (sk_src_addr k)) w) (\<lambda>w.
      bnd (nb_wr nb (iph + iph_ip_dst) (le32 (sk_dst_addr k)) w) (\<lambda>w.
      bnd (nb_wr nb (iph + iph_hdr_chks) (le16 0) w) (\<lambda>w.
      bnd (nb_rd nb iph 1 w) (\<lambda>v.
      bnd (nb_checksum nb iph (of_nat (unat (get_ihl (v ! 0)) * 4)) w) (\<lambda>chks.
      bnd (nb_wr nb (iph + iph_hdr_chks) (le16 chks) w) (\<lambda>w.
      bnd (put_net_buff nb len w) (\<lambda>(data, w).
      (case msg_iov msg of None \<Rightarrow> Fault Null_deref
       | Some iov \<Rightarrow>
           bnd (rd 0 (unat (iov_len iov)) (iov_base iov)) (\<lambda>bs.
           bnd (nb_wr nb (data + unat t_hdr_len) bs w) (\<lambda>w.
           bnd (nb_enqueue nb (TXQ sk) w) (\<lambda>w.
           bnd (nb_upd nb (\<lambda>b. b\<lparr>nb_sock := sk\<rparr>) w) (\<lambda>w.
           Ok (nb, w))))))))))))))))))))))))))))"

definition ip_send_sock :: "('h, 'w) sock_world_scheme platform \<Rightarrow> nat \<Rightarrow> addr \<Rightarrow> ('h, 'w) sock_world_scheme \<Rightarrow>
    (int8_t \<times> ('h, 'w) sock_world_scheme) res" where
  "ip_send_sock P fuel sk w = netdev_queue_xmit P fuel (TXQ sk) w"

section \<open>Building the header\<close>

lemma ip_write:
  assumes "length N = 20" "length src = 4" "length dst = 4"
  shows "upd 10 (le16 c) (upd 16 dst (upd 12 src (upd 9 [proto] (upd 8 [64] (upd 6 (be16 IP_DF) (upd 4 (le16 0)
    (upd 2 (be16 tot) (upd (Suc 0) [0] (upd 0 [set_ihl 5 (set_version 4 x)] N))))))))) =
    ip_bytes ((ip_out proto tot src dst)\<lparr>ih_hdr_chks := c\<rparr>)"
proof -
  have v: "[set_ihl 5 (set_version 4 x)] = [0x45]" by (simp add: set_ver_ihl)
  have z: "be16 0 = le16 0" by code_simp
  have "upd 0 [0x45] N = [0x45] @ drop 1 N" by (simp add: upd_def)
  then have "upd 9 [proto] (upd 8 [64] (upd 6 (be16 IP_DF) (upd 4 (le16 0)
      (upd 2 (be16 tot) (upd 1 [0] (upd 0 [0x45] N)))))) =
    ([0x45, 0] @ be16 tot @ be16 0 @ be16 IP_DF @ [64, proto]) @ drop 10 N"
    using assms(1) by (simp add: upd_def z)
  then show ?thesis
    unfolding v using assms by (simp add: z upd_def ip_bytes_def ver_ihl_def ip_out_def ip_sealed_def)
qed

lemma ip_out_sealed: "ip_out proto tot src dst =
  (ip_out proto tot src dst)\<lparr>ih_hdr_chks := chk (ip_bytes ((ip_out proto tot src dst)\<lparr>ih_hdr_chks := 0\<rparr>))\<rparr>"
  by (simp add: ip_out_def ip_sealed_def)

lemma in_windows_sk [window_simps]:
  "load_sk (in_windows a b e n t E N T (w :: ('h, 'w) sock_world_scheme)) = load_sk w"
  by (auto simp: in_windows_def load_sk_def)

lemma in_windows_bits [window_simps]:
  assumes "fits e n t (length (nb_mem b)) (length E) (length N) (length T)" "0 < length N"
  shows "nb_bits (NB a) n f (in_windows a b e n t E N T w) = Ok (in_windows a b e n t E (upd 0 [f (N ! 0)] N) T w)"
proof -
  have "Suc 0 \<le> length N" "bslice 0 (Suc 0) N ! 0 = N ! 0" using assms(2) by (simp_all add: bslice_def Suc_le_eq)
  then show ?thesis by (simp add: nb_bits_def in_windows_rd(2)[OF assms(1)] in_windows_wr(2)[OF assms(1)])
qed

lemma upd_first [window_simps]:
  "0 < length N \<Longrightarrow> upd 0 [x] N ! 0 = x" "0 < length N \<Longrightarrow> upd 0 [y] (upd 0 [x] N) = upd 0 [y] N"
  by (simp_all add: upd_def)

section \<open>The frame\<close>

text \<open>The buffer with its contents, and the outcome of \<open>ip_create_nb\<close> up to the queue.\<close>

definition ip_buff :: "addr \<Rightarrow> bytes \<Rightarrow> uint16_t \<Rightarrow> net_buff" where
  "ip_buff d m len = (nb_fresh m (34 + unat len))\<lparr>nb_net_dev := d, nb_protocol := ETH_P_IP, nb_tail := 34 + unat len,
     nb_pkt_len := 34 + len, nb_transport_hdr_offset := 34\<rparr>"

definition ip_msg :: "net_dev \<Rightarrow> uint32_t \<Rightarrow> socket \<Rightarrow> uint16_t \<Rightarrow> bytes \<Rightarrow> bytes" where
  "ip_msg x my k len D = eth_bytes (nd_broadcast x) (nd_dev_addr x) ETH_P_IP @
     ip_bytes (ip_out (sk_protocol k) (len + 20) (le32 my) (le32 (sk_dst_addr k))) @ D"

text \<open>The link header of the new buffer, which is then seen through its windows.\<close>

lemma ip_link_header:
  fixes w :: "('h, 'w) sock_world_scheme"
  assumes P: "swaps_ok P" and x: "d \<noteq> 0" "devs w d = Some x" "mac_ok x" "nd_header_ops x = Some (Some Eth_header_create)"
    and b: "nbs w a = Some b" "length (nb_mem b) = unat len + 34" "nb_mac_hdr_offset b = 0" "nb_network_hdr_offset b = 14"
      "nb_transport_hdr_offset b = 34" "nb_pkt_len b = 0"
  defines "E \<equiv> eth_bytes (nd_broadcast x) (nd_dev_addr x) ETH_P_IP"
  defines "b2 \<equiv> b\<lparr>nb_pkt_len := 14, nb_mem := upd 0 E (nb_mem b)\<rparr>"
  obtains N T where "length N = 20" "length T = unat len" "length E = 14"
    "netdev_hdr_create P (NB a) d ETH_P_IP (Some (nd_broadcast x)) (Some (nd_dev_addr x)) (34 + len) w =
      Ok (0, in_windows a b2 0 14 34 E N T (w\<lparr>nbs := (nbs w)(a \<mapsto> b2)\<rparr>))"
proof -
  define N T where "N = bslice 14 20 (nb_mem b2)" and "T = bslice 34 (unat len) (nb_mem b2)"
  have len: "length N = 20" "length T = unat len" "length E = 14"
    using b(2) x(3) by (simp_all add: N_def T_def b2_def E_def mac_ok_def)
  have "sint (ETH_P_IP :: uint16_t) \<le> 1500 \<longleftrightarrow> False" by (simp add: ETH_P_IP_def)
  then have hdr: "netdev_hdr_create P (NB a) d ETH_P_IP (Some (nd_broadcast x)) (Some (nd_dev_addr x)) (34 + len) w =
      Ok (0, w\<lparr>nbs := (nbs w)(a \<mapsto> b2)\<rparr>)"
    using eth_header_create_Ok[OF P, of w a b d x "nd_broadcast x" "Some (nd_dev_addr x)" ETH_P_IP "34 + len"] x b
    by (simp add: src_of_def netdev_hdr_create_def load_dev_def b2_def E_def mac_ok_def)
  have "view 0 14 34 (nb_mem b2) E N T" using len b(2) by (simp add: view_def N_def T_def b2_def bslice_upd_same)
  then have "in_windows a b2 0 14 34 E N T (w\<lparr>nbs := (nbs w)(a \<mapsto> b2)\<rparr>) = w\<lparr>nbs := (nbs w)(a \<mapsto> b2)\<rparr>"
    by (intro in_windows_start) simp_all
  with that[OF len] hdr show thesis by simp
qed

lemma ip_create_nb_cases:
  fixes w :: "('h, 'w) sock_world_scheme"
  assumes P: "swaps_ok P" and dev: "eth_dev (curr_net_dev w) w x" and sk: "sk \<noteq> 0" "socks w sk = Some k"
    and msg: "msg_iov msg = Some iov" "unat (iov_len iov) \<le> length (iov_base iov)"
    and fits: "unat thl + unat (iov_len iov) \<le> unat len" "unat len + 34 < 65536"
  obtains (fail) ms where "\<not> alloc_ok w" "ip_create_nb P sk msg thl len w =
      Ok (NULLP, w\<lparr>mallocs := ms, socks := (socks w)(sk \<mapsto> k\<lparr>sk_src_addr := my_ip w\<rparr>)\<rparr>)"
  | (ok) a ms D where "nbs w a = None" "a \<noteq> 0" "alloc_ok w" "length D = unat len"
      "bslice (unat thl) (unat (iov_len iov)) D = take (unat (iov_len iov)) (iov_base iov)"
      "ip_create_nb P sk msg thl len w = bnd (nb_enqueue (NB a) (TXQ sk)
        (w\<lparr>mallocs := ms, socks := (socks w)(sk \<mapsto> k\<lparr>sk_src_addr := my_ip w\<rparr>),
           nbs := (nbs w)(a \<mapsto> ip_buff (curr_net_dev w) (ip_msg x (my_ip w) k len D) len)\<rparr>))
        (\<lambda>w. bnd (nb_upd (NB a) (\<lambda>b. b\<lparr>nb_sock := sk\<rparr>) w) (\<lambda>w. Ok (NB a, w)))"
proof -
  define d k' where "d = curr_net_dev w" and "k' = k\<lparr>sk_src_addr := my_ip w\<rparr>"
  let ?w0 = "w\<lparr>socks := (socks w)(sk \<mapsto> k')\<rparr>"
  note size = ETH_HDR_LEN_def IP_HDR_SIZE_def
  have x: "d \<noteq> 0" "devs w d = Some x" "length (nd_dev_addr x) = 6" "length (nd_broadcast x) = 6"
    "nd_header_ops x = Some (Some Eth_header_create)" using dev by (simp_all add: eth_dev_def mac_ok_def d_def)
  have u: "upd_sk sk (\<lambda>k. k\<lparr>sk_src_addr := my_ip w\<rparr>) w = Ok ?w0"
    using sk by (simp add: upd_sk_Some k'_def)
  have n: "unat (34 + len) = unat len + 34" "unat (34 + len) = unat len + 34"
    using fits(2) by (simp_all add: unat_word_ariths)
  obtain p w1 where q: "ndev_alloc_net_buff d (34 + len) ?w0 = (p, w1)" by fastforce
  from q show ?thesis
  proof (cases rule: ndev_alloc_net_buff_cases)
    case (fail ms)
    then show ?thesis using q u
      by (intro that(1)[of ms]) (simp_all add: ip_create_nb_def size d_def[symmetric] k'_def[symmetric] Let_def)
  next
    case (ok a ms m)
    let ?b1 = "(nb_fresh m (unat len + 34))\<lparr>nb_net_dev := d, nb_protocol := ETH_P_IP, nb_tail := 14, nb_transport_hdr_offset := 34\<rparr>"
    let ?w1 = "w\<lparr>mallocs := ms, socks := (socks w)(sk \<mapsto> k'), nbs := (nbs w)(a \<mapsto> ?b1)\<rparr>"
    let ?E = "eth_bytes (nd_broadcast x) (nd_dev_addr x) ETH_P_IP"
    let ?b2 = "?b1\<lparr>nb_pkt_len := 14, nb_mem := upd 0 ?E (nb_mem ?b1)\<rparr>"
    define w2 where "w2 = ?w1\<lparr>nbs := (nbs ?w1)(a \<mapsto> ?b2)\<rparr>"
    have lm: "length m = unat len + 34" using ok(5) n by simp
    obtain N T where lens: "length N = 20" "length T = unat len" "length ?E = 14"
      and hdr': "netdev_hdr_create P (NB a) d ETH_P_IP (Some (nd_broadcast x)) (Some (nd_dev_addr x)) (34 + len) ?w1 =
        Ok (0, in_windows a ?b2 0 14 34 ?E N T w2)"
      unfolding w2_def by (rule ip_link_header[OF P x(1), of ?w1 x a ?b1 len]) (use x lm in \<open>simp_all add: mac_ok_def\<close>)
    have k: "load_sk w2 sk = Ok k'" using sk(1) by (simp add: load_sk_Some w2_def)
    define h where "h = ip_out (sk_protocol k) (len + 20) (le32 (my_ip w)) (le32 (sk_dst_addr k))"
    let ?bs = "take (unat (iov_len iov)) (iov_base iov)"
    let ?D = "upd (unat thl) ?bs T" and ?b4 = "?b2\<lparr>nb_tail := 34 + unat len, nb_pkt_len := 34 + len\<rparr>"
    have D: "length ?D = unat len" "bslice (unat thl) (unat (iov_len iov)) ?D = ?bs"
      using fits(1) msg(2) lens(2) by (simp_all add: bslice_upd_same)
    have f: "fits 0 14 34 (unat len + 34) 14 20 (unat len)" by (simp add: fits_def)
    have "windows 0 14 34 ?E (ip_bytes h) ?D (nb_mem ?b4) = ?E @ ip_bytes h @ ?D"
      by (rule windows_full) (use lens lm D(1) in \<open>simp_all add: h_def\<close>)
    then have b: "?b4\<lparr>nb_mem := windows 0 14 34 ?E (ip_bytes h) ?D (nb_mem ?b4)\<rparr> = ip_buff d (ip_msg x (my_ip w) k len ?D) len"
      by (simp add: ip_buff_def ip_msg_def h_def nb_fresh_def add.commute)
    have bs: "rd 0 (unat (iov_len iov)) (iov_base iov) = Ok ?bs" using msg(2) by (simp add: bslice_def)
    have b1: "nb_upd (NB a) (\<lambda>b. b\<lparr>nb_protocol := ETH_P_IP, nb_tail := nb_tail b + 14,
        nb_transport_hdr_offset := nb_network_hdr_offset b + 20\<rparr>) w1 = Ok ?w1"
      using ok n by (simp add: nb_upd_NB)
    have run: "ip_create_nb P sk msg thl len w = bnd (nb_enqueue (NB a) (TXQ sk) (in_windows a ?b4 0 14 34 ?E (ip_bytes h) ?D w2))
        (\<lambda>w. bnd (nb_upd (NB a) (\<lambda>b. b\<lparr>nb_sock := sk\<rparr>) w) (\<lambda>w. Ok (NB a, w)))"
      using q u ok(1) x(1,2) b1 hdr' k bs msg lens lm fits f
      by (simp add: ip_create_nb_def size d_def[symmetric] k'_def[symmetric] Let_def load_dev_def le16_htons[OF P] window_simps
        ip_write ip_out_sealed[symmetric] h_def) (simp add: k'_def)
    have "in_windows a ?b4 0 14 34 ?E (ip_bytes h) ?D w2 = w\<lparr>mallocs := ms, socks := (socks w)(sk \<mapsto> k'),
        nbs := (nbs w)(a \<mapsto> ip_buff d (ip_msg x (my_ip w) k len ?D) len)\<rparr>"
      unfolding in_windows_def b by (simp add: w2_def)
    then show ?thesis using that(2)[where a = a and ms = ms and D = ?D] ok(2-4) D run by (simp add: d_def k'_def)
  qed
qed

end
