(* ===== verification/Transport.thy ===== *)
theory Transport
  imports Ip_Send
begin

text \<open>
  The transport protocols: sending over UDP (\<open>netinet/udp.h\<close>, \<open>netinet/udp.c\<close>) and the stub of TCP
  (\<open>netinet/tcp.c\<close>).  A message becomes one frame: \<open>ip_create_nb\<close> builds it up to the IP header and
  queues it, \<open>udp_send\<close> fills in the UDP header of the first buffer of the queue and transmits the queue.
\<close>

section \<open>The code\<close>

definition UDP_HDR_SIZE :: nat where "UDP_HDR_SIZE = 8"

abbreviation (input) "udph_port_src \<equiv> 0 :: nat"
abbreviation (input) "udph_port_dst \<equiv> 2 :: nat"
abbreviation (input) "udph_len \<equiv> 4 :: nat"
abbreviation (input) "udph_chks \<equiv> 6 :: nat"

definition get_udp_hdr :: "net_buff \<Rightarrow> nat" where
  "get_udp_hdr b = unat (nb_transport_hdr_offset b)"

definition udp_init :: "('h, 'w) tab_world_scheme \<Rightarrow> ('h, 'w) tab_world_scheme" where
  "udp_init w = ip_proto_handler_add IPPROTO_UDP None w"

definition tcp_init :: "('h, 'w) tab_world_scheme \<Rightarrow> ('h, 'w) tab_world_scheme" where
  "tcp_init w = ip_proto_handler_add IPPROTO_TCP None w"

definition udp_send :: "('h, 'w) sock_world_scheme platform \<Rightarrow> nat \<Rightarrow> addr \<Rightarrow> ('h, 'w) sock_world_scheme \<Rightarrow>
    (int8_t \<times> ('h, 'w) sock_world_scheme) res" where
  "udp_send P fuel sk w =
     bnd (get_next w (QHEAD (TXQ sk))) (\<lambda>nb.
     bnd (load_nb w nb) (\<lambda>b. let udph = get_udp_hdr b in
     bnd (load_sk w sk) (\<lambda>k.
     bnd (nb_wr nb (udph + udph_port_src) (le16 (sk_src_port k)) w) (\<lambda>w.
     bnd (nb_wr nb (udph + udph_port_dst) (le16 (sk_dst_port k)) w) (\<lambda>w.
     bnd (nb_wr nb (udph + udph_len) (le16 (htons P (nb_pkt_len b - ucast (nb_transport_hdr_offset b)))) w) (\<lambda>w.
     bnd (nb_wr nb (udph + udph_chks) (le16 0) w) (\<lambda>w.
     ip_send_sock P fuel sk w)))))))"

definition udp_send_msg :: "('h, 'w) sock_world_scheme platform \<Rightarrow> nat \<Rightarrow> addr \<Rightarrow> msghdr \<Rightarrow>
    ('h, 'w) sock_world_scheme \<Rightarrow> (ssize_t \<times> ('h, 'w) sock_world_scheme) res" where
  "udp_send_msg P fuel sk msg w =
     (case msg_iov msg of None \<Rightarrow> Fault Null_deref
      | Some iov \<Rightarrow>
     let len = iov_len iov; ulen = len + of_nat UDP_HDR_SIZE in
     if msg_flags msg AND MSG_OOB \<noteq> 0 then Ok (- 1, w) else
     bnd (case msg_name msg of None \<Rightarrow> Ok (True, w)
          | Some addr_in \<Rightarrow>
              if msg_namelen msg < SOCKADDR_IN_SIZE \<or> sin_port addr_in = 0 then Ok (False, w)
              else if sin_family addr_in \<noteq> AF_INET \<and> sin_family addr_in \<noteq> AF_UNSPEC then Ok (False, w)
              else bnd (upd_sk sk (\<lambda>k. k\<lparr>sk_dst_addr := sin_addr addr_in, sk_dst_port := sin_port addr_in\<rparr>) w)
                     (\<lambda>w. Ok (True, w))) (\<lambda>(ok, w).
     if \<not> ok then Ok (- 1, w) else
     bnd (ip_create_nb P sk msg (of_nat UDP_HDR_SIZE) ulen w) (\<lambda>(nb, w).
     if nb = NULLP then Ok (- 1, w) else
     bnd (udp_send P fuel sk w) (\<lambda>(err, w).
     if err \<noteq> 0 then Ok (scast (if 0 < sint err then - err else err), w)
     else Ok (len, w)))))"

definition tcp_send_msg :: "addr \<Rightarrow> msghdr \<Rightarrow> ('h, 'w) sock_world_scheme \<Rightarrow> (ssize_t \<times> ('h, 'w) sock_world_scheme) res" where
  "tcp_send_msg sk msg w = Ok (0, w)"

section \<open>The datagram\<close>

definition udp_bytes :: "uint16_t \<Rightarrow> uint16_t \<Rightarrow> uint16_t \<Rightarrow> bytes" where
  "udp_bytes sp dp len = le16 sp @ le16 dp @ be16 len @ [0, 0]"

lemma length_udp_bytes [simp]: "length (udp_bytes sp dp len) = 8"
  by (simp add: udp_bytes_def)

lemma udp_write:
  assumes "8 \<le> length D"
  shows "upd 6 (le16 0) (upd 4 (be16 l) (upd 2 (le16 dp) (upd 0 (le16 sp) D))) = udp_bytes sp dp l @ drop 8 D"
  using assms by (simp add: upd_def udp_bytes_def le16_consts(1))

section \<open>The queue of the socket\<close>

lemma queue_rep_same_links:
  assumes "nbs w a = Some b" "nb_next b' = nb_next b" "nb_prev b' = nb_prev b"
  shows "queue_rep (w\<lparr>nbs := (nbs w)(a \<mapsto> b')\<rparr>) q xs = queue_rep w q xs"
  by (rule queue_rep_cong) (use assms in \<open>auto simp: links_def qlens_def split: nbp.split\<close>)

lemma queue_rep_nbs_other:
  assumes "a \<notin> set xs" "nbs w' = (nbs w)(a \<mapsto> b)" "queues w' = queues w"
  shows "queue_rep w' q xs = queue_rep w q xs"
  by (rule queue_rep_cong) (use assms in \<open>auto simp: links_def qlens_def\<close>)

text \<open>\<open>ip_create_nb\<close> on a socket with an empty queue: the frame is the only buffer of the queue.\<close>

lemma ip_create_nb_queued:
  fixes w :: "('h, 'w) sock_world_scheme"
  assumes P: "swaps_ok P" and dev: "eth_dev (curr_net_dev w) w x" and sk: "sk \<noteq> 0" "socks w sk = Some k"
    and msg: "msg_iov msg = Some iov" "unat (iov_len iov) \<le> length (iov_base iov)"
    and fits: "unat thl + unat (iov_len iov) \<le> unat len" "unat len + 34 < 65536"
    and q: "queue_rep w (TXQ sk) []" and al: "alloc_ok w"
  obtains a w' b D where "ip_create_nb P sk msg thl len w = Ok (NB a, w')" "queue_rep w' (TXQ sk) [a]"
    "nbs w' a = Some b" "b\<lparr>nb_next := NULLP, nb_prev := NULLP\<rparr> =
      (ip_buff (curr_net_dev w) (ip_msg x (my_ip w) k len D) len)\<lparr>nb_sock := sk\<rparr>"
    "length D = unat len" "bslice (unat thl) (unat (iov_len iov)) D = take (unat (iov_len iov)) (iov_base iov)"
    "devs w' = devs w" "hw w' = hw w" "socks w' = (socks w)(sk \<mapsto> k\<lparr>sk_src_addr := my_ip w\<rparr>)" "nbs w a = None"
proof (cases rule: ip_create_nb_cases[OF P dev sk msg fits, case_names fail ok])
  case (fail ms)
  with al show ?thesis by simp
next
  case (ok a ms D)
  let ?B = "ip_buff (curr_net_dev w) (ip_msg x (my_ip w) k len D) len"
  let ?w1 = "w\<lparr>mallocs := ms, socks := (socks w)(sk \<mapsto> k\<lparr>sk_src_addr := my_ip w\<rparr>), nbs := (nbs w)(a \<mapsto> ?B)\<rparr>"
  have "queue_rep ?w1 (TXQ sk) []" using q by (simp add: queue_rep_nbs_other[where w = w and a = a and b = ?B])
  then obtain w2 where w2: "nb_enqueue (NB a) (TXQ sk) ?w1 = Ok w2" "queue_rep w2 (TXQ sk) [a]" "rest w2 = rest ?w1"
    using nb_enqueue_rep[of ?w1 "TXQ sk" "[]" a] by auto
  have "payload w2 a = Some ?B" using w2(3) by (simp add: rest_def payload_def ip_buff_def nb_fresh_def)
  then obtain b where b: "nbs w2 a = Some b" "b\<lparr>nb_next := NULLP, nb_prev := NULLP\<rparr> = ?B" by (auto simp: payload_def)
  let ?w3 = "w2\<lparr>nbs := (nbs w2)(a \<mapsto> b\<lparr>nb_sock := sk\<rparr>)\<rparr>"
  note m = rest_more[OF w2(3)]
  show ?thesis
  proof
    show "ip_create_nb P sk msg thl len w = Ok (NB a, ?w3)" using ok(6) w2(1) b(1) by (simp add: nb_upd_NB)
    show "queue_rep ?w3 (TXQ sk) [a]" using w2(2) queue_rep_same_links[OF b(1), of "b\<lparr>nb_sock := sk\<rparr>"] by simp
    show "nbs ?w3 a = Some (b\<lparr>nb_sock := sk\<rparr>)" by simp
    show "b\<lparr>nb_sock := sk\<rparr>\<lparr>nb_next := NULLP, nb_prev := NULLP\<rparr> = ?B\<lparr>nb_sock := sk\<rparr>"
      using b(2)[symmetric] by simp
    show "devs ?w3 = devs w" "hw ?w3 = hw w" using more_dev_world(1,2)[OF m] by simp_all
    show "socks ?w3 = (socks w)(sk \<mapsto> k\<lparr>sk_src_addr := my_ip w\<rparr>)" using nb_more_sock(1)[OF m] by simp
  qed (use ok in simp_all)
qed

text \<open>Filling in the UDP header and transmitting.\<close>

lemma udp_send_head:
  fixes w :: "('h, 'w) sock_world_scheme"
  assumes P: "swaps_ok P" and q: "queue_rep w (TXQ sk) [a]"
    and b: "nbs w a = Some b" "unat (nb_transport_hdr_offset b) = 34"
    and mem: "nb_mem b = E @ N @ D" "length E = 14" "length N = 20" "8 \<le> length D"
    and sk: "sk \<noteq> 0" "socks w sk = Some k"
  shows "udp_send P fuel sk w = netdev_queue_xmit P fuel (TXQ sk) (w\<lparr>nbs := (nbs w)(a \<mapsto>
    b\<lparr>nb_mem := E @ N @ udp_bytes (sk_src_port k) (sk_dst_port k) (nb_pkt_len b - 34) @ drop 8 D\<rparr>)\<rparr>)"
proof -
  have v: "view 0 14 34 (nb_mem b) E N D" using mem by (simp add: view_def bslice_def)
  note start = in_windows_start[OF b(1) v]
  have nxt: "get_next (in_windows a b 0 14 34 E N D w) (QHEAD (TXQ sk)) = Ok (NB a)"
    unfolding start using q by (intro get_next_links) (simp add: queue_rep_def)
  have f: "fits 0 14 34 (length (nb_mem b)) 14 20 (length D)" using view_fits[OF v] mem by simp
  let ?D' = "udp_bytes (sk_src_port k) (sk_dst_port k) (nb_pkt_len b - 34) @ drop 8 D"
  have m4: "windows 0 14 34 E N ?D' (nb_mem b) = E @ N @ ?D'" by (rule windows_full) (use mem in simp_all)
  have "unat (nb_transport_hdr_offset b) = unat (34 :: uint8_t)" using b(2) by simp
  then have "nb_transport_hdr_offset b = 34" by (rule word_unat_eq_iff[THEN iffD2])
  then have "udp_send P fuel sk w = netdev_queue_xmit P fuel (TXQ sk) (in_windows a b 0 14 34 E N ?D' w)"
    using nxt sk b(2) f mem
    by (subst start[symmetric]) (simp add: udp_send_def load_nb_NB[OF in_windows_buf] get_udp_hdr_def load_sk_Some le16_htons[OF P]
      ip_send_sock_def window_simps udp_write Let_def)
  then show ?thesis by (simp add: in_windows_def m4)
qed

lemma udp_send_frame:
  fixes w :: "('h, 'w) sock_world_scheme"
  assumes P: "swaps_ok P" and drv: "tx_driver P sent m K d c (TXQ sk)" and ready: "tx_ready d c w"
    and fuel: "K < fuel" "1 < fuel" and q: "queue_rep w (TXQ sk) [a]"
    and b: "nbs w a = Some b" "nb_net_dev b = d" "unat (nb_transport_hdr_offset b) = 34"
    and mem: "nb_mem b = E @ N @ D" "length E = 14" "length N = 20" "8 \<le> length D"
    and sk: "sk \<noteq> 0" "socks w sk = Some k"
  shows "\<exists>r w'. udp_send P fuel sk w = Ok (r, w') \<and> (r = NETDEV_TX_OK \<or> sent_code P c r) \<and>
    sent (hw w') = sent (hw w) @ [b\<lparr>nb_next := NULLP, nb_prev := NULLP,
      nb_mem := E @ N @ udp_bytes (sk_src_port k) (sk_dst_port k) (nb_pkt_len b - 34) @ drop 8 D\<rparr>]"
proof -
  let ?b = "b\<lparr>nb_mem := E @ N @ udp_bytes (sk_src_port k) (sk_dst_port k) (nb_pkt_len b - 34) @ drop 8 D\<rparr>"
  let ?w = "w\<lparr>nbs := (nbs w)(a \<mapsto> ?b)\<rparr>"
  have q4: "queue_rep ?w (TXQ sk) [a]" using q queue_rep_same_links[OF b(1), of ?b] by simp
  have pay: "payload ?w a = Some (?b\<lparr>nb_next := NULLP, nb_prev := NULLP\<rparr>)" by (simp add: payload_def)
  have "all_for d [a] ?w" using pay b(2) by (simp add: all_for_def)
  moreover have "tx_ready d c ?w" using ready by (simp add: tx_ready_def)
  moreover have "net_dev_xmit_complete NETDEV_TX_OK"
    by (simp add: net_dev_xmit_complete_def NETDEV_TX_OK_def NET_XMIT_MASK_def)
  ultimately show ?thesis
    using queue_xmit_loop_sends[OF drv fuel(1) _ q4, of fuel NETDEV_TX_OK] fuel(2) pay
    by (auto simp: udp_send_head[OF P q b(1,3) mem sk] netdev_queue_xmit_def)
qed

section \<open>Messages\<close>

text \<open>The frame of a datagram from the host \<open>my\<close>, port \<open>sp\<close>, to the address \<open>to\<close>.\<close>

definition udp_frame :: "net_dev \<Rightarrow> uint8_t \<Rightarrow> uint32_t \<Rightarrow> uint16_t \<Rightarrow> sockaddr_in \<Rightarrow> uint16_t \<Rightarrow> bytes \<Rightarrow> bytes" where
  "udp_frame x proto my sp to n data = eth_bytes (nd_broadcast x) (nd_dev_addr x) ETH_P_IP @
     ip_bytes (ip_out proto (n + 28) (le32 my) (le32 (sin_addr to))) @ udp_bytes sp (sin_port to) (n + 8) @ data"

text \<open>The tests on a message, as the code makes them.\<close>

definition udp_msg_ok :: "msghdr \<Rightarrow> bool" where
  "udp_msg_ok msg \<longleftrightarrow> msg_flags msg AND MSG_OOB = 0 \<and>
     (\<forall>to. msg_name msg = Some to \<longrightarrow> SOCKADDR_IN_SIZE \<le> msg_namelen msg \<and> sin_port to \<noteq> 0 \<and>
        sin_family to \<in> {AF_INET, AF_UNSPEC})"

text \<open>The socket with the destination of the message, and \<open>udp_send_msg\<close> after its tests.\<close>

definition addressed :: "msghdr \<Rightarrow> socket \<Rightarrow> socket" where
  "addressed msg k = (case msg_name msg of None \<Rightarrow> k
     | Some to \<Rightarrow> k\<lparr>sk_dst_addr := sin_addr to, sk_dst_port := sin_port to\<rparr>)"

lemma udp_send_msg_start:
  assumes "sk \<noteq> 0" "socks w sk = Some k" "msg_iov msg = Some iov"
  shows "udp_send_msg P fuel sk msg w = (if \<not> udp_msg_ok msg then Ok (- 1, w) else
    bnd (ip_create_nb P sk msg 8 (iov_len iov + 8) (w\<lparr>socks := (socks w)(sk \<mapsto> addressed msg k)\<rparr>)) (\<lambda>(nb, w).
     if nb = NULLP then Ok (- 1, w) else
     bnd (udp_send P fuel sk w) (\<lambda>(err, w).
     if err \<noteq> 0 then Ok (scast (if 0 < sint err then - err else err), w) else Ok (iov_len iov, w))))"
  using assms by (auto simp: udp_send_msg_def udp_msg_ok_def addressed_def UDP_HDR_SIZE_def upd_sk_Some fun_upd_idem Let_def
    split: option.split)

lemma udp_send_msg_frame:
  fixes w :: "('h, 'w) sock_world_scheme"
  assumes P: "swaps_ok P" and drv: "tx_driver P sent m K d c (TXQ sk)" "tx_ready d c w" "K < fuel" "1 < fuel"
    and dev: "curr_net_dev w = d" "eth_dev d w x" and sk: "sk \<noteq> 0" "socks w sk = Some k" "queue_rep w (TXQ sk) []"
    and al: "alloc_ok w" and iov: "msg_iov msg = Some iov" "unat (iov_len iov) \<le> length (iov_base iov)"
      "unat (iov_len iov) + 42 < 65536"
    and ok: "udp_msg_ok msg" "msg_name msg = Some to" and code: "tx_exact P c"
  shows "\<exists>w' b. udp_send_msg P fuel sk msg w = Ok (iov_len iov, w') \<and> sent (hw w') = sent (hw w) @ [b] \<and>
    nb_mem b = udp_frame x (sk_protocol k) (my_ip w) (sk_src_port k) to (iov_len iov)
      (take (unat (iov_len iov)) (iov_base iov)) \<and>
    nb_pkt_len b = iov_len iov + 42 \<and> nb_net_dev b = d \<and> nb_wf b"
proof -
  let ?k = "k\<lparr>sk_dst_addr := sin_addr to, sk_dst_port := sin_port to\<rparr>" and ?n = "iov_len iov"
  let ?w = "w\<lparr>socks := (socks w)(sk \<mapsto> ?k)\<rparr>"
  have len: "unat (?n + 8) = unat ?n + 8" using iov(3) by (simp add: unat_word_ariths)
  have w: "eth_dev (curr_net_dev ?w) ?w x" "socks ?w sk = Some ?k" "alloc_ok ?w" "tx_ready d c ?w" "queue_rep ?w (TXQ sk) []"
    using dev al drv(2) sk(3) by (simp_all add: eth_dev_def tx_ready_def queue_rep_def links_def)
  have fits: "unat (8 :: uint8_t) + unat ?n \<le> unat (?n + 8)" "unat (?n + 8) + 34 < 65536" using len iov(3) by simp_all
  obtain a w1 b D where c1: "ip_create_nb P sk msg 8 (?n + 8) ?w = Ok (NB a, w1)" "queue_rep w1 (TXQ sk) [a]" "nbs w1 a = Some b"
    "b\<lparr>nb_next := NULLP, nb_prev := NULLP\<rparr> = (ip_buff d (ip_msg x (my_ip w) ?k (?n + 8) D) (?n + 8))\<lparr>nb_sock := sk\<rparr>"
    "length D = unat (?n + 8)" "bslice 8 (unat ?n) D = take (unat ?n) (iov_base iov)"
    "devs w1 = devs w" "hw w1 = hw w" "socks w1 = (socks ?w)(sk \<mapsto> ?k\<lparr>sk_src_addr := my_ip w\<rparr>)"
    by (rule ip_create_nb_queued[OF P w(1) sk(1) w(2) iov(1,2) fits w(5,3)]) (simp add: dev(1))
  have D: "drop 8 D = take (unat ?n) (iov_base iov)" using c1(5,6) len by (simp add: bslice_def)
  let ?E = "eth_bytes (nd_broadcast x) (nd_dev_addr x) ETH_P_IP"
    and ?N = "ip_bytes (ip_out (sk_protocol k) (?n + 28) (le32 (my_ip w)) (le32 (sin_addr to)))"
  have fields: "nb_mem b = ?E @ ?N @ D" "nb_net_dev b = d" "unat (nb_transport_hdr_offset b) = 34" "nb_pkt_len b = ?n + 42"
    "nb_tail b = unat ?n + 42" "nb_end b = unat ?n + 42" "nb_data b = 0"
  proof -
    let ?B = "(ip_buff d (ip_msg x (my_ip w) ?k (?n + 8) D) (?n + 8))\<lparr>nb_sock := sk\<rparr>"
    have "f b = f ?B" if "\<And>c p q. f (c\<lparr>nb_next := p, nb_prev := q\<rparr>) = f c" for f :: "net_buff \<Rightarrow> 'c"
      using that c1(4) by metis
    note sel = this[of nb_mem] this[of nb_net_dev] this[of nb_transport_hdr_offset] this[of nb_pkt_len]
      this[of nb_tail] this[of nb_end] this[of nb_data]
    show "unat (nb_transport_hdr_offset b) = 34" using sel(3) by (simp add: ip_buff_def)
    show "nb_mem b = ?E @ ?N @ D" "nb_net_dev b = d" "nb_pkt_len b = ?n + 42"
      "nb_tail b = unat ?n + 42" "nb_end b = unat ?n + 42" "nb_data b = 0"
      using sel by (simp_all add: ip_buff_def ip_msg_def len add.commute)
  qed
  have lens: "length ?E = 14" "length ?N = 20" "8 \<le> length D" using dev(2) len c1(5)
    by (simp_all add: eth_dev_def mac_ok_def)
  have sk1: "socks w1 sk = Some (?k\<lparr>sk_src_addr := my_ip w\<rparr>)" and r1: "tx_ready d c w1"
    using c1(7,9) drv(2) by (simp_all add: tx_ready_def)
  obtain r w' where s: "udp_send P fuel sk w1 = Ok (r, w')" "r = NETDEV_TX_OK \<or> sent_code P c r"
    "sent (hw w') = sent (hw w1) @ [b\<lparr>nb_next := NULLP, nb_prev := NULLP,
      nb_mem := ?E @ ?N @ udp_bytes (sk_src_port k) (sin_port to) (nb_pkt_len b - 34) @ drop 8 D\<rparr>]"
    using udp_send_frame[OF P drv(1) r1 drv(3,4) c1(2,3) fields(2,3,1) lens sk(1) sk1] by auto
  have "r = 0" using s(2) code by (auto simp: NETDEV_TX_OK_def tx_exact_def)
  moreover have "upd_sk sk (\<lambda>k. k\<lparr>sk_dst_addr := sin_addr to, sk_dst_port := sin_port to\<rparr>) w = Ok ?w"
    using sk by (simp add: upd_sk_Some)
  ultimately have "udp_send_msg P fuel sk msg w = Ok (?n, w')"
    using ok iov(1) c1(1) s(1) by (auto simp: udp_send_msg_def udp_msg_ok_def UDP_HDR_SIZE_def)
  then show ?thesis
    using s(3) fields D lens c1(8) len iov(3)
    by (intro exI[of _ w'] exI[of _ "b\<lparr>nb_next := NULLP, nb_prev := NULLP,
      nb_mem := ?E @ ?N @ udp_bytes (sk_src_port k) (sin_port to) (nb_pkt_len b - 34) @ drop 8 D\<rparr>"])
      (simp add: udp_frame_def nb_wf_def add.commute min_absorb2 iov(2))
qed

section \<open>Properties\<close>

text \<open>C12: on a running device, with a free buffer and an empty queue, \<open>udp_send_msg\<close> with an address sends
  exactly one frame and returns the length of the data.  The frame is the broadcast Ethernet frame
  with an IP header with this host and the address given, which carries the lengths that fit the data
  and a header checksum that verifies, then a UDP header with both ports, then the data.\<close>

theorem udp_send_msg_sends:
  fixes w :: "('h, 'w) sock_world_scheme"
  assumes "swaps_ok P" "tx_driver P sent m K d c (TXQ sk)" "tx_ready d c w" "K < fuel" "1 < fuel"
    and "curr_net_dev w = d" "eth_dev d w x" "sk \<noteq> 0" "socks w sk = Some k" "queue_rep w (TXQ sk) []" "alloc_ok w"
    and "msg_iov msg = Some iov" "unat (iov_len iov) \<le> length (iov_base iov)" "unat (iov_len iov) + 42 < 65536"
    and "udp_msg_ok msg" "msg_name msg = Some to" "tx_exact P c"
  shows "\<exists>w' b h. udp_send_msg P fuel sk msg w = Ok (iov_len iov, w') \<and> sent (hw w') = sent (hw w) @ [b] \<and>
    nb_mem b = nd_broadcast x @ nd_dev_addr x @ be16 ETH_P_IP @ ip_bytes h @
      udp_bytes (sk_src_port k) (sin_port to) (iov_len iov + 8) @ take (unat (iov_len iov)) (iov_base iov) \<and>
    ih_version h = 4 \<and> ih_ihl h = 5 \<and> ih_protocol h = sk_protocol k \<and> ih_tot_len h = iov_len iov + 28 \<and>
    ih_src h = le32 (my_ip w) \<and> ih_dst h = le32 (sin_addr to) \<and> chk (ip_bytes h) = 0 \<and>
    nb_pkt_len b = iov_len iov + 42"
proof -
  obtain w' b where r: "udp_send_msg P fuel sk msg w = Ok (iov_len iov, w')" "sent (hw w') = sent (hw w) @ [b]"
    "nb_mem b = udp_frame x (sk_protocol k) (my_ip w) (sk_src_port k) to (iov_len iov)
      (take (unat (iov_len iov)) (iov_base iov))" "nb_pkt_len b = iov_len iov + 42"
    using udp_send_msg_frame[OF assms] by blast
  let ?h = "ip_out (sk_protocol k) (iov_len iov + 28) (le32 (my_ip w)) (le32 (sin_addr to))"
  show ?thesis using r by (intro exI[of _ w'] exI[of _ b] exI[of _ ?h]) (simp add: udp_frame_def eth_bytes_def)
qed

definition demo_sock :: "uint8_t \<Rightarrow> socket" where
  "demo_sock proto = \<lparr>sk_state = SS_UNCONNECTED, sk_type = 2, sk_p_ops = Some Inet_dgram_ops, sk_dst_addr = 0,
     sk_src_addr = 0, sk_dst_port = 0, sk_src_port = 0xC0C0, sk_hash = 0, sk_protocol = proto, sk_prev = 0, sk_next = 0\<rparr>"

definition demo_queue :: "qref \<Rightarrow> nb_queue" where
  "demo_queue q = \<lparr>q_next = QHEAD q, q_prev = QHEAD q, q_len = 0\<rparr>"

definition demo_sock_world :: "uint32_t \<Rightarrow> (addr \<Rightarrow> net_buff option) \<Rightarrow> demo_hw sock_world" where
  "demo_sock_world ip bs = ip_world.extend ((demo_ip_world ip bs)\<lparr>queues := (\<lambda>q. Some (demo_queue q))\<rparr>)
     \<lparr>socks = [3 \<mapsto> demo_sock IPPROTO_UDP], socket_list = 3, inet_port = 49152\<rparr>"

lemma demo_sock_world_sel [simp]:
  "nbs (demo_sock_world ip bs) = bs" "devs (demo_sock_world ip bs) = [1 \<mapsto> demo_dev]" "my_ip (demo_sock_world ip bs) = ip"
  "hw (demo_sock_world ip bs) = \<lparr>demo_on = True, demo_busy = True, demo_log = []\<rparr>"
  "mallocs (demo_sock_world ip bs) = [21, 22]" "curr_net_dev (demo_sock_world ip bs) = 1"
  "socks (demo_sock_world ip bs) = [3 \<mapsto> demo_sock IPPROTO_UDP]" "inet_port (demo_sock_world ip bs) = 49152"
  "socket_list (demo_sock_world ip bs) = 3" "queues (demo_sock_world ip bs) = (\<lambda>q. Some (demo_queue q))"
  by (simp_all add: demo_sock_world_def demo_ip_world_def ip_world.defs)

lemma demo_sock_world_ok [simp]:
  "eth_dev (Suc 0) (demo_sock_world ip bs) demo_dev" "tx_ready (Suc 0) (Suc 0) (demo_sock_world ip bs)"
  "bs 21 = None \<Longrightarrow> alloc_ok (demo_sock_world ip bs)" "queue_rep (demo_sock_world ip bs) q []"
  by (simp_all add: eth_dev_def tx_ready_def alloc_ok_def queue_rep_def links_def demo_queue_def)

definition demo_msg :: "bytes \<Rightarrow> msghdr" where
  "demo_msg data = \<lparr>msg_name = Some \<lparr>sin_family = AF_INET, sin_port = 0x0700, sin_addr = 0x0200000A\<rparr>, msg_namelen = 7,
     msg_iov = Some \<lparr>iov_base = data, iov_len = of_nat (length data)\<rparr>, msg_flags = 0\<rparr>"

lemma demo_msg_sel [simp]: "udp_msg_ok (demo_msg data)"
  "msg_name (demo_msg data) = Some \<lparr>sin_family = AF_INET, sin_port = 0x0700, sin_addr = 0x0200000A\<rparr>"
  "msg_iov (demo_msg data) = Some \<lparr>iov_base = data, iov_len = of_nat (length data)\<rparr>"
  by (simp_all add: demo_msg_def udp_msg_ok_def SOCKADDR_IN_SIZE_def)

theorem udp_send_msg_sends_witness:
  "\<exists>w' b. udp_send_msg (demo_platform 1) 9 3 (demo_msg [1, 2, 3]) (demo_sock_world 0x0100000A Map.empty) = Ok (3, w') \<and>
     demo_log (hw w') = [b] \<and> drop 42 (nb_mem b) = [1, 2, 3]"
proof -
  let ?w = "demo_sock_world 0x0100000A Map.empty"
  have w: "tx_ready 1 1 ?w" "curr_net_dev ?w = 1" "eth_dev 1 ?w demo_dev" "socks ?w 3 = Some (demo_sock IPPROTO_UDP)"
    "queue_rep ?w (TXQ 3) []" "alloc_ok ?w" by simp_all
  let ?d = "[1, 2, 3] :: bytes"
  obtain w' b h where r: "udp_send_msg (demo_platform 1) 9 3 (demo_msg ?d) ?w = Ok (3, w')" "demo_log (hw w') = [b]"
    "nb_mem b = replicate 6 0xFF @ [2, 0, 0, 0, 0, 1] @ be16 ETH_P_IP @ ip_bytes h @
       udp_bytes 0xC0C0 0x0700 (3 + 8) @ ?d" and h: "ih_src h = le32 (my_ip ?w)" "ih_dst h = le32 0x0200000A"
    using udp_send_msg_sends[OF demo_swaps_ok demo_tx_driver[of 1 1 "TXQ 3"] w(1) _ _ w(2,3) _ w(4-6) demo_msg_sel(3)[of ?d] _ _
      demo_msg_sel(1,2)[of ?d] demo_tx_exact, of 9] by (auto simp: demo_sock_def)
  have "length (ip_bytes h) = 20" using h by (simp add: ip_ok_def)
  with r show ?thesis by (intro exI[of _ w'] exI[of _ b]) simp
qed

text \<open>The frame of a datagram at a receiver.\<close>

lemma udp_frame_received:
  assumes P: "swaps_ok P" and b: "nbs v a = Some b" "nb_mem b = udp_frame x proto my sp to n data" "nb_network_hdr_offset b = 14"
      "unat (nb_pkt_type b) \<noteq> PKT_OTHERHOST" "unat n + 42 \<le> unat (nb_pkt_len b)"
    and x: "mac_ok x" and n: "unat n + 42 < 65536"
  shows "ip_recv P call (NB a) v =
      (if (unat n + 28) mod 256 = 0 \<and> unat n + 28 < 5120 then Ok (NETDEV_RX_DROP, freed a v)
       else ip_proto_handler call proto (NB a) (v\<lparr>nbs := (nbs v)(a \<mapsto> b\<lparr>nb_transport_hdr_offset := 34\<rparr>)\<rparr>))"
    and "bslice 34 8 (nb_mem b) = udp_bytes sp (sin_port to) (n + 8)" "drop 42 (nb_mem b) = data"
proof -
  define h where "h = ip_out proto (n + 28) (le32 my) (le32 (sin_addr to))"
  have mem: "nb_mem b = eth_bytes (nd_broadcast x) (nd_dev_addr x) ETH_P_IP @ ip_bytes h @ udp_bytes sp (sin_port to) (n + 8) @ data"
    using b(2) by (simp add: udp_frame_def h_def)
  have h: "ip_ok h" "ih_ihl h = 5" "ih_version h = 4" "ih_tot_len h = n + 28" "chk (ip_bytes h) = 0" "ih_protocol h = proto"
    by (simp_all add: h_def)
  have E: "length (eth_bytes (nd_broadcast x) (nd_dev_addr x) ETH_P_IP) = 14" using x by (simp add: mac_ok_def)
  have at: "ip_at b h" using E h by (simp add: ip_at_def b(3) mem bslice_def)
  have u: "unat (n + 28) = unat n + 28" using n by (simp add: unat_word_ariths)
  then have "n + 28 \<le> nb_pkt_len b" using b(5) by (simp add: word_le_nat_alt)
  then show "ip_recv P call (NB a) v =
      (if (unat n + 28) mod 256 = 0 \<and> unat n + 28 < 5120 then Ok (NETDEV_RX_DROP, freed a v)
       else ip_proto_handler call proto (NB a) (v\<lparr>nbs := (nbs v)(a \<mapsto> b\<lparr>nb_transport_hdr_offset := 34\<rparr>)\<rparr>))"
    using ip_recv_cases[OF P b(1) at, of call] h b(3,4) u unfolding ip_valid_def len_refused_iff by simp
  show "bslice 34 8 (nb_mem b) = udp_bytes sp (sin_port to) (n + 8)" "drop 42 (nb_mem b) = data"
    using E h by (simp_all add: mem bslice_def)
qed

text \<open>A datagram sent with \<open>udp_send_msg\<close> on one host and arriving at another, byte for byte, passes
  \<open>ip_recv\<close> there and reaches the handler of its protocol with the transport header located at the UDP
  header and the data unchanged, except when the length of the data plus 28 is a multiple of 256
  below 5120: then the receiver drops it.\<close>

theorem udp_datagram_received:
  fixes w :: "('h, 'w) sock_world_scheme"
  assumes "swaps_ok P" "tx_driver P sent m K d c (TXQ sk)" "tx_ready d c w" "K < fuel" "1 < fuel"
    and "curr_net_dev w = d" "eth_dev d w x" "sk \<noteq> 0" "socks w sk = Some k" "queue_rep w (TXQ sk) []" "alloc_ok w"
    and "msg_iov msg = Some iov" "unat (iov_len iov) \<le> length (iov_base iov)" "unat (iov_len iov) + 42 < 65536"
    and "udp_msg_ok msg" "msg_name msg = Some to" "tx_exact P c"
    and "udp_send_msg P fuel sk msg w = Ok (r, w')" "sent (hw w') = sent (hw w) @ [f]"
    and "swaps_ok P'" "nbs v a = Some b" "nb_mem b = nb_mem f" "nb_network_hdr_offset b = 14"
      "unat (nb_pkt_type b) \<noteq> PKT_OTHERHOST" "nb_pkt_len f \<le> nb_pkt_len b"
  shows "r = iov_len iov \<and> ip_recv P' call (NB a) v =
      (if (unat (iov_len iov) + 28) mod 256 = 0 \<and> unat (iov_len iov) + 28 < 5120 then Ok (NETDEV_RX_DROP, freed a v)
       else ip_proto_handler call (sk_protocol k) (NB a)
         (v\<lparr>nbs := (nbs v)(a \<mapsto> b\<lparr>nb_transport_hdr_offset := 34\<rparr>)\<rparr>)) \<and>
    bslice 34 8 (nb_mem b) = udp_bytes (sk_src_port k) (sin_port to) (iov_len iov + 8) \<and>
    drop 42 (nb_mem b) = take (unat (iov_len iov)) (iov_base iov)"
proof -
  let ?n = "iov_len iov"
  have f: "r = ?n" "nb_mem f = udp_frame x (sk_protocol k) (my_ip w) (sk_src_port k) to ?n (take (unat ?n) (iov_base iov))"
    "nb_pkt_len f = ?n + 42"
    using udp_send_msg_frame[OF assms(1-17)] assms(18,19) by auto
  have "unat ?n + 42 \<le> unat (nb_pkt_len b)"
    using assms(14,25) f(3) by (simp add: word_le_nat_alt unat_word_ariths)
  then show ?thesis
    using udp_frame_received[OF assms(20,21) f(2)[folded assms(22)] assms(23,24) _ _ assms(14)] assms(7) f(1)
    by (simp add: eth_dev_def)
qed

theorem udp_datagram_received_witness:
  "\<exists>w' f v'. udp_send_msg (demo_platform 1) 9 3 (demo_msg (replicate 228 7)) (demo_sock_world 0x0100000A Map.empty) = Ok (228, w') \<and>
     demo_log (hw w') = [f] \<and>
     ip_recv avr_swaps (\<lambda>h nb w. Ok (0, w)) (NB 5) (demo_ip_world 0x0200000A [5 \<mapsto> demo_nb (nb_mem f)]) =
       Ok (NETDEV_RX_DROP, v')"
proof -
  let ?w = "demo_sock_world 0x0100000A Map.empty" and ?d = "replicate 228 7 :: bytes"
  have w: "tx_ready 1 1 ?w" "curr_net_dev ?w = 1" "eth_dev 1 ?w demo_dev" "socks ?w 3 = Some (demo_sock IPPROTO_UDP)"
    "queue_rep ?w (TXQ 3) []" "alloc_ok ?w" by simp_all
  note send = demo_swaps_ok demo_tx_driver[of 1 1 "TXQ 3"] w(1) _ _ w(2,3) _ w(4-6) demo_msg_sel(3)[of ?d] _ _
      demo_msg_sel(1,2)[of ?d] demo_tx_exact
  obtain w' f where s: "udp_send_msg (demo_platform 1) 9 3 (demo_msg ?d) ?w = Ok (228, w')" "demo_log (hw w') = demo_log (hw ?w) @ [f]"
    and l: "length (nb_mem f) = 270" "nb_pkt_len f = 270"
    using udp_send_msg_frame[OF send, of 9] by (auto simp: udp_frame_def)
  let ?v = "demo_ip_world 0x0200000A [5 \<mapsto> demo_nb (nb_mem f)]"
  have v: "nbs ?v 5 = Some (demo_nb (nb_mem f))" "nb_mem (demo_nb (nb_mem f)) = nb_mem f"
    "nb_network_hdr_offset (demo_nb (nb_mem f)) = 14" "unat (nb_pkt_type (demo_nb (nb_mem f))) \<noteq> PKT_OTHERHOST"
    "nb_pkt_len f \<le> nb_pkt_len (demo_nb (nb_mem f))" using l by (simp_all add: PKT_OTHERHOST_def)
  show ?thesis
    using udp_datagram_received[OF send s swaps_ok_avr v, of "\<lambda>h nb w. Ok (0, w)"] s by simp
qed

text \<open>C39: \<open>udp_send_msg\<close> refuses out-of-band data, an address that is too short, without a port or of
  another family, with \<open>-1\<close> and without changing anything; when no buffer can be allocated it returns
  \<open>-1\<close> too, with nothing leaked and nothing sent.\<close>

theorem udp_send_msg_refuses:
  fixes w :: "('h, 'w) sock_world_scheme"
  assumes "msg_iov msg = Some iov" "sk \<noteq> 0" "socks w sk = Some k"
  shows "if \<not> udp_msg_ok msg then udp_send_msg P fuel sk msg w = Ok (- 1, w)
    else swaps_ok P \<and> eth_dev (curr_net_dev w) w x \<and> unat (iov_len iov) \<le> length (iov_base iov) \<and>
        unat (iov_len iov) + 42 < 65536 \<and> \<not> alloc_ok w \<longrightarrow>
      (\<exists>w'. udp_send_msg P fuel sk msg w = Ok (- 1, w') \<and> nbs w' = nbs w \<and> queues w' = queues w \<and> hw w' = hw w)"
proof (cases "udp_msg_ok msg")
  case False
  then show ?thesis by (simp add: udp_send_msg_start[OF assms(2,3,1)])
next
  case True
  let ?n = "iov_len iov" and ?k = "addressed msg k"
  let ?w = "w\<lparr>socks := (socks w)(sk \<mapsto> ?k)\<rparr>"
  show ?thesis
  proof (cases "swaps_ok P \<and> eth_dev (curr_net_dev w) w x \<and> unat ?n \<le> length (iov_base iov) \<and> unat ?n + 42 < 65536 \<and> \<not> alloc_ok w")
    case ok: True
    then have fits: "unat (8 :: uint8_t) + unat ?n \<le> unat (?n + 8)" "unat (?n + 8) + 34 < 65536"
      by (simp_all add: unat_word_ariths)
    have dev: "eth_dev (curr_net_dev ?w) ?w x" "socks ?w sk = Some ?k" using ok by (simp_all add: eth_dev_def)
    obtain ms where "ip_create_nb P sk msg 8 (?n + 8) ?w =
        Ok (NULLP, ?w\<lparr>mallocs := ms, socks := (socks ?w)(sk \<mapsto> ?k\<lparr>sk_src_addr := my_ip ?w\<rparr>)\<rparr>)"
      by (rule ip_create_nb_cases[of P ?w x sk ?k msg iov 8 "?n + 8"]) (use ok dev assms fits in auto)
    then show ?thesis using True by (simp add: udp_send_msg_start[OF assms(2,3,1)])
  qed (use True in auto)
qed

theorem udp_send_msg_refuses_witness:
  "udp_send_msg (demo_platform 1) 9 3 ((demo_msg [1])\<lparr>msg_namelen := 4\<rparr>) (demo_sock_world 0x0100000A Map.empty) =
     Ok (- 1, demo_sock_world 0x0100000A Map.empty)"
proof -
  have "\<not> udp_msg_ok ((demo_msg [1])\<lparr>msg_namelen := 4\<rparr>)"
    by (simp add: udp_msg_ok_def demo_msg_def SOCKADDR_IN_SIZE_def)
  moreover have "msg_iov ((demo_msg [1])\<lparr>msg_namelen := 4\<rparr>) = Some \<lparr>iov_base = [1], iov_len = 1\<rparr>"
    "socks (demo_sock_world 0x0100000A Map.empty) 3 = Some (demo_sock IPPROTO_UDP)"
    by (simp_all add: demo_msg_def)
  ultimately show ?thesis using udp_send_msg_refuses[where x = demo_dev] by (metis zero_neq_numeral)
qed

end
