(* ===== verification/Af_Inet.thy ===== *)
theory Af_Inet
  imports Transport
begin

text \<open>
  The Internet address family (\<open>netinet/af_inet.c\<close>): port numbers, the operations of Internet sockets
  and the tables that hold them (\<open>struct protocol_ops\<close> of \<open>net/net.h\<close>), and the initialisation of the
  protocols (\<open>ip_init\<close> of \<open>netinet/ip.c\<close>, \<open>inet_init\<close>).
\<close>

section \<open>The code\<close>

definition inet_get_port :: "'z swaps_scheme \<Rightarrow> ('h, 'w) sock_world_scheme \<Rightarrow> uint16_t \<times> ('h, 'w) sock_world_scheme" where
  "inet_get_port P w =
     (let port = inet_port w; next' = inet_port w + 1; next' = (if next' = 0 then 49152 else next') in
      (htons P port, w\<lparr>inet_port := next'\<rparr>))"

definition inet_release :: "addr \<Rightarrow> ('h, 'w) sock_world_scheme \<Rightarrow> (int8_t \<times> ('h, 'w) sock_world_scheme) res" where
  "inet_release sk w = bnd (load_sk w sk) (\<lambda>_. Ok (0, w))"

definition inet_shutdown :: "addr \<Rightarrow> uint8_t \<Rightarrow> ('h, 'w) sock_world_scheme \<Rightarrow>
    (int8_t \<times> ('h, 'w) sock_world_scheme) res" where
  "inet_shutdown sk how w =
     (if 2 < how then Ok (- 1, w)
      else bnd (upd_sk sk (\<lambda>k. k\<lparr>sk_state := SS_UNCONNECTED\<rparr>) w) (\<lambda>w. Ok (0, w)))"

definition inet_bind :: "'z swaps_scheme \<Rightarrow> addr \<Rightarrow> sockaddr_in option \<Rightarrow> uint8_t \<Rightarrow> ('h, 'w) sock_world_scheme \<Rightarrow>
    (int8_t \<times> ('h, 'w) sock_world_scheme) res" where
  "inet_bind P sk addr addr_len w =
     (if addr_len < SOCKADDR_IN_SIZE then Ok (- 1, w) else
      case addr of None \<Rightarrow> Fault Null_deref
      | Some addr_in \<Rightarrow>
          if sin_family addr_in \<noteq> AF_INET \<and>
             (sin_family addr_in \<noteq> AF_UNSPEC \<or> sin_addr addr_in \<noteq> htonl P INADDR_ANY) then Ok (- 1, w)
          else
            bnd (load_sk w sk) (\<lambda>k.
            if sk_src_port k \<noteq> 0 then Ok (- 1, w) else
            bnd (upd_sk sk (\<lambda>k. k\<lparr>sk_src_addr := sin_addr addr_in, sk_dst_addr := 0,
                   sk_src_port := htons P (sin_port addr_in), sk_dst_port := 0\<rparr>) w) (\<lambda>w.
            Ok (0, w))))"

definition inet_sendmsg :: "('h, 'w) sock_world_scheme platform \<Rightarrow> nat \<Rightarrow> addr \<Rightarrow> msghdr \<Rightarrow>
    ('h, 'w) sock_world_scheme \<Rightarrow> (ssize_t \<times> ('h, 'w) sock_world_scheme) res" where
  "inet_sendmsg P fuel sk msg w =
     bnd (load_sk w sk) (\<lambda>k.
     bnd (if sk_src_port k = 0 then
            let (port, w) = inet_get_port P w in upd_sk sk (\<lambda>k. k\<lparr>sk_src_port := port\<rparr>) w
          else Ok w) (\<lambda>w.
     if sk_protocol k = IPPROTO_TCP then tcp_send_msg sk msg w
     else if sk_protocol k = IPPROTO_UDP then udp_send_msg P fuel sk msg w
     else Ok (- 1, w)))"

text \<open>The tables of operations; both have the same entries.\<close>

record 'w protocol_ops =
  po_release :: "(addr \<Rightarrow> 'w \<Rightarrow> (int8_t \<times> 'w) res) option"
  po_shutdown :: "(addr \<Rightarrow> uint8_t \<Rightarrow> 'w \<Rightarrow> (int8_t \<times> 'w) res) option"
  po_accept :: "(addr \<Rightarrow> addr \<Rightarrow> 'w \<Rightarrow> (addr \<times> 'w) res) option"
  po_bind :: "(addr \<Rightarrow> sockaddr_in option \<Rightarrow> uint8_t \<Rightarrow> 'w \<Rightarrow> (int8_t \<times> 'w) res) option"
  po_connect :: "(addr \<Rightarrow> sockaddr_in option \<Rightarrow> uint8_t \<Rightarrow> 'w \<Rightarrow> (int8_t \<times> 'w) res) option"
  po_listen :: "(addr \<Rightarrow> uint8_t \<Rightarrow> 'w \<Rightarrow> (int8_t \<times> 'w) res) option"
  po_sendmsg :: "(addr \<Rightarrow> msghdr \<Rightarrow> 'w \<Rightarrow> (ssize_t \<times> 'w) res) option"
  po_recvmsg :: "(addr \<Rightarrow> msghdr \<Rightarrow> uint16_t \<Rightarrow> uint8_t \<Rightarrow> 'w \<Rightarrow> (ssize_t \<times> 'w) res) option"

definition inet_stream_ops :: "('h, 'w) sock_world_scheme platform \<Rightarrow> nat \<Rightarrow> ('h, 'w) sock_world_scheme protocol_ops" where
  "inet_stream_ops P fuel = \<lparr>po_release = Some inet_release, po_shutdown = Some inet_shutdown, po_accept = None,
     po_bind = Some (inet_bind P), po_connect = None, po_listen = None, po_sendmsg = Some (inet_sendmsg P fuel),
     po_recvmsg = None\<rparr>"

definition inet_dgram_ops :: "('h, 'w) sock_world_scheme platform \<Rightarrow> nat \<Rightarrow> ('h, 'w) sock_world_scheme protocol_ops" where
  "inet_dgram_ops P fuel = \<lparr>po_release = Some inet_release, po_shutdown = Some inet_shutdown, po_accept = None,
     po_bind = Some (inet_bind P), po_connect = None, po_listen = None, po_sendmsg = Some (inet_sendmsg P fuel),
     po_recvmsg = None\<rparr>"

definition proto_ops :: "('h, 'w) sock_world_scheme platform \<Rightarrow> nat \<Rightarrow> sock_ops \<Rightarrow> ('h, 'w) sock_world_scheme protocol_ops" where
  "proto_ops P fuel t = (case t of Inet_stream_ops \<Rightarrow> inet_stream_ops P fuel | Inet_dgram_ops \<Rightarrow> inet_dgram_ops P fuel)"

text \<open>
  \<open>err = -1\<close> stands before the first \<open>case\<close> of the \<open>switch\<close> and is never executed, so \<open>err\<close> has no
  value (\<open>None\<close>) when the protocol does not suit the type; the code then branches on it.
\<close>

definition inet_sock_create :: "addr \<Rightarrow> uint8_t \<Rightarrow> ('h, 'w) sock_world_scheme \<Rightarrow>
    (int8_t \<times> ('h, 'w) sock_world_scheme) res" where
  "inet_sock_create sk protocol w =
     bnd (load_sk w sk) (\<lambda>k.
     let (err, protocol, ops') =
       (if sk_type k = ucast SOCK_STREAM then
          let protocol = (if protocol = 0 then IPPROTO_TCP else protocol) in
          if protocol = IPPROTO_TCP then (Some 0, protocol, Some Inet_stream_ops) else (None, protocol, None)
        else if sk_type k = ucast SOCK_DGRAM then
          let protocol = (if protocol = 0 then IPPROTO_UDP else protocol) in
          if protocol = IPPROTO_UDP \<or> protocol = IPPROTO_ICMP then (Some 0, protocol, Some Inet_dgram_ops)
          else (None, protocol, None)
        else if protocol = 0 then (Some (- 1), protocol, None)
        else (None, protocol, None)) in
     case err of None \<Rightarrow> Fault Uninit
     | Some err \<Rightarrow>
         if err \<noteq> 0 then Ok (err, w) else
         bnd (upd_sk sk (\<lambda>k. k\<lparr>sk_p_ops := ops', sk_protocol := protocol, sk_state := SS_UNCONNECTED\<rparr>) w) (\<lambda>w.
         bnd (nb_queue_init (TXQ sk) w) (\<lambda>w.
         bnd (nb_queue_init (RXQ sk) w) (\<lambda>w.
         Ok (err, w)))))"

definition ip_init :: "('h, 'w) tab_world_scheme \<Rightarrow> ('h, 'w) tab_world_scheme" where
  "ip_init w = pkt_hdlr_add ETH_P_IP (Some H_ip_recv) (udp_init (tcp_init (icmp_init w)))"

definition inet_init :: "('h, 'w) ip_world_scheme \<Rightarrow> ('h, 'w) ip_world_scheme" where
  "inet_init w = ip_init (arp_init w)"

section \<open>Lemmas\<close>

lemma inet_sock_create_cases:
  assumes "sk \<noteq> 0" "socks w sk = Some k"
  shows "inet_sock_create sk protocol w =
    (let good = (\<lambda>proto ops'. bnd (nb_queue_init (TXQ sk) (w\<lparr>socks := (socks w)(sk \<mapsto>
           k\<lparr>sk_p_ops := Some ops', sk_protocol := proto, sk_state := SS_UNCONNECTED\<rparr>)\<rparr>))
         (\<lambda>w. bnd (nb_queue_init (RXQ sk) w) (\<lambda>w. Ok (0, w)))) in
     if sk_type k = ucast SOCK_STREAM \<and> protocol \<in> {0, IPPROTO_TCP} then good IPPROTO_TCP Inet_stream_ops
     else if sk_type k = ucast SOCK_DGRAM \<and> protocol \<in> {0, IPPROTO_UDP} then good IPPROTO_UDP Inet_dgram_ops
     else if sk_type k = ucast SOCK_DGRAM \<and> protocol = IPPROTO_ICMP then good IPPROTO_ICMP Inet_dgram_ops
     else if sk_type k \<notin> {ucast SOCK_STREAM, ucast SOCK_DGRAM} \<and> protocol = 0 then Ok (- 1, w)
     else Fault Uninit)"
  using assms by (auto simp: inet_sock_create_def sk_simps Let_def SOCK_STREAM_def SOCK_DGRAM_def
      IPPROTO_TCP_def IPPROTO_UDP_def IPPROTO_ICMP_def)

text \<open>The port that the \<open>n\<close>-th call of \<open>inet_get_port\<close> hands out.\<close>

definition nth_port :: "nat \<Rightarrow> nat" where
  "nth_port n = 49152 + n mod 16384"

lemma inet_port_step:
  assumes "unat p = nth_port n"
  shows "unat (if p + 1 = 0 then 49152 else p + 1 :: uint16_t) = nth_port (Suc n)"
proof (cases "n mod 16384 = 16383")
  case True
  then have "unat p = 65535" using assms by (simp add: nth_port_def)
  then have "p = 65535" by (simp add: word_unat_eq_iff)
  then show ?thesis using True by (simp add: nth_port_def mod_Suc)
next
  case False
  then have p: "unat p < 65535" using assms mod_less_divisor[of 16384 n] by (simp add: nth_port_def)
  then have "unat (p + 1) = unat p + 1" by (simp add: unat_word_ariths)
  moreover from this have "p + 1 \<noteq> 0" by (metis add_is_0 unat_0 zero_neq_one)
  ultimately show ?thesis using False assms by (simp add: nth_port_def mod_Suc)
qed

text \<open>The ports handed out by successive calls.\<close>

primrec get_ports :: "'z swaps_scheme \<Rightarrow> nat \<Rightarrow> ('h, 'w) sock_world_scheme \<Rightarrow> uint16_t list" where
  "get_ports P 0 w = []"
| "get_ports P (Suc n) w = (let (port, w) = inet_get_port P w in port # get_ports P n w)"

lemma get_ports_nth:
  "unat (inet_port w) = nth_port s \<Longrightarrow>
     get_ports P n w = map (\<lambda>i. htons P (of_nat (nth_port (s + i)))) [0..<n]"
proof (induction n arbitrary: w s)
  case (Suc n)
  have "unat (inet_port (snd (inet_get_port P w))) = nth_port (Suc s)"
    using inet_port_step[OF Suc.prems] by (simp add: inet_get_port_def Let_def)
  from Suc.IH[OF this] have "get_ports P n (snd (inet_get_port P w)) =
      map (\<lambda>i. htons P (of_nat (nth_port (s + i)))) (map Suc [0..<n])" by (simp add: comp_def)
  moreover have "inet_port w = of_nat (nth_port s)" by (metis Suc.prems of_nat_unat ucast_id)
  ultimately show ?case
    unfolding map_Suc_upt by (simp add: inet_get_port_def Let_def upt_conv_Cons del: upt_Suc)
qed simp

section \<open>Properties\<close>

text \<open>C37: the port numbers that \<open>inet_get_port\<close> hands out are always private ports (49152 to 65535), in
  network order, and no port comes again before all 16384 of them have been handed out; from the
  initial value of the counter on, across the wrap-around of the 16-bit counter.\<close>

theorem inet_ports_distinct:
  assumes "swaps_ok P" "49152 \<le> unat (inet_port w)" "n \<le> 16384"
  shows "distinct (get_ports P n w) \<and> (\<forall>p \<in> set (get_ports P n w). 49152 \<le> unat (ntohs P p))"
proof -
  define s where "s = unat (inet_port w) - 49152"
  have s: "unat (inet_port w) = nth_port s"
  proof -
    have "s < 16384" using assms(2) unat16_less[of "inet_port w"] unfolding s_def by linarith
    then show ?thesis using assms(2) by (simp add: nth_port_def s_def)
  qed
  have small: "nth_port i < 65536" for i using mod_less_divisor[of 16384 i] by (simp add: nth_port_def)
  then have u: "unat (of_nat (nth_port i) :: uint16_t) = nth_port i" for i by (rule unat_of_nat16)
  have inj: "i = j" if "i < n" "j < n" "nth_port (s + i) = nth_port (s + j)" for i j
  proof -
    have "(s + i) mod 16384 = (s + j) mod 16384" using that(3) by (simp add: nth_port_def)
    then have "i mod 16384 = j mod 16384" by (simp add: nat_mod_eq_iff)
    moreover have "i < 16384" "j < 16384" using that(1,2) assms(3) by auto
    ultimately show ?thesis by simp
  qed
  have "inj_on (\<lambda>i. htons P (of_nat (nth_port (s + i)))) {0..<n}"
    using inj assms(1) u by (auto intro!: inj_onI simp: swap_simps) (metis u)
  moreover have "49152 \<le> unat (ntohs P (htons P (of_nat (nth_port i))))" for i
    using assms(1) u[of i] by (simp add: swap_simps nth_port_def)
  ultimately show ?thesis
    unfolding get_ports_nth[OF s] by (auto simp: distinct_map)
qed

theorem inet_ports_distinct_witness:
  "distinct (get_ports avr_swaps 3 (demo_sock_world 0 Map.empty)) \<and> get_ports avr_swaps 1 (demo_sock_world 0 Map.empty) = [0x00C0]"
proof -
  have "distinct (get_ports avr_swaps 3 (demo_sock_world 0 Map.empty))"
    using inet_ports_distinct[of avr_swaps "demo_sock_world 0 Map.empty" 3] by simp
  moreover have "swap16 49152 = 0x00C0" by code_simp
  ultimately show ?thesis by (simp add: inet_get_port_def swap_simps)
qed

end
