(* ===== verification/Socket_List.thy ===== *)
theory Socket_List
  imports Af_Inet
begin

text \<open>
  The list of open sockets of \<open>net/socket.c\<close>: a doubly-linked list through the \<open>prev\<close> and \<open>next\<close> fields
  of the sockets, ended by \<open>NULL\<close> on both sides, with its first entry in \<open>socket_list\<close>.  The abstraction
  \<open>list_rep\<close> relates the links to an Isabelle list; the interface \<open>registry\<close>, interpreted at the end,
  says that adding and deleting keep a list of distinct live entries.
\<close>

section \<open>The code\<close>

definition socket_list_init :: "('h, 'w) sock_world_scheme \<Rightarrow> ('h, 'w) sock_world_scheme res" where
  "socket_list_init w =
     bnd (upd_sk (socket_list w) (\<lambda>k. k\<lparr>sk_prev := 0\<rparr>) w) (\<lambda>w.
     upd_sk (socket_list w) (\<lambda>k. k\<lparr>sk_next := 0\<rparr>) w)"

definition socket_list_add :: "addr \<Rightarrow> ('h, 'w) sock_world_scheme \<Rightarrow> ('h, 'w) sock_world_scheme res" where
  "socket_list_add new w =
     bnd (if socket_list w = 0 then upd_sk new (\<lambda>k. k\<lparr>sk_next := 0\<rparr>) w
          else bnd (upd_sk (socket_list w) (\<lambda>k. k\<lparr>sk_prev := new\<rparr>) w) (\<lambda>w.
               upd_sk new (\<lambda>k. k\<lparr>sk_next := socket_list w\<rparr>) w)) (\<lambda>w.
     let w = w\<lparr>socket_list := new\<rparr> in
     upd_sk (socket_list w) (\<lambda>k. k\<lparr>sk_prev := 0\<rparr>) w)"

definition socket_list_del :: "addr \<Rightarrow> ('h, 'w) sock_world_scheme \<Rightarrow> ('h, 'w) sock_world_scheme res" where
  "socket_list_del entry w =
     bnd (load_sk w entry) (\<lambda>e.
     bnd (if sk_next e \<noteq> 0 then upd_sk (sk_next e) (\<lambda>k. k\<lparr>sk_prev := sk_prev e\<rparr>) w else Ok w) (\<lambda>w.
     bnd (load_sk w entry) (\<lambda>e.
     if sk_prev e \<noteq> 0 then upd_sk (sk_prev e) (\<lambda>k. k\<lparr>sk_next := sk_next e\<rparr>) w
     else Ok (w\<lparr>socket_list := sk_next e\<rparr>))))"

section \<open>Segments of a doubly-linked list\<close>

text \<open>
  \<open>dseg L p c xs l e\<close>: from \<open>c\<close>, whose predecessor is \<open>p\<close>, the links \<open>L\<close> (next and previous) run through
  \<open>xs\<close> up to its last entry \<open>l\<close> and on to \<open>e\<close>.
\<close>

fun dseg :: "(addr \<Rightarrow> (addr \<times> addr) option) \<Rightarrow> addr \<Rightarrow> addr \<Rightarrow> addr list \<Rightarrow> addr \<Rightarrow> addr \<Rightarrow> bool" where
  "dseg L p c [] l e \<longleftrightarrow> l = p \<and> e = c"
| "dseg L p c (x # xs) l e \<longleftrightarrow> c = x \<and> x \<noteq> 0 \<and> (\<exists>n. L x = Some (n, p) \<and> dseg L x n xs l e)"

lemma dseg_append:
  "dseg L p c (xs @ ys) l e \<longleftrightarrow> (\<exists>m d. dseg L p c xs m d \<and> dseg L m d ys l e)"
  by (induction xs arbitrary: p c) auto

lemma dseg_cong: "(\<And>x. x \<in> set xs \<Longrightarrow> L' x = L x) \<Longrightarrow> dseg L' p c xs l e = dseg L p c xs l e"
  by (induction xs arbitrary: p c) auto

lemma dseg_upd_other [simp]: "a \<notin> set xs \<Longrightarrow> dseg (L(a := v)) p c xs l e = dseg L p c xs l e"
  by (rule dseg_cong) auto

lemma dseg_live: "dseg L p c xs l e \<Longrightarrow> x \<in> set xs \<Longrightarrow> x \<noteq> 0 \<and> L x \<noteq> None"
  by (induction xs arbitrary: p c) auto

text \<open>Redirecting the first entry backwards and the last one forwards.\<close>

lemma dseg_relast:
  "dseg L p c (xs @ [x]) l e \<Longrightarrow> x \<notin> set xs \<Longrightarrow> L x = Some (e, q) \<Longrightarrow>
     dseg (L(x \<mapsto> (e', q))) p c (xs @ [x]) l e'"
  by (auto simp: dseg_append)

section \<open>Abstraction\<close>

definition slinks :: "('h, 'w) sock_world_scheme \<Rightarrow> addr \<Rightarrow> (addr \<times> addr) option" where
  "slinks w a = map_option (\<lambda>k. (sk_next k, sk_prev k)) (socks w a)"

definition list_rep :: "('h, 'w) sock_world_scheme \<Rightarrow> addr list \<Rightarrow> bool" where
  "list_rep w xs \<longleftrightarrow> distinct xs \<and> (\<exists>l. dseg (slinks w) 0 (socket_list w) xs l 0)"

text \<open>The sockets but for their links: what the list operations leave alone.\<close>

definition bare :: "('h, 'w) sock_world_scheme \<Rightarrow> addr \<Rightarrow> socket option" where
  "bare w a = map_option (\<lambda>k. k\<lparr>sk_prev := 0, sk_next := 0\<rparr>) (socks w a)"

definition sock_rest :: "('h, 'w) sock_world_scheme \<Rightarrow> ('h, 'w) sock_world_scheme" where
  "sock_rest w = w\<lparr>socks := bare w, socket_list := 0\<rparr>"

lemma head_simps [simp]: "slinks (w\<lparr>socket_list := x\<rparr>) = slinks w" "sock_rest (w\<lparr>socket_list := x\<rparr>) = sock_rest w"
  by (simp_all add: slinks_def sock_rest_def bare_def fun_eq_iff)

lemma sock_rest_dom: "sock_rest w' = sock_rest w \<Longrightarrow> (socks w' a = None) = (socks w a = None)"
proof -
  assume "sock_rest w' = sock_rest w"
  then have "socks (sock_rest w') a = socks (sock_rest w) a" by simp
  then show ?thesis by (auto simp: sock_rest_def bare_def)
qed

lemma upd_sk_prev:
  assumes "s \<noteq> 0" "slinks w s = Some (n, p)"
  obtains w' where "upd_sk s (\<lambda>k. k\<lparr>sk_prev := x\<rparr>) w = Ok w'" "slinks w' = (slinks w)(s \<mapsto> (n, x))"
    "socket_list w' = socket_list w" "sock_rest w' = sock_rest w"
proof -
  obtain k where k: "socks w s = Some k" "sk_next k = n" using assms(2) by (auto simp: slinks_def)
  show ?thesis
    by (rule that[of "w\<lparr>socks := (socks w)(s \<mapsto> k\<lparr>sk_prev := x\<rparr>)\<rparr>"])
      (use assms(1) k in \<open>auto simp: sk_simps slinks_def sock_rest_def bare_def fun_eq_iff\<close>)
qed

lemma upd_sk_next:
  assumes "s \<noteq> 0" "slinks w s = Some (n, p)"
  obtains w' where "upd_sk s (\<lambda>k. k\<lparr>sk_next := x\<rparr>) w = Ok w'" "slinks w' = (slinks w)(s \<mapsto> (x, p))"
    "socket_list w' = socket_list w" "sock_rest w' = sock_rest w"
proof -
  obtain k where k: "socks w s = Some k" "sk_prev k = p" using assms(2) by (auto simp: slinks_def)
  show ?thesis
    by (rule that[of "w\<lparr>socks := (socks w)(s \<mapsto> k\<lparr>sk_next := x\<rparr>)\<rparr>"])
      (use assms(1) k in \<open>auto simp: sk_simps slinks_def sock_rest_def bare_def fun_eq_iff\<close>)
qed

lemma socket_list_add_rep:
  assumes rep: "list_rep w xs" and new: "new \<notin> set xs" "new \<noteq> 0" "socks w new \<noteq> None"
  obtains w' where "socket_list_add new w = Ok w'" "list_rep w' (new # xs)" "sock_rest w' = sock_rest w"
proof (cases xs)
  case Nil
  obtain n p where np: "slinks w new = Some (n, p)" using new(3) by (auto simp: slinks_def)
  have h: "socket_list w = 0" using rep Nil by (simp add: list_rep_def)
  obtain w1 where 1: "upd_sk new (\<lambda>k. k\<lparr>sk_next := 0\<rparr>) w = Ok w1" "slinks w1 = (slinks w)(new \<mapsto> (0, p))"
    "sock_rest w1 = sock_rest w" by (rule upd_sk_next[OF new(2) np])
  let ?w1 = "w1\<lparr>socket_list := new\<rparr>"
  have "slinks ?w1 new = Some (0, p)" using 1(2) by simp
  then obtain w2 where 2: "upd_sk new (\<lambda>k. k\<lparr>sk_prev := 0\<rparr>) ?w1 = Ok w2" "slinks w2 = (slinks ?w1)(new \<mapsto> (0, 0))"
    "socket_list w2 = socket_list ?w1" "sock_rest w2 = sock_rest ?w1" by (rule upd_sk_prev[OF new(2)])
  show ?thesis
  proof (rule that[of w2])
    show "socket_list_add new w = Ok w2" using 1(1) 2(1) h by (simp add: socket_list_add_def)
    show "list_rep w2 (new # xs)" using new(2) Nil 2 by (simp add: list_rep_def)
    show "sock_rest w2 = sock_rest w" using 1(3) 2(4) by simp
  qed
next
  case (Cons x ys)
  obtain n p where np: "slinks w new = Some (n, p)" using new(3) by (auto simp: slinks_def)
  obtain m l where m: "socket_list w = x" "x \<noteq> 0" "slinks w x = Some (m, 0)" "dseg (slinks w) x m ys l 0"
    "new \<noteq> x" "x \<notin> set ys" using rep new(1) Cons by (auto simp: list_rep_def)
  obtain w0 where 0: "upd_sk x (\<lambda>k. k\<lparr>sk_prev := new\<rparr>) w = Ok w0" "slinks w0 = (slinks w)(x \<mapsto> (m, new))"
    "socket_list w0 = socket_list w" "sock_rest w0 = sock_rest w" by (rule upd_sk_prev[OF m(2,3)])
  have "slinks w0 new = Some (n, p)" using np 0(2) m(5) by simp
  then obtain w1 where 1: "upd_sk new (\<lambda>k. k\<lparr>sk_next := x\<rparr>) w0 = Ok w1" "slinks w1 = (slinks w0)(new \<mapsto> (x, p))"
    "sock_rest w1 = sock_rest w0" by (rule upd_sk_next[OF new(2)])
  let ?w1 = "w1\<lparr>socket_list := new\<rparr>"
  have s1: "slinks ?w1 = slinks w1" by simp
  then have "slinks ?w1 new = Some (x, p)" using 1(2) by simp
  then obtain w2 where 2: "upd_sk new (\<lambda>k. k\<lparr>sk_prev := 0\<rparr>) ?w1 = Ok w2" "slinks w2 = (slinks ?w1)(new \<mapsto> (x, 0))"
    "socket_list w2 = socket_list ?w1" "sock_rest w2 = sock_rest ?w1" by (rule upd_sk_prev[OF new(2)])
  show ?thesis
  proof (rule that[of w2])
    show "socket_list_add new w = Ok w2" using 0(1,3) 1(1) 2(1) m(1,2) by (simp add: socket_list_add_def)
    show "list_rep w2 (new # xs)"
      using rep new Cons m 0(2) 1(2) 2 unfolding s1 by (auto simp: list_rep_def)
    show "sock_rest w2 = sock_rest w" using 0(4) 1(3) 2(4) by simp
  qed
qed

lemma socket_list_del_unfold:
  assumes "entry \<noteq> 0" "socks w entry = Some e" "socks w1 entry = Some e1"
    and "(if sk_next e \<noteq> 0 then upd_sk (sk_next e) (\<lambda>k. k\<lparr>sk_prev := sk_prev e\<rparr>) w else Ok w) = Ok w1"
  shows "socket_list_del entry w = (if sk_prev e1 \<noteq> 0 then upd_sk (sk_prev e1) (\<lambda>k. k\<lparr>sk_next := sk_next e1\<rparr>) w1
     else Ok (w1\<lparr>socket_list := sk_next e1\<rparr>))"
  unfolding socket_list_del_def load_sk_Some[OF assms(1,2)] bnd.simps assms(4) load_sk_Some[OF assms(1,3)] ..

text \<open>The links after the store to the node behind the one that is removed.\<close>

definition back_to :: "addr \<Rightarrow> addr \<Rightarrow> (addr \<Rightarrow> (addr \<times> addr) option) \<Rightarrow> addr \<Rightarrow> (addr \<times> addr) option" where
  "back_to n p L = (if n \<noteq> 0 then L(n := map_option (\<lambda>x. (fst x, p)) (L n)) else L)"

lemma dseg_back_to:
  assumes "dseg L 0 h ys p a" "L a = Some (n, p)" "a \<noteq> 0" "dseg L a n zs l 0" "distinct (ys @ a # zs)"
  shows "dseg (back_to n p L) 0 h ys p a" "back_to n p L a = Some (n, p)"
    "dseg (back_to n p L) p n zs (if zs = [] then p else l) 0"
proof -
  have "n \<notin> set ys" if "n \<noteq> 0" using that assms(4,5) by (cases zs) auto
  then show "dseg (back_to n p L) 0 h ys p a" using assms(1) by (simp add: back_to_def)
  have "n \<noteq> a" using assms(3-5) by (cases zs) auto
  then show "back_to n p L a = Some (n, p)" using assms(2) by (simp add: back_to_def)
  show "dseg (back_to n p L) p n zs (if zs = [] then p else l) 0"
    using assms(4,5) by (cases zs) (auto simp: back_to_def)
qed

lemma upd_sk_back_to:
  assumes "dseg (slinks w) a n zs l 0"
  obtains w1 where "(if n \<noteq> 0 then upd_sk n (\<lambda>k. k\<lparr>sk_prev := p\<rparr>) w else Ok w) = Ok w1" "slinks w1 = back_to n p (slinks w)"
    "socket_list w1 = socket_list w" "sock_rest w1 = sock_rest w"
proof (cases "n = 0")
  case False
  then obtain m where "slinks w n = Some (m, a)" using assms by (cases zs) auto
  from upd_sk_prev[OF False this, of p] False this that show ?thesis by (auto simp: back_to_def)
qed (use that back_to_def in auto)

lemma socket_list_del_rep:
  assumes rep: "list_rep w xs" and a: "a \<in> set xs"
  obtains w' where "socket_list_del a w = Ok w'" "list_rep w' (remove1 a xs)" "sock_rest w' = sock_rest w"
proof -
  obtain ys zs where xs: "xs = ys @ a # zs" using a by (auto simp: in_set_conv_decomp)
  have d: "distinct xs" using rep by (simp add: list_rep_def)
  obtain p n l where s: "dseg (slinks w) 0 (socket_list w) ys p a" "slinks w a = Some (n, p)" "a \<noteq> 0"
    "dseg (slinks w) a n zs l 0" using rep unfolding list_rep_def xs by (auto simp: dseg_append)
  obtain k where k: "socks w a = Some k" "sk_next k = n" "sk_prev k = p" using s(2) by (auto simp: slinks_def)
  have rm: "remove1 a xs = ys @ zs" using d xs by (simp add: remove1_append)
  let ?L = "back_to n p (slinks w)"
  obtain w1 where 1: "(if n \<noteq> 0 then upd_sk n (\<lambda>k. k\<lparr>sk_prev := p\<rparr>) w else Ok w) = Ok w1" "slinks w1 = ?L"
    "socket_list w1 = socket_list w" "sock_rest w1 = sock_rest w" by (rule upd_sk_back_to[OF s(4)])
  note L = dseg_back_to[OF s d[unfolded xs]]
  obtain k1 where k1: "socks w1 a = Some k1" "sk_next k1 = n" "sk_prev k1 = p"
    using L(2) by (cases "socks w1 a") (auto simp: slinks_def simp flip: 1(2))
  show ?thesis
  proof (cases ys rule: rev_cases)
    case Nil
    then have p0: "p = 0" "socket_list w = a" using s(1) by auto
    let ?w2 = "w1\<lparr>socket_list := n\<rparr>"
    have "slinks ?w2 = ?L" using 1(2) by simp
    then have "list_rep ?w2 zs" using L(3) p0 d xs by (auto simp: list_rep_def)
    moreover have "socket_list_del a w = Ok ?w2"
      using socket_list_del_unfold[OF s(3) k(1) k1(1) 1(1)[folded k(2,3)]] k1 p0 by simp
    moreover have "sock_rest ?w2 = sock_rest w" using 1(4) by simp
    ultimately show ?thesis using that[of ?w2] rm Nil by simp
  next
    case (snoc us v)
    have v: "v = p" "p \<noteq> 0" using s(1) snoc by (auto simp: dseg_append)
    obtain q where q: "?L p = Some (a, q)" using L(1) snoc v by (auto simp: dseg_append)
    obtain w2 where 2: "upd_sk p (\<lambda>k. k\<lparr>sk_next := n\<rparr>) w1 = Ok w2" "slinks w2 = (slinks w1)(p \<mapsto> (n, q))"
      "socket_list w2 = socket_list w1" "sock_rest w2 = sock_rest w1"
      by (rule upd_sk_next[OF v(2), of w1 a q n]) (use q 1(2) in simp_all)
    have p: "p \<notin> set us" "p \<notin> set zs" using d xs snoc v by auto
    have "dseg (slinks w2) 0 (socket_list w) ys p n"
      using dseg_relast[OF _ p(1), of ?L 0 "socket_list w" p a q n] L(1) q snoc v 1(2) 2(2) by simp
    moreover obtain l' where "dseg (slinks w2) p n zs l' 0" using L(3) p(2) 1(2) 2(2) by auto
    ultimately have "list_rep w2 (ys @ zs)"
      using d xs 2(3) 1(3) by (auto simp: list_rep_def dseg_append)
    moreover have "socket_list_del a w = Ok w2"
      using socket_list_del_unfold[OF s(3) k(1) k1(1) 1(1)[folded k(2,3)]] 2(1) k1 v by simp
    ultimately show ?thesis using that[of w2] rm 1(4) 2(4) by simp
  qed
qed

section \<open>The interface of the list\<close>

text \<open>A history of registrations and removals; the entries that are registered after it.\<close>

datatype 'x change = Add 'x | Del 'x

fun changes :: "('x \<Rightarrow> 'w \<Rightarrow> 'w res) \<Rightarrow> ('x \<Rightarrow> 'w \<Rightarrow> 'w res) \<Rightarrow> 'x change list \<Rightarrow> 'w \<Rightarrow> 'w res" where
  "changes add del [] w = Ok w"
| "changes add del (Add x # cs) w = bnd (add x w) (changes add del cs)"
| "changes add del (Del x # cs) w = bnd (del x w) (changes add del cs)"

fun registered :: "'x change list \<Rightarrow> 'x list \<Rightarrow> 'x list" where
  "registered [] xs = xs"
| "registered (Add x # cs) xs = registered cs (x # xs)"
| "registered (Del x # cs) xs = registered cs (remove1 x xs)"

text \<open>Nothing is added twice, and only what is there is removed.\<close>

fun proper :: "'x change list \<Rightarrow> 'x list \<Rightarrow> bool" where
  "proper [] xs \<longleftrightarrow> True"
| "proper (Add x # cs) xs \<longleftrightarrow> x \<notin> set xs \<and> proper cs (x # xs)"
| "proper (Del x # cs) xs \<longleftrightarrow> x \<in> set xs \<and> proper cs (remove1 x xs)"

fun added :: "'x change \<Rightarrow> 'x set" where
  "added (Add x) = {x}"
| "added (Del x) = {}"

locale registry =
  fixes rep :: "'w \<Rightarrow> 'x list \<Rightarrow> bool"
    and frame :: "'w \<Rightarrow> 'v"
    and live :: "'w \<Rightarrow> 'x \<Rightarrow> bool"
    and add :: "'x \<Rightarrow> 'w \<Rightarrow> 'w res"
    and del :: "'x \<Rightarrow> 'w \<Rightarrow> 'w res"
  assumes frame_live: "frame w' = frame w \<Longrightarrow> live w' = live w"
    and add_rep: "rep w xs \<Longrightarrow> x \<notin> set xs \<Longrightarrow> live w x \<Longrightarrow>
      \<exists>w'. add x w = Ok w' \<and> rep w' (x # xs) \<and> frame w' = frame w"
    and del_rep: "rep w xs \<Longrightarrow> x \<in> set xs \<Longrightarrow>
      \<exists>w'. del x w = Ok w' \<and> rep w' (remove1 x xs) \<and> frame w' = frame w"
begin

lemma changes_rep:
  "rep w xs \<Longrightarrow> proper cs xs \<Longrightarrow> \<forall>c \<in> set cs. \<forall>x \<in> added c. live w x \<Longrightarrow>
     \<exists>w'. changes add del cs w = Ok w' \<and> rep w' (registered cs xs) \<and> frame w' = frame w"
proof (induction cs arbitrary: w xs)
  case (Cons c cs)
  have step: "\<exists>w'. changes add del cs w1 = Ok w' \<and> rep w' (registered cs ys) \<and> frame w' = frame w"
    if "rep w1 ys" "proper cs ys" "frame w1 = frame w" for w1 ys
    using Cons.IH[OF that(1,2)] Cons.prems(3) frame_live[OF that(3)] that(3) by auto
  show ?case
  proof (cases c)
    case (Add x)
    with Cons.prems add_rep[of w xs x] obtain w1 where "add x w = Ok w1" "rep w1 (x # xs)" "frame w1 = frame w" by auto
    with step[of w1 "x # xs"] Cons.prems(2) Add show ?thesis by simp
  next
    case (Del x)
    with Cons.prems del_rep[of w xs x] obtain w1 where "del x w = Ok w1" "rep w1 (remove1 x xs)" "frame w1 = frame w" by auto
    with step[of w1 "remove1 x xs"] Cons.prems(2) Del show ?thesis by simp
  qed
qed simp

text \<open>Adding a new entry and removing it again leaves the list as it was.\<close>

lemma add_del:
  assumes "rep w xs" "x \<notin> set xs" "live w x"
  shows "\<exists>w' w''. add x w = Ok w' \<and> del x w' = Ok w'' \<and> rep w'' xs \<and> frame w'' = frame w"
proof -
  obtain w' where w': "add x w = Ok w'" "rep w' (x # xs)" "frame w' = frame w" using add_rep[OF assms] by blast
  with del_rep[of w' "x # xs" x] show ?thesis by auto
qed

end

definition sk_live :: "('h, 'w) sock_world_scheme \<Rightarrow> addr \<Rightarrow> bool" where
  "sk_live w a \<longleftrightarrow> a \<noteq> 0 \<and> socks w a \<noteq> None"

interpretation sl: registry list_rep sock_rest sk_live socket_list_add socket_list_del
proof (unfold_locales, goal_cases)
  case (1 w' w)
  then show ?case using sock_rest_dom[OF 1] by (auto simp: sk_live_def fun_eq_iff)
next
  case (2 w xs x)
  then show ?case using socket_list_add_rep[of w xs x] by (auto simp: sk_live_def)
next
  case (3 w xs x)
  then show ?case using socket_list_del_rep[of w xs x] by metis
qed

section \<open>Properties\<close>

text \<open>C21: the list of sockets refines a list without duplicates: any history of \<open>socket_list_add\<close> of
  live sockets that are not in it and \<open>socket_list_del\<close> of sockets that are, from a list in order,
  runs through, leaves exactly the entries that the history leaves, newest first, correctly linked
  both ways, and changes nothing but the links: no other field of any socket and no other part of the state.\<close>

theorem socket_list_refines:
  assumes "list_rep w xs" "proper cs xs" "\<forall>c \<in> set cs. \<forall>x \<in> added c. x \<noteq> 0 \<and> socks w x \<noteq> None"
  shows "\<exists>w'. changes socket_list_add socket_list_del cs w = Ok w' \<and> list_rep w' (registered cs xs) \<and>
    sock_rest w' = sock_rest w"
  using assms by (intro sl.changes_rep) (auto simp: sk_live_def)

definition demo_list_world :: "demo_hw sock_world" where
  "demo_list_world = (demo_sock_world 0 Map.empty)\<lparr>socks := [3 \<mapsto> demo_sock 17, 4 \<mapsto> demo_sock 17, 5 \<mapsto> demo_sock 6], socket_list := 0\<rparr>"

theorem socket_list_refines_witness:
  "\<exists>w'. changes socket_list_add socket_list_del [Add 3, Add 4, Add 5, Del 4] demo_list_world = Ok w' \<and> list_rep w' [5, 3]"
proof -
  have "list_rep demo_list_world []" by (simp add: list_rep_def demo_list_world_def)
  from socket_list_refines[OF this, of "[Add 3, Add 4, Add 5, Del 4]"] show ?thesis
    by (auto simp: demo_list_world_def simp del: changes.simps)
qed

end
