(* ===== verification/Socket.thy ===== *)
theory Socket
  imports Socket_List
begin

text \<open>
  The socket interface of \<open>net/socket.c\<close>: creating and closing sockets, and the calls that go through
  the table of protocol operations.  A pointer to a table is read with \<open>pgm_read_ptr\<close>, as \<open>proto_ops\<close>
  does; \<open>shutdown\<close> reads it as if it lay in data memory, whose contents there are the parameter \<open>ram\<close>.
  Calls that are stubs in the code return their constants.
\<close>

section \<open>The code\<close>

definition p_ops :: "('h, 'w) sock_world_scheme platform \<Rightarrow> nat \<Rightarrow> addr \<Rightarrow> ('h, 'w) sock_world_scheme \<Rightarrow>
    ('h, 'w) sock_world_scheme protocol_ops res" where
  "p_ops P fuel sk w =
     bnd (load_sk w sk) (\<lambda>k. case sk_p_ops k of None \<Rightarrow> Fault Null_deref | Some t \<Rightarrow> Ok (proto_ops P fuel t))"

definition accept :: "addr \<Rightarrow> sockaddr_in option \<Rightarrow> uint8_t option \<Rightarrow> ('h, 'w) sock_world_scheme \<Rightarrow>
    (addr \<times> ('h, 'w) sock_world_scheme) res" where
  "accept sk addr addr_len w = Ok (0, w)"

definition sock_bind :: "('h, 'w) sock_world_scheme platform \<Rightarrow> nat \<Rightarrow> addr \<Rightarrow> sockaddr_in option \<Rightarrow> uint8_t \<Rightarrow>
    ('h, 'w) sock_world_scheme \<Rightarrow> (int8_t \<times> ('h, 'w) sock_world_scheme) res" where
  "sock_bind P fuel sk addr addr_len w =
     (let err = - 1 in
      if sk \<noteq> 0 then
        bnd (p_ops P fuel sk w) (\<lambda>ops'.
        case po_bind ops' of None \<Rightarrow> Ok (err, w) | Some bind_f \<Rightarrow> bind_f sk addr addr_len w)
      else Ok (err, w))"

definition connect :: "addr \<Rightarrow> sockaddr_in option \<Rightarrow> uint8_t \<Rightarrow> ('h, 'w) sock_world_scheme \<Rightarrow>
    (int8_t \<times> ('h, 'w) sock_world_scheme) res" where
  "connect sk addr addr_len w = Ok (0, w)"

definition listen :: "addr \<Rightarrow> uint8_t \<Rightarrow> ('h, 'w) sock_world_scheme \<Rightarrow> (int8_t \<times> ('h, 'w) sock_world_scheme) res" where
  "listen sk backlog w = Ok (0, w)"

definition recvfrom :: "addr \<Rightarrow> bytes \<Rightarrow> uint16_t \<Rightarrow> uint8_t \<Rightarrow> sockaddr_in option \<Rightarrow> uint8_t option \<Rightarrow>
    ('h, 'w) sock_world_scheme \<Rightarrow> (ssize_t \<times> ('h, 'w) sock_world_scheme) res" where
  "recvfrom sk buff buff_size flags addr addr_len w = Ok (0, w)"

definition recv :: "addr \<Rightarrow> bytes \<Rightarrow> uint16_t \<Rightarrow> uint8_t \<Rightarrow> ('h, 'w) sock_world_scheme \<Rightarrow>
    (ssize_t \<times> ('h, 'w) sock_world_scheme) res" where
  "recv sk buff buff_size flags w = recvfrom sk buff buff_size flags None None w"

definition sendto :: "('h, 'w) sock_world_scheme platform \<Rightarrow> nat \<Rightarrow> addr \<Rightarrow> bytes \<Rightarrow> uint16_t \<Rightarrow> uint8_t \<Rightarrow>
    sockaddr_in option \<Rightarrow> uint8_t \<Rightarrow> ('h, 'w) sock_world_scheme \<Rightarrow> (ssize_t \<times> ('h, 'w) sock_world_scheme) res" where
  "sendto P fuel sk buff buff_size flags addr addr_len w =
     (if sk = 0 then Ok (- 1, w) else
      let iov = iovec_import buff buff_size;
          msg = \<lparr>msg_name = None, msg_namelen = 0, msg_iov = Some iov, msg_flags = flags\<rparr>;
          msg = (if addr \<noteq> None then msg\<lparr>msg_name := addr, msg_namelen := addr_len\<rparr> else msg) in
      bnd (p_ops P fuel sk w) (\<lambda>ops'.
      case po_sendmsg ops' of None \<Rightarrow> Fault Null_deref | Some snd_msg_f \<Rightarrow> snd_msg_f sk msg w))"

definition send :: "('h, 'w) sock_world_scheme platform \<Rightarrow> nat \<Rightarrow> addr \<Rightarrow> bytes \<Rightarrow> uint16_t \<Rightarrow> uint8_t \<Rightarrow>
    ('h, 'w) sock_world_scheme \<Rightarrow> (ssize_t \<times> ('h, 'w) sock_world_scheme) res" where
  "send P fuel sk buff buff_size flags w = sendto P fuel sk buff buff_size flags None 0 w"

definition sendmsg :: "('h, 'w) sock_world_scheme platform \<Rightarrow> nat \<Rightarrow> addr \<Rightarrow> msghdr \<Rightarrow> uint8_t \<Rightarrow>
    ('h, 'w) sock_world_scheme \<Rightarrow> (ssize_t \<times> ('h, 'w) sock_world_scheme) res" where
  "sendmsg P fuel sk message flags w =
     bnd (p_ops P fuel sk w) (\<lambda>ops'.
     case po_sendmsg ops' of None \<Rightarrow> Fault Null_deref | Some snd_msg_f \<Rightarrow> snd_msg_f sk message w)"

definition shutdown :: "(sock_ops \<Rightarrow> (addr \<Rightarrow> uint8_t \<Rightarrow> ('h, 'w) sock_world_scheme \<Rightarrow>
    (int8_t \<times> ('h, 'w) sock_world_scheme) res) option) \<Rightarrow> addr \<Rightarrow> uint8_t \<Rightarrow> ('h, 'w) sock_world_scheme \<Rightarrow>
    (int8_t \<times> ('h, 'w) sock_world_scheme) res" where
  "shutdown ram sk how w =
     bnd (load_sk w sk) (\<lambda>k.
     case sk_p_ops k of None \<Rightarrow> Fault Null_deref
     | Some t \<Rightarrow> (case ram t of None \<Rightarrow> Ok (- 1, w) | Some sd_f \<Rightarrow> sd_f sk how w))"

text \<open>A new socket holds zeros, its two queues included; they come and go with it.\<close>

definition zero_socket :: socket where
  "zero_socket = \<lparr>sk_state = 0, sk_type = 0, sk_p_ops = None, sk_dst_addr = 0, sk_src_addr = 0, sk_dst_port = 0,
     sk_src_port = 0, sk_hash = 0, sk_protocol = 0, sk_prev = 0, sk_next = 0\<rparr>"

definition zero_queue :: nb_queue where
  "zero_queue = \<lparr>q_next = NULLP, q_prev = NULLP, q_len = 0\<rparr>"

definition new_sk :: "('h, 'w) sock_world_scheme \<Rightarrow> addr \<times> ('h, 'w) sock_world_scheme" where
  "new_sk w =
     (let (a, w) = malloc (\<lambda>a. socks w a \<noteq> None) w in
      if a = 0 then (0, w)
      else (a, w\<lparr>socks := (socks w)(a \<mapsto> zero_socket),
                 queues := (queues w)(TXQ a \<mapsto> zero_queue, RXQ a \<mapsto> zero_queue)\<rparr>))"

definition free_sk :: "addr \<Rightarrow> ('h, 'w) sock_world_scheme \<Rightarrow> ('h, 'w) sock_world_scheme res" where
  "free_sk a w = (if a = 0 then Ok w else if socks w a = None then Fault Bad_free
     else Ok (w\<lparr>socks := (socks w)(a := None), queues := (queues w)(TXQ a := None, RXQ a := None)\<rparr>))"

definition sock_socket :: "uint8_t \<Rightarrow> uint8_t \<Rightarrow> uint8_t \<Rightarrow> ('h, 'w) sock_world_scheme \<Rightarrow>
    (addr \<times> ('h, 'w) sock_world_scheme) res" where
  "sock_socket family type protocol w =
     (if AF_MAX \<le> family then Ok (0, w)
      else if SOCK_MAX \<le> type then Ok (0, w)
      else
        let (sock, w) = new_sk w in
        if sock = 0 then Ok (0, w) else
        bnd (upd_sk sock (\<lambda>k. k\<lparr>sk_type := ucast type\<rparr>) w) (\<lambda>w.
        bnd (if family = AF_INET then inet_sock_create sock protocol w else Ok (- 1, w)) (\<lambda>(err, w).
        if err \<noteq> 0 then bnd (free_sk sock w) (\<lambda>w. Ok (0, w))
        else bnd (socket_list_add sock w) (\<lambda>w. Ok (sock, w)))))"

text \<open>The result of \<open>sock_close\<close> is what it stores in the pointer that it is given.\<close>

definition sock_close :: "('h, 'w) sock_world_scheme platform \<Rightarrow> nat \<Rightarrow> addr \<Rightarrow> ('h, 'w) sock_world_scheme \<Rightarrow>
    (addr \<times> ('h, 'w) sock_world_scheme) res" where
  "sock_close P fuel sk w =
     bnd (load_sk w sk) (\<lambda>k.
     bnd (case sk_p_ops k of None \<Rightarrow> Ok w
          | Some t \<Rightarrow>
              bnd (case po_release (proto_ops P fuel t) of None \<Rightarrow> Ok w
                   | Some release_f \<Rightarrow> bnd (release_f sk w) (\<lambda>(_, w). Ok w)) (\<lambda>w.
              upd_sk sk (\<lambda>k. k\<lparr>sk_p_ops := None\<rparr>) w)) (\<lambda>w.
     bnd (nb_queue_clear fuel (TXQ sk) w) (\<lambda>w.
     bnd (nb_queue_clear fuel (RXQ sk) w) (\<lambda>w.
     bnd (socket_list_del sk w) (\<lambda>w.
     bnd (free_sk sk w) (\<lambda>w. Ok (0, w)))))))"

section \<open>Creating sockets\<close>

definition empty_queue :: "qref \<Rightarrow> nb_queue" where
  "empty_queue q = \<lparr>q_next = QHEAD q, q_prev = QHEAD q, q_len = 0\<rparr>"

lemma queue_rep_Nil: "queue_rep w q [] \<longleftrightarrow> queues w q = Some (empty_queue q)"
  by (auto simp: queue_rep_def links_def empty_queue_def)

lemma nb_queue_init_eq:
  "queues w q \<noteq> None \<Longrightarrow> nb_queue_init q w = Ok (w\<lparr>queues := (queues w)(q \<mapsto> empty_queue q)\<rparr>)"
  by (auto simp: nb_queue_init_def set_prev_def set_next_def load_q_def empty_queue_def)

text \<open>The table of families, types and protocols: the protocol and the operations of the socket, or
  that no socket is made.\<close>

datatype sock_kind = Created uint8_t sock_ops | Refused | Undefined

definition sock_kind :: "uint8_t \<Rightarrow> uint8_t \<Rightarrow> uint8_t \<Rightarrow> sock_kind" where
  "sock_kind family type protocol =
     (if family \<noteq> AF_INET \<or> SOCK_MAX \<le> type then Refused
      else if type = SOCK_STREAM \<and> protocol \<in> {0, IPPROTO_TCP} then Created IPPROTO_TCP Inet_stream_ops
      else if type = SOCK_DGRAM \<and> protocol \<in> {0, IPPROTO_UDP} then Created IPPROTO_UDP Inet_dgram_ops
      else if type = SOCK_DGRAM \<and> protocol = IPPROTO_ICMP then Created IPPROTO_ICMP Inet_dgram_ops
      else if type = 0 \<and> protocol = 0 then Refused
      else Undefined)"

text \<open>The socket that is made, before it is linked.\<close>

definition made :: "uint8_t \<Rightarrow> uint8_t \<Rightarrow> sock_ops \<Rightarrow> socket" where
  "made type proto t = zero_socket\<lparr>sk_type := ucast type, sk_p_ops := Some t, sk_protocol := proto, sk_state := SS_UNCONNECTED\<rparr>"

definition with_sock :: "addr \<Rightarrow> socket \<Rightarrow> ('h, 'w) sock_world_scheme \<Rightarrow> ('h, 'w) sock_world_scheme" where
  "with_sock a k w = w\<lparr>socks := (socks w)(a \<mapsto> k),
     queues := (queues w)(TXQ a \<mapsto> empty_queue (TXQ a), RXQ a \<mapsto> empty_queue (RXQ a))\<rparr>"

lemma type_cases: "t < SOCK_MAX \<Longrightarrow> t = 0 \<or> t = SOCK_STREAM \<or> t = SOCK_DGRAM"
proof -
  assume "t < SOCK_MAX"
  then have "unat t < 3" by (simp add: SOCK_MAX_def word_less_nat_alt)
  then consider "unat t = unat (0 :: uint8_t)" | "unat t = unat (1 :: uint8_t)" | "unat t = unat (2 :: uint8_t)"
    by fastforce
  then show ?thesis
    unfolding word_unat_eq_iff[symmetric] by cases (simp_all add: SOCK_STREAM_def SOCK_DGRAM_def)
qed

lemma inet_sock_create_new:
  assumes "a \<noteq> 0" "socks w a = Some (zero_socket\<lparr>sk_type := ucast type\<rparr>)" "type < SOCK_MAX"
    "queues w (TXQ a) \<noteq> None" "queues w (RXQ a) \<noteq> None"
  shows "inet_sock_create a protocol w = (case sock_kind AF_INET type protocol of
     Created proto t \<Rightarrow> Ok (0, with_sock a (made type proto t) w) | Refused \<Rightarrow> Ok (- 1, w) | Undefined \<Rightarrow> Fault Uninit)"
proof -
  have good: "bnd (nb_queue_init (TXQ a) (w\<lparr>socks := s\<rparr>)) (\<lambda>w. bnd (nb_queue_init (RXQ a) w) (\<lambda>w. Ok (0 :: int8_t, w))) =
      Ok (0, w\<lparr>socks := s, queues := (queues w)(TXQ a \<mapsto> empty_queue (TXQ a), RXQ a \<mapsto> empty_queue (RXQ a))\<rparr>)" for s
    using assms(4,5) by (simp add: nb_queue_init_eq)
  show ?thesis
    using type_cases[OF assms(3)] assms(3)[unfolded linorder_not_le[symmetric]]
    unfolding inet_sock_create_cases[OF assms(1,2)] Let_def good
    by (auto simp: sock_kind_def made_def with_sock_def SOCK_STREAM_def SOCK_DGRAM_def SOCK_MAX_def
      IPPROTO_TCP_def IPPROTO_UDP_def IPPROTO_ICMP_def)
qed

lemma new_sk_fresh:
  "mallocs w = a # ms \<Longrightarrow> a \<noteq> 0 \<Longrightarrow> socks w a = None \<Longrightarrow>
     new_sk w = (a, w\<lparr>mallocs := ms, socks := (socks w)(a \<mapsto> zero_socket),
       queues := (queues w)(TXQ a \<mapsto> zero_queue, RXQ a \<mapsto> zero_queue)\<rparr>)"
  by (simp add: new_sk_def malloc_def)

text \<open>Where \<open>malloc\<close> fails, or hands out an address in use, which counts as failing.\<close>

lemma new_sk_fails:
  "(mallocs w = [] \<or> hd (mallocs w) = 0 \<or> socks w (hd (mallocs w)) \<noteq> None) \<Longrightarrow>
     new_sk w = (0, w\<lparr>mallocs := tl (mallocs w)\<rparr>)"
  by (auto simp: new_sk_def malloc_def split: list.splits)

lemma list_rep_cong:
  assumes "\<And>x. x \<in> set xs \<Longrightarrow> slinks w' x = slinks w x" "socket_list w' = socket_list w"
  shows "list_rep w' xs = list_rep w xs"
  using dseg_cong[of xs "slinks w'" "slinks w"] assms by (simp add: list_rep_def)

lemma list_rep_live: "list_rep w xs \<Longrightarrow> x \<in> set xs \<Longrightarrow> x \<noteq> 0 \<and> socks w x \<noteq> None"
  using dseg_live[of "slinks w"] by (fastforce simp: list_rep_def slinks_def)

text \<open>The outcome of \<open>socket\<close> by the table.\<close>

definition freed_sk :: "addr \<Rightarrow> ('h, 'w) sock_world_scheme \<Rightarrow> ('h, 'w) sock_world_scheme" where
  "freed_sk a w = w\<lparr>socks := (socks w)(a := None), queues := (queues w)(TXQ a := None, RXQ a := None)\<rparr>"

lemma sock_socket_unfold:
  assumes "mallocs w = a # ms" "a \<noteq> 0" "socks w a = None" "family < AF_MAX"
  shows "sock_socket family type protocol w = (case sock_kind family type protocol of
     Created proto t \<Rightarrow> bnd (socket_list_add a (with_sock a (made type proto t) (w\<lparr>mallocs := ms\<rparr>))) (\<lambda>w. Ok (a, w))
   | Refused \<Rightarrow> Ok (0, if SOCK_MAX \<le> type then w else freed_sk a (w\<lparr>mallocs := ms\<rparr>))
   | Undefined \<Rightarrow> Fault Uninit)"
proof (cases "SOCK_MAX \<le> type")
  case True
  then show ?thesis using assms(4) by (simp add: sock_socket_def sock_kind_def)
next
  case False
  let ?w = "w\<lparr>mallocs := ms, socks := (socks w)(a \<mapsto> zero_socket\<lparr>sk_type := ucast type\<rparr>),
       queues := (queues w)(TXQ a \<mapsto> zero_queue, RXQ a \<mapsto> zero_queue)\<rparr>"
  have lt: "type < SOCK_MAX" using False by simp
  have "inet_sock_create a protocol ?w = (case sock_kind AF_INET type protocol of
      Created proto t \<Rightarrow> Ok (0, with_sock a (made type proto t) ?w) | Refused \<Rightarrow> Ok (- 1, ?w) | Undefined \<Rightarrow> Fault Uninit)"
    by (rule inet_sock_create_new) (use assms(2) lt in simp_all)
  moreover have "with_sock a (made type proto t) ?w = with_sock a (made type proto t) (w\<lparr>mallocs := ms\<rparr>)" for proto t
    by (simp add: with_sock_def fun_upd_twist)
  moreover have "upd_sk a (\<lambda>k. k\<lparr>sk_type := ucast type\<rparr>) (w\<lparr>mallocs := ms, socks := (socks w)(a \<mapsto> zero_socket),
       queues := (queues w)(TXQ a \<mapsto> zero_queue, RXQ a \<mapsto> zero_queue)\<rparr>) = Ok ?w"
    using assms(2) by (simp add: upd_sk_Some)
  moreover have "free_sk a ?w = Ok (freed_sk a (w\<lparr>mallocs := ms\<rparr>))"
    using assms(2) by (simp add: free_sk_def freed_sk_def fun_upd_twist)
  moreover have "sock_kind family type protocol = (if family = AF_INET then sock_kind AF_INET type protocol else Refused)"
    by (simp add: sock_kind_def)
  moreover have "\<not> AF_MAX \<le> family" using assms(4) by simp
  ultimately show ?thesis
    using False assms(2) by (simp add: sock_socket_def new_sk_fresh[OF assms(1-3)] split: sock_kind.split)
qed

section \<open>Closing sockets\<close>

text \<open>What \<open>nb_queue_clear\<close> leaves alone.\<close>

lemma nb_queue_clear_keeps:
  "queue_rep w q xs \<Longrightarrow> length xs < fuel \<Longrightarrow>
     \<exists>w'. nb_queue_clear fuel q w = Ok w' \<and> queue_rep w' q [] \<and> others_kept q (set xs) w w' \<and>
       dom (nbs w') = dom (nbs w) - set xs \<and> nb_world.more w' = nb_world.more w \<and> mallocs w' = mallocs w"
proof (induction xs arbitrary: w fuel)
  case Nil
  then show ?case by (cases fuel) (auto simp: nb_dequeue_empty others_kept_def)
next
  case (Cons x xs)
  then obtain n where n: "fuel = Suc n" "length xs < n" by (cases fuel) auto
  obtain w1 where w1: "nb_dequeue q w = Ok (NB x, w1)" "queue_rep w1 q xs" "rest w1 = rest w"
    "others_kept q (set (x # xs)) w w1" by (rule nb_dequeue_rep[OF Cons.prems(1)])
  let ?w2 = "w1\<lparr>nbs := (nbs w1)(x := None)\<rparr>"
  have x: "x \<notin> set xs" "nbs w1 x \<noteq> None" using Cons.prems(1) rest_dom[OF w1(3)] by (auto simp: queue_rep_def)
  have keep: "queue_rep ?w2 q' ys = queue_rep w1 q' ys" if "x \<notin> set ys" for q' ys
    by (rule queue_rep_cong) (use that in \<open>auto simp: links_def qlens_def\<close>)
  have "queue_rep ?w2 q xs" using w1(2) keep[OF x(1)] by simp
  from Cons.IH[OF this n(2)] obtain w' where w': "nb_queue_clear n q ?w2 = Ok w'" "queue_rep w' q []"
    "others_kept q (set xs) ?w2 w'" "dom (nbs w') = dom (nbs ?w2) - set xs" "nb_world.more w' = nb_world.more ?w2"
    "mallocs w' = mallocs ?w2" by blast
  have "nb_queue_clear fuel q w = Ok w'" using w1(1) w'(1) x n(1) by (simp add: free_net_buff_def)
  moreover have "others_kept q (set (x # xs)) w w'" using w1(4) w'(3) keep by (auto simp: others_kept_def)
  moreover have "dom (nbs w') = dom (nbs w) - set (x # xs)" using w'(4) rest_dom[OF w1(3)] by auto
  moreover have "nb_world.more w' = nb_world.more w" "mallocs w' = mallocs w" using w'(5,6) w1(3) by (simp_all add: rest_def)
  ultimately show ?case using w'(2) by blast
qed

lemma nb_queue_clear_empty: "queue_rep w q [] \<Longrightarrow> 0 < fuel \<Longrightarrow> nb_queue_clear fuel q w = Ok w"
  by (cases fuel) (simp_all add: nb_dequeue_empty)

lemma queue_rep_socks:
  "nbs w' = nbs w \<Longrightarrow> queues w' q = queues w q \<Longrightarrow> queue_rep w' q xs = queue_rep w q xs"
  by (rule queue_rep_cong) (auto simp: links_def qlens_def)

lemma sock_rest_sel:
  assumes "sock_rest w' = sock_rest w"
  shows "nbs w' = nbs w" "queues w' = queues w" "mallocs w' = mallocs w" "hw w' = hw w" "devs w' = devs w"
    "bare w' = bare w" "inet_port w' = inet_port w"
proof -
  have "nbs (sock_rest w') = nbs (sock_rest w)" "queues (sock_rest w') = queues (sock_rest w)"
    "mallocs (sock_rest w') = mallocs (sock_rest w)" "hw (sock_rest w') = hw (sock_rest w)"
    "devs (sock_rest w') = devs (sock_rest w)" "socks (sock_rest w') = socks (sock_rest w)"
    "inet_port (sock_rest w') = inet_port (sock_rest w)" unfolding assms by simp_all
  then show "nbs w' = nbs w" "queues w' = queues w" "mallocs w' = mallocs w" "hw w' = hw w" "devs w' = devs w"
    "bare w' = bare w" "inet_port w' = inet_port w" by (simp_all add: sock_rest_def)
qed

text \<open>The state around the sockets, the queues and the buffers.\<close>

definition around where
  "around w = nb_world.more ((w :: ('h, 'w) sock_world_scheme)\<lparr>socks := Map.empty, socket_list := 0\<rparr>)"

lemma around_sel:
  assumes "around w' = around (w :: ('h, 'w) sock_world_scheme)"
  shows "devs w' = devs w" "hw w' = hw w" "curr_net_dev w' = curr_net_dev w" "irq_net_dev w' = irq_net_dev w"
    "my_ip w' = my_ip w" "recv_ops w' = recv_ops w" "ip_proto_ops w' = ip_proto_ops w" "inet_port w' = inet_port w"
  using assms by (cases w; cases w'; simp add: around_def)+

lemma around_upd [simp]: "around (w\<lparr>socks := ss\<rparr>) = around w" "around (w\<lparr>socket_list := l\<rparr>) = around w"
  "around (w\<lparr>queues := qs\<rparr>) = around w" "around (w\<lparr>mallocs := ms\<rparr>) = around w"
  by (cases w; simp add: around_def)+

lemma around_more: "nb_world.more w' = nb_world.more (w :: ('h, 'w) sock_world_scheme) \<Longrightarrow> around w' = around w"
  by (cases w; cases w') (simp add: around_def)

lemma around_rest: "sock_rest w' = sock_rest w \<Longrightarrow> around w' = around w"
  by (cases w; cases w') (simp add: around_def sock_rest_def)

lemma bare_dom: "bare w' = bare w \<Longrightarrow> dom (socks w') = dom (socks w)"
proof -
  assume "bare w' = bare w"
  then have "bare w' x = None \<longleftrightarrow> bare w x = None" for x by simp
  then show ?thesis by (auto simp: bare_def dom_def)
qed

lemma sock_release:
  fixes w :: "('h, 'w) sock_world_scheme"
  assumes "a \<noteq> 0" "socks w a = Some k"
  shows "(case sk_p_ops k of None \<Rightarrow> Ok w
      | Some t \<Rightarrow> bnd (case po_release (proto_ops P fuel t) of None \<Rightarrow> Ok w
                   | Some release_f \<Rightarrow> bnd (release_f a w) (\<lambda>(_, w). Ok w)) (\<lambda>w.
              upd_sk a (\<lambda>k. k\<lparr>sk_p_ops := None\<rparr>) w)) = Ok (w\<lparr>socks := (socks w)(a \<mapsto> k\<lparr>sk_p_ops := None\<rparr>)\<rparr>)"
proof (cases "sk_p_ops k")
  case None
  then show ?thesis using assms by (simp add: fun_upd_idem)
next
  case (Some t)
  then show ?thesis using assms
    by (cases t) (simp_all add: proto_ops_def inet_stream_ops_def inet_dgram_ops_def inet_release_def load_sk_Some upd_sk_Some)
qed

lemma both_queues_clear:
  fixes w :: "('h, 'w) sock_world_scheme"
  assumes tx: "queue_rep w (TXQ a) ps" and rx: "queue_rep w (RXQ a) qs" and dis: "set ps \<inter> set qs = {}"
    and fuel: "length ps < fuel" "length qs < fuel"
  shows "\<exists>w1 w2. nb_queue_clear fuel (TXQ a) w = Ok w1 \<and> nb_queue_clear fuel (RXQ a) w1 = Ok w2 \<and>
    nb_world.more w2 = nb_world.more w \<and> mallocs w2 = mallocs w \<and> dom (nbs w2) = dom (nbs w) - (set ps \<union> set qs) \<and>
    (\<forall>q ys. q \<noteq> TXQ a \<longrightarrow> q \<noteq> RXQ a \<longrightarrow> set ys \<inter> (set ps \<union> set qs) = {} \<longrightarrow> queue_rep w q ys \<longrightarrow> queue_rep w2 q ys) \<and>
    (ps = [] \<longrightarrow> qs = [] \<longrightarrow> w2 = w)"
proof -
  obtain w1 where w1: "nb_queue_clear fuel (TXQ a) w = Ok w1" "others_kept (TXQ a) (set ps) w w1"
    "dom (nbs w1) = dom (nbs w) - set ps" "nb_world.more w1 = nb_world.more w" "mallocs w1 = mallocs w"
    using nb_queue_clear_keeps[of w "TXQ a" ps fuel] tx fuel(1) by auto
  have rx1: "queue_rep w1 (RXQ a) qs" using w1(2) rx dis by (auto simp: others_kept_def)
  then obtain w2 where w2: "nb_queue_clear fuel (RXQ a) w1 = Ok w2" "others_kept (RXQ a) (set qs) w1 w2"
    "dom (nbs w2) = dom (nbs w1) - set qs" "nb_world.more w2 = nb_world.more w1" "mallocs w2 = mallocs w1"
    using nb_queue_clear_keeps[of w1 "RXQ a" qs fuel] fuel(2) by blast
  have "queue_rep w2 q ys" if "q \<noteq> TXQ a" "q \<noteq> RXQ a" "set ys \<inter> (set ps \<union> set qs) = {}" "queue_rep w q ys" for q ys
  proof -
    have d: "set ys \<inter> set ps = {}" "set ys \<inter> set qs = {}" using that(3) by auto
    then have "queue_rep w1 q ys" using that w1(2) unfolding others_kept_def by blast
    then show ?thesis using that d w2(2) unfolding others_kept_def by blast
  qed
  moreover have "w2 = w" if "ps = []" "qs = []"
    using w1(1) w2(1) nb_queue_clear_empty[of w "TXQ a" fuel] nb_queue_clear_empty[of w1 "RXQ a" fuel] tx rx1 that fuel by auto
  ultimately show ?thesis using w1 w2 by (intro exI[of _ w1] exI[of _ w2]) auto
qed

lemma sock_close_rep:
  fixes w :: "('h, 'w) sock_world_scheme"
  assumes rep: "list_rep w xs" and a: "a \<in> set xs" and tx: "queue_rep w (TXQ a) ps" and rx: "queue_rep w (RXQ a) qs"
    and dis: "set ps \<inter> set qs = {}" and fuel: "length ps < fuel" "length qs < fuel"
  shows "\<exists>w'. sock_close P fuel a w = Ok (0, w') \<and> list_rep w' (remove1 a xs) \<and> bare w' = (bare w)(a := None) \<and>
    queues w' (TXQ a) = None \<and> queues w' (RXQ a) = None \<and>
    (\<forall>q ys. q \<noteq> TXQ a \<longrightarrow> q \<noteq> RXQ a \<longrightarrow> set ys \<inter> (set ps \<union> set qs) = {} \<longrightarrow> queue_rep w q ys \<longrightarrow> queue_rep w' q ys) \<and>
    dom (nbs w') = dom (nbs w) - (set ps \<union> set qs) \<and> hw w' = hw w \<and> mallocs w' = mallocs w \<and>
    (ps = [] \<longrightarrow> qs = [] \<longrightarrow> nbs w' = nbs w \<and> queues w' = (queues w)(TXQ a := None, RXQ a := None)) \<and> around w' = around w"
proof -
  obtain k where k: "a \<noteq> 0" "socks w a = Some k" using list_rep_live[OF rep a] by auto
  let ?w0 = "w\<lparr>socks := (socks w)(a \<mapsto> k\<lparr>sk_p_ops := None\<rparr>)\<rparr>"
  have q0: "queue_rep ?w0 q ys = queue_rep w q ys" for q ys by (rule queue_rep_socks) simp_all
  obtain w1 w2 where w2: "nb_queue_clear fuel (TXQ a) ?w0 = Ok w1" "nb_queue_clear fuel (RXQ a) w1 = Ok w2"
    and m: "nb_world.more w2 = nb_world.more ?w0" and n0: "mallocs w2 = mallocs ?w0" "dom (nbs w2) = dom (nbs ?w0) - (set ps \<union> set qs)"
    and oth0: "\<forall>q ys. q \<noteq> TXQ a \<longrightarrow> q \<noteq> RXQ a \<longrightarrow> set ys \<inter> (set ps \<union> set qs) = {} \<longrightarrow> queue_rep w q ys \<longrightarrow> queue_rep w2 q ys"
    and emp0: "ps = [] \<longrightarrow> qs = [] \<longrightarrow> w2 = ?w0"
    using both_queues_clear[of ?w0 a ps qs fuel, unfolded q0, OF tx rx dis fuel] by blast
  note n = n0[simplified] and oth = oth0[rule_format] and emp = emp0[rule_format]
  have s: "socks w2 = socks ?w0" "socket_list w2 = socket_list w" using nb_more_sock(1,2)[OF m] by simp_all
  have "list_rep w2 xs = list_rep w xs"
    by (rule list_rep_cong) (use s k in \<open>auto simp: slinks_def\<close>)
  then obtain w3 where w3: "socket_list_del a w2 = Ok w3" "list_rep w3 (remove1 a xs)" "sock_rest w3 = sock_rest w2"
    using socket_list_del_rep[of w2 xs a] rep a by metis
  note e = sock_rest_sel[OF w3(3)]
  have "socks w3 a \<noteq> None" using sock_rest_dom[OF w3(3), of a] s k by simp
  then have fr: "free_sk a w3 = Ok (freed_sk a w3)" using k by (simp add: free_sk_def freed_sk_def)
  let ?w' = "freed_sk a w3"
  have "sock_close P fuel a w = Ok (0, ?w')"
    unfolding sock_close_def load_sk_Some[OF k] bnd.simps sock_release[OF k] w2 w3(1) fr ..
  moreover have "list_rep ?w' (remove1 a xs) = list_rep w3 (remove1 a xs)"
    by (rule list_rep_cong) (use rep in \<open>auto simp: freed_sk_def slinks_def list_rep_def\<close>)
  moreover have "bare ?w' = (bare w)(a := None)"
    using e(6) s by (auto simp: bare_def freed_sk_def fun_eq_iff)
  moreover have "queue_rep ?w' q ys" if "q \<noteq> TXQ a" "q \<noteq> RXQ a" "set ys \<inter> (set ps \<union> set qs) = {}" "queue_rep w q ys" for q ys
  proof -
    have "queue_rep ?w' q ys = queue_rep w2 q ys"
      by (rule queue_rep_socks) (use that e in \<open>simp_all add: freed_sk_def\<close>)
    then show ?thesis using oth[OF that] by simp
  qed
  moreover have "nbs ?w' = nbs w \<and> queues ?w' = (queues w)(TXQ a := None, RXQ a := None)" if "ps = []" "qs = []"
    using emp[OF that] e by (simp add: freed_sk_def)
  moreover have "around ?w' = around w"
    using around_rest[OF w3(3)] around_more[OF m] by (simp add: freed_sk_def)
  ultimately show ?thesis
    using w3(2) e n more_dev_world(2)[OF m]
    by (intro exI[of _ ?w']) (auto simp: freed_sk_def)
qed

section \<open>The invariant of the sockets\<close>

text \<open>
  The list holds exactly the live sockets, correctly linked, and exactly these have queues, which are
  initialised and empty.
\<close>

definition socks_inv :: "addr list \<Rightarrow> ('h, 'w) sock_world_scheme \<Rightarrow> bool" where
  "socks_inv xs w \<longleftrightarrow> list_rep w xs \<and> set xs = dom (socks w) \<and>
     (\<forall>a. if a \<in> set xs then queues w (TXQ a) = Some (empty_queue (TXQ a)) \<and> queues w (RXQ a) = Some (empty_queue (RXQ a))
          else queues w (TXQ a) = None \<and> queues w (RXQ a) = None)"

text \<open>Calls of the interface; a program may use any pointer to a live socket.\<close>

inductive sock_call :: "('h, 'w) sock_world_scheme platform \<Rightarrow> nat \<Rightarrow> ('h, 'w) sock_world_scheme \<Rightarrow>
    ('h, 'w) sock_world_scheme \<Rightarrow> bool" for P fuel where
  open_call: "sock_socket f t p w = Ok (s, w') \<Longrightarrow> sock_call P fuel w w'"
| bind_call: "sock_bind P fuel s addr len w = Ok (r, w') \<Longrightarrow> sock_call P fuel w w'"
| close_call: "sock_close P fuel s w = Ok (r, w') \<Longrightarrow> sock_call P fuel w w'"

inductive_cases sock_callE: "sock_call P fuel w w'"

lemma socks_invD:
  assumes "socks_inv xs w" "a \<in> set xs"
  shows "queue_rep w (TXQ a) []" "queue_rep w (RXQ a) []" "a \<noteq> 0" "socks w a \<noteq> None"
  using assms list_rep_live[of w xs a] by (auto simp: socks_inv_def queue_rep_Nil)

lemma socks_inv_mallocs [simp]: "socks_inv xs (w\<lparr>mallocs := ms\<rparr>) = socks_inv xs w"
proof -
  have "slinks (w\<lparr>mallocs := ms\<rparr>) = slinks w" by (simp add: slinks_def fun_eq_iff)
  then show ?thesis by (simp add: socks_inv_def list_rep_def)
qed

lemma sock_socket_null:
  assumes "mallocs w = [] \<or> hd (mallocs w) = 0 \<or> socks w (hd (mallocs w)) \<noteq> None \<or> AF_MAX \<le> family \<or> SOCK_MAX \<le> type"
  shows "\<exists>ms. sock_socket family type protocol w = Ok (0, w\<lparr>mallocs := ms\<rparr>)"
proof (cases "AF_MAX \<le> family \<or> SOCK_MAX \<le> type")
  case True
  then show ?thesis by (intro exI[of _ "mallocs w"]) (auto simp: sock_socket_def)
next
  case False
  with assms have "new_sk w = (0, w\<lparr>mallocs := tl (mallocs w)\<rparr>)" by (intro new_sk_fails) auto
  then show ?thesis using False by (auto simp: sock_socket_def)
qed

lemma with_sock_inv:
  assumes inv: "socks_inv xs w" and a: "a \<noteq> 0" "socks w a = None" and m: "socks w0 = socks w" "queues w0 = queues w"
    "socket_list w0 = socket_list w"
  obtains w' where "socket_list_add a (with_sock a k w0) = Ok w'" "socks_inv (a # xs) w'"
    "sock_rest w' = sock_rest (with_sock a k w0)"
proof -
  have na: "a \<notin> set xs" using inv a(2) by (auto simp: socks_inv_def)
  have "list_rep (with_sock a k w0) xs = list_rep w xs"
    by (rule list_rep_cong) (use na m in \<open>auto simp: slinks_def with_sock_def\<close>)
  then obtain w' where w': "socket_list_add a (with_sock a k w0) = Ok w'" "list_rep w' (a # xs)"
    "sock_rest w' = sock_rest (with_sock a k w0)"
    using socket_list_add_rep[of "with_sock a k w0" xs a] inv na a(1) by (auto simp: socks_inv_def with_sock_def)
  have "dom (socks w') = insert a (set xs)"
    using bare_dom[OF sock_rest_sel(6)[OF w'(3)]] inv m by (simp add: socks_inv_def with_sock_def)
  moreover have "queues w' = queues (with_sock a k w0)" by (rule sock_rest_sel(2)[OF w'(3)])
  ultimately have "socks_inv (a # xs) w'"
    using w'(2) inv na m unfolding socks_inv_def by (simp add: with_sock_def)
  with w' that show ?thesis by blast
qed

lemma socket_inv:
  assumes inv: "socks_inv xs w" and ok: "sock_socket family type protocol w = Ok (s, w')"
  shows "socks_inv (if s = 0 then xs else s # xs) w' \<and> (s \<noteq> 0 \<longrightarrow> socks w s = None \<and> (bare w')(s := None) = bare w \<and> (\<exists>k t. socks w' s = Some k \<and> sk_p_ops k = Some t)) \<and>
    (s = 0 \<longrightarrow> bare w' = bare w) \<and> nbs w' = nbs w \<and> around w' = around w"
proof (cases "mallocs w = [] \<or> hd (mallocs w) = 0 \<or> socks w (hd (mallocs w)) \<noteq> None \<or> AF_MAX \<le> family \<or> SOCK_MAX \<le> type")
  case True
  from sock_socket_null[OF this, of protocol] ok inv show ?thesis
    by (auto simp: bare_def fun_eq_iff)
next
  case False
  then obtain a ms where a: "mallocs w = a # ms" "a \<noteq> 0" "socks w a = None" "family < AF_MAX" "\<not> SOCK_MAX \<le> type"
    by (cases "mallocs w") auto
  have a': "a \<notin> set xs" using inv a(3) by (auto simp: socks_inv_def)
  show ?thesis
  proof (cases "sock_kind family type protocol")
    case (Created proto t)
    obtain w1 where w1: "socket_list_add a (with_sock a (made type proto t) (w\<lparr>mallocs := ms\<rparr>)) = Ok w1" "socks_inv (a # xs) w1"
      "sock_rest w1 = sock_rest (with_sock a (made type proto t) (w\<lparr>mallocs := ms\<rparr>))"
      by (rule with_sock_inv[OF inv a(2,3), of "w\<lparr>mallocs := ms\<rparr>"]) simp_all
    have "(bare w1)(a := None) = bare w"
      unfolding sock_rest_sel(6)[OF w1(3)] using a(3) by (auto simp: bare_def with_sock_def)
    moreover have "bare w1 a = Some ((made type proto t)\<lparr>sk_prev := 0, sk_next := 0\<rparr>)"
      unfolding sock_rest_sel(6)[OF w1(3)] by (simp add: bare_def with_sock_def)
    then have "\<exists>k t. socks w1 a = Some k \<and> sk_p_ops k = Some t" by (cases "socks w1 a") (auto simp: bare_def made_def dest!: arg_cong[of _ _ sk_p_ops])
    moreover have "around w1 = around w" "nbs w1 = nbs w"
      using around_rest[OF w1(3)] sock_rest_sel(1)[OF w1(3)] by (simp_all add: with_sock_def)
    ultimately show ?thesis using ok a w1 Created by (simp add: sock_socket_unfold[OF a(1-4)])
  next
    case Refused
    then have "s = 0" "w' = freed_sk a (w\<lparr>mallocs := ms\<rparr>)"
      using ok a(5) by (simp_all add: sock_socket_unfold[OF a(1-4)])
    moreover have "list_rep (freed_sk a (w\<lparr>mallocs := ms\<rparr>)) xs = list_rep w xs"
      by (rule list_rep_cong) (use a' in \<open>auto simp: slinks_def freed_sk_def\<close>)
    moreover have "bare (freed_sk a (w\<lparr>mallocs := ms\<rparr>)) = bare w" using a(3) by (auto simp: bare_def freed_sk_def fun_eq_iff)
    ultimately show ?thesis using inv a(3) a' by (auto simp: socks_inv_def freed_sk_def)
  qed (use ok in \<open>simp add: sock_socket_unfold[OF a(1-4)]\<close>)
qed

text \<open>What an address must be for \<open>bind\<close>, and what it stores.\<close>

definition bind_addr_ok :: "'z swaps_scheme \<Rightarrow> sockaddr_in \<Rightarrow> bool" where
  "bind_addr_ok P ad \<longleftrightarrow> sin_family ad = AF_INET \<or> sin_family ad = AF_UNSPEC \<and> sin_addr ad = htonl P INADDR_ANY"

definition bound :: "'z swaps_scheme \<Rightarrow> sockaddr_in \<Rightarrow> socket \<Rightarrow> socket" where
  "bound P ad k = k\<lparr>sk_src_addr := sin_addr ad, sk_dst_addr := 0, sk_src_port := htons P (sin_port ad), sk_dst_port := 0\<rparr>"

lemma sock_bind_eq:
  assumes "s \<noteq> 0" "socks w s = Some k" "sk_p_ops k = Some t"
  shows "sock_bind P fuel s addr len w =
    (if len < SOCKADDR_IN_SIZE then Ok (- 1, w) else
     case addr of None \<Rightarrow> Fault Null_deref
     | Some ad \<Rightarrow> if bind_addr_ok P ad \<and> sk_src_port k = 0
                 then Ok (0, w\<lparr>socks := (socks w)(s \<mapsto> bound P ad k)\<rparr>) else Ok (- 1, w))"
proof -
  have "po_bind (proto_ops P fuel t) = Some (inet_bind P)"
    by (cases t) (simp_all add: proto_ops_def inet_stream_ops_def inet_dgram_ops_def)
  then show ?thesis using assms
    by (auto simp: sock_bind_def p_ops_def inet_bind_def load_sk_Some upd_sk_Some bind_addr_ok_def bound_def split: option.split)
qed

lemma bind_inv:
  assumes inv: "socks_inv xs w" and ok: "sock_bind P fuel s addr len w = Ok (r, w')"
  shows "socks_inv xs w'"
proof (cases "s = 0")
  case False
  then obtain k t where k: "socks w s = Some k" "sk_p_ops k = Some t"
    using ok by (auto simp: sock_bind_def p_ops_def load_sk_def bnd_eq_Ok_iff split: option.splits)
  have "w' = w \<or> (\<exists>ad. w' = w\<lparr>socks := (socks w)(s \<mapsto> bound P ad k)\<rparr>)"
    using ok unfolding sock_bind_eq[OF False k] by (auto split: if_splits option.splits)
  then show ?thesis
  proof
    assume "\<exists>ad. w' = w\<lparr>socks := (socks w)(s \<mapsto> bound P ad k)\<rparr>"
    then obtain ad where w': "w' = w\<lparr>socks := (socks w)(s \<mapsto> bound P ad k)\<rparr>" by blast
    have "list_rep w' xs = list_rep w xs"
      by (rule list_rep_cong) (use k w' in \<open>auto simp: slinks_def bound_def\<close>)
    then show ?thesis using inv k w' by (auto simp: socks_inv_def)
  qed (use inv in simp)
qed (use inv ok in \<open>simp add: sock_bind_def\<close>)

lemma sock_close_live: "sock_close P fuel s w = Ok (r, w') \<Longrightarrow> s \<noteq> 0 \<and> socks w s \<noteq> None"
  by (auto simp: sock_close_def bnd_eq_Ok_iff load_sk_Ok_iff)

lemma close_inv:
  fixes w :: "('h, 'w) sock_world_scheme"
  assumes inv: "socks_inv xs w" and s: "s \<in> set xs" and fuel: "0 < fuel"
  shows "\<exists>w'. sock_close P fuel s w = Ok (0, w') \<and> socks_inv (remove1 s xs) w' \<and> bare w' = (bare w)(s := None) \<and>
    nbs w' = nbs w \<and> around w' = around w"
proof -
  have rep: "list_rep w xs" and xs: "set xs = dom (socks w)" using inv by (auto simp: socks_inv_def)
  obtain w' where w': "sock_close P fuel s w = Ok (0, w')" "list_rep w' (remove1 s xs)" "bare w' = (bare w)(s := None)"
    "queues w' = (queues w)(TXQ s := None, RXQ s := None)" "nbs w' = nbs w" "around w' = around w"
    using sock_close_rep[OF rep s socks_invD(1,2)[OF inv s], of fuel P] fuel by auto
  have "set (remove1 s xs) = set xs - {s}" using rep by (simp add: list_rep_def)
  moreover have "dom (socks w') = dom (socks w) - {s}"
  proof -
    have "bare w' = bare (w\<lparr>socks := (socks w)(s := None)\<rparr>)" using w'(3) by (auto simp: bare_def fun_eq_iff)
    from bare_dom[OF this] show ?thesis by simp
  qed
  ultimately have "socks_inv (remove1 s xs) w'"
    using inv w'(2,4) xs unfolding socks_inv_def by auto
  then show ?thesis using w' by blast
qed

section \<open>Sending\<close>

definition send_port :: "'z swaps_scheme \<Rightarrow> ('h, 'w) sock_world_scheme \<Rightarrow> socket \<Rightarrow> uint16_t" where
  "send_port P w k = (if sk_src_port k = 0 then htons P (inet_port w) else sk_src_port k)"

lemma alloc_ok_port [simp]: "alloc_ok (w\<lparr>inet_port := p\<rparr>) = alloc_ok w"
  by (simp add: alloc_ok_def split: list.split)

lemma sendto_frame:
  fixes w :: "('h, 'w) sock_world_scheme"
  assumes P: "swaps_ok P" and drv: "tx_driver P sent m K d c (TXQ sk)" "tx_ready d c w" "K < fuel" "1 < fuel"
    and dev: "curr_net_dev w = d" "eth_dev d w x" and sk: "sk \<noteq> 0" "socks w sk = Some k" "queue_rep w (TXQ sk) []"
    and al: "alloc_ok w" and data: "unat n \<le> length data" "unat n + 42 < 65536"
    and to: "sin_family to \<in> {AF_INET, AF_UNSPEC}" "sin_port to \<noteq> 0" "SOCKADDR_IN_SIZE \<le> tolen"
    and flags: "flags AND MSG_OOB = 0" and code: "tx_exact P c"
    and udp: "sk_p_ops k = Some t" "sk_protocol k = IPPROTO_UDP"
  shows "\<exists>w' b. sendto P fuel sk data n flags (Some to) tolen w = Ok (n, w') \<and> sent (hw w') = sent (hw w) @ [b] \<and>
    nb_mem b = udp_frame x IPPROTO_UDP (my_ip w) (send_port P w k) to n (take (unat n) data)"
proof -
  let ?msg = "\<lparr>msg_name = Some to, msg_namelen = tolen, msg_iov = Some \<lparr>iov_base = data, iov_len = n\<rparr>, msg_flags = flags\<rparr>"
  let ?k = "k\<lparr>sk_src_port := send_port P w k\<rparr>"
  define w1 where "w1 = (if sk_src_port k = 0 then
      w\<lparr>inet_port := (if inet_port w + 1 = 0 then 49152 else inet_port w + 1), socks := (socks w)(sk \<mapsto> ?k)\<rparr> else w)"
  have step: "(if sk_src_port k = 0 then
            let (port, w) = inet_get_port P w in upd_sk sk (\<lambda>k. k\<lparr>sk_src_port := port\<rparr>) w
          else Ok w) = Ok w1"
    using sk by (simp add: w1_def inet_get_port_def upd_sk_Some Let_def send_port_def)
  have w1: "tx_ready d c w1" "curr_net_dev w1 = d" "eth_dev d w1 x" "alloc_ok w1" "hw w1 = hw w" "my_ip w1 = my_ip w"
    using drv(2) dev al by (simp_all add: w1_def tx_ready_def eth_dev_def)
  have k1: "socks w1 sk = Some ?k" using sk(2) by (simp add: w1_def send_port_def)
  have q1: "queue_rep w1 (TXQ sk) []" using sk(3) by (simp add: queue_rep_Nil w1_def)
  have ok: "udp_msg_ok ?msg" using to flags by (auto simp: udp_msg_ok_def)
  obtain w' b where r: "udp_send_msg P fuel sk ?msg w1 = Ok (n, w')" "sent (hw w') = sent (hw w1) @ [b]"
    "nb_mem b = udp_frame x (sk_protocol k) (my_ip w1) (send_port P w k) to n (take (unat n) data)"
    using udp_send_msg_frame[where msg = ?msg and to = to and iov = "\<lparr>iov_base = data, iov_len = n\<rparr>",
      OF P drv(1) w1(1) drv(3,4) w1(2,3) sk(1) k1 q1 w1(4) _ _ _ ok _ code] data by auto
  have "po_sendmsg (proto_ops P fuel t) = Some (inet_sendmsg P fuel)"
    by (cases t) (simp_all add: proto_ops_def inet_stream_ops_def inet_dgram_ops_def)
  moreover have "inet_sendmsg P fuel sk ?msg w = udp_send_msg P fuel sk ?msg w1"
    unfolding inet_sendmsg_def load_sk_Some[OF sk(1,2)] bnd.simps step
    using udp(2) by (simp add: IPPROTO_TCP_def IPPROTO_UDP_def)
  ultimately have "sendto P fuel sk data n flags (Some to) tolen w = Ok (n, w')"
    using sk udp(1) r(1) by (simp add: sendto_def p_ops_def load_sk_Some iovec_import_def Let_def)
  then show ?thesis using r w1(5,6) udp(2) by auto
qed

section \<open>Properties\<close>

text \<open>C22: \<open>socket\<close> follows its table, when there is memory for a socket: for a family outside the table it
  returns \<open>NULL\<close> and changes nothing; for a supported family, type and protocol it returns a new socket,
  at the front of the list, in state \<open>SS_UNCONNECTED\<close>, with the protocol and operations of the table,
  no addresses or ports, and two initialised empty queues; for an unsupported family or type it returns
  \<open>NULL\<close> and keeps no memory; for a protocol that does not suit the type it branches on the
  uninitialised error code.\<close>

theorem sock_socket_outcome:
  assumes "socks_inv xs w" "mallocs w = a # ms" "a \<noteq> 0" "socks w a = None"
  shows "if AF_MAX \<le> family then sock_socket family type protocol w = Ok (0, w) else
   (case sock_kind family type protocol of
     Created proto t \<Rightarrow> \<exists>w'. sock_socket family type protocol w = Ok (a, w') \<and> socks_inv (a # xs) w' \<and>
       bare w' = (bare w)(a \<mapsto> \<lparr>sk_state = SS_UNCONNECTED, sk_type = ucast type, sk_p_ops = Some t, sk_dst_addr = 0,
         sk_src_addr = 0, sk_dst_port = 0, sk_src_port = 0, sk_hash = 0, sk_protocol = proto, sk_prev = 0, sk_next = 0\<rparr>)
   | Refused \<Rightarrow> \<exists>w'. sock_socket family type protocol w = Ok (0, w') \<and> socks_inv xs w' \<and> socks w' = socks w
   | Undefined \<Rightarrow> sock_socket family type protocol w = Fault Uninit)"
proof (cases "AF_MAX \<le> family")
  case True
  then show ?thesis by (simp add: sock_socket_def)
next
  case False
  then have fam: "family < AF_MAX" by simp
  show ?thesis
  proof (cases "sock_kind family type protocol")
    case (Created proto t)
    obtain w1 where w1: "socket_list_add a (with_sock a (made type proto t) (w\<lparr>mallocs := ms\<rparr>)) = Ok w1" "socks_inv (a # xs) w1"
      "sock_rest w1 = sock_rest (with_sock a (made type proto t) (w\<lparr>mallocs := ms\<rparr>))"
      by (rule with_sock_inv[OF assms(1,3,4), of "w\<lparr>mallocs := ms\<rparr>"]) simp_all
    have "bare w1 = (bare w)(a \<mapsto> made type proto t)"
      using sock_rest_sel(6)[OF w1(3)] by (auto simp: bare_def with_sock_def made_def zero_socket_def fun_eq_iff)
    then show ?thesis using w1 Created False
      by (simp add: sock_socket_unfold[OF assms(2-4) fam] made_def zero_socket_def)
  next
    case Refused
    then have eq: "sock_socket family type protocol w = Ok (0, if SOCK_MAX \<le> type then w else freed_sk a (w\<lparr>mallocs := ms\<rparr>))"
      by (simp add: sock_socket_unfold[OF assms(2-4) fam])
    have "socks (if SOCK_MAX \<le> type then w else freed_sk a (w\<lparr>mallocs := ms\<rparr>)) = socks w"
      using assms(4) by (simp add: freed_sk_def fun_upd_idem)
    then show ?thesis using eq socket_inv[OF assms(1) eq] Refused fam by simp
  qed (use fam in \<open>simp add: sock_socket_unfold[OF assms(2-4) fam]\<close>)
qed

definition demo_empty :: "demo_hw sock_world" where
  "demo_empty = (demo_sock_world 0 Map.empty)\<lparr>socks := Map.empty, socket_list := 0, queues := Map.empty\<rparr>"

lemma demo_empty_inv: "socks_inv [] demo_empty"
  by (simp add: socks_inv_def demo_empty_def list_rep_def)

lemma demo_empty_sel [simp]: "mallocs demo_empty = [21, 22]" "socks demo_empty = Map.empty" "nbs demo_empty = Map.empty"
  by (simp_all add: demo_empty_def)

lemma demo_open: "\<exists>w'. sock_socket 1 2 0 demo_empty = Ok (21, w')"
proof -
  have k: "sock_kind 1 2 0 = Created 17 Inet_dgram_ops" by code_simp
  have h: "mallocs demo_empty = [21, 22]" "(21 :: addr) \<noteq> 0" "socks demo_empty 21 = None" "(1 :: uint8_t) < AF_MAX"
    by (simp_all add: AF_MAX_def)
  obtain w' where "socket_list_add 21 (with_sock 21 (made 2 17 Inet_dgram_ops) (demo_empty\<lparr>mallocs := [22]\<rparr>)) = Ok w'"
    by (rule with_sock_inv[OF demo_empty_inv h(2,3), of "demo_empty\<lparr>mallocs := [22]\<rparr>"]) simp_all
  with sock_socket_unfold[OF h, of 2 0] k show ?thesis by simp
qed

theorem sock_socket_outcome_witness:
  "(\<exists>w'. sock_socket 1 2 0 demo_empty = Ok (21, w') \<and> socks_inv [21] w') \<and>
   (\<exists>w'. sock_socket 1 0 0 demo_empty = Ok (0, w') \<and> socks_inv [] w') \<and> sock_socket 1 1 17 demo_empty = Fault Uninit \<and>
   sock_socket 200 2 0 demo_empty = Ok (0, demo_empty)"
proof -
  have kinds: "sock_kind 1 2 0 = Created 17 Inet_dgram_ops" "sock_kind 1 0 0 = Refused" "sock_kind 1 1 17 = Undefined"
    by code_simp+
  have f: "(AF_MAX \<le> 1) = False" "(AF_MAX \<le> 200) = True" by code_simp+
  note t = sock_socket_outcome[OF demo_empty_inv, of 21 "[22]"]
  have h: "mallocs demo_empty = [21, 22]" "(21 :: addr) \<noteq> 0" "socks demo_empty 21 = None" by simp_all
  show ?thesis using t[OF h, of 1 2 0] t[OF h, of 1 0 0] t[OF h, of 1 1 17] t[OF h, of 200 2 0]
    unfolding kinds sock_kind.case by (simp only: f if_True if_False) blast
qed

text \<open>C20: whatever a program does with \<open>socket\<close>, \<open>bind\<close> and \<open>sock_close\<close>, on whatever pattern of allocation
  failures, the list of sockets stays correctly linked and holds exactly the live sockets, each with its
  two queues initialised and empty; and every one of them can be closed.\<close>

theorem socks_invariant:
  fixes w :: "('h, 'w) sock_world_scheme"
  assumes "(sock_call P fuel)\<^sup>*\<^sup>* w w'" "socks w = Map.empty" "socket_list w = 0"
    "\<forall>a. queues w (TXQ a) = None \<and> queues w (RXQ a) = None" "0 < fuel"
  shows "\<exists>xs. socks_inv xs w' \<and>
    (\<forall>s \<in> set xs. \<exists>w''. sock_close P fuel s w' = Ok (0, w'') \<and> socks_inv (remove1 s xs) w'')"
proof -
  from assms(1) have "\<exists>xs. socks_inv xs w'"
  proof (induction rule: rtranclp_induct)
    case base
    then show ?case using assms(2-4) by (intro exI[of _ "[]"]) (simp add: socks_inv_def list_rep_def)
  next
    case (step u v)
    then obtain xs where inv: "socks_inv xs u" by blast
    have "\<exists>xs. socks_inv xs v" if c: "sock_close P fuel s u = Ok (r, v)" for s r
    proof -
      have "s \<in> set xs" using sock_close_live[OF c] inv by (auto simp: socks_inv_def)
      from close_inv[OF inv this assms(5), of P] c show ?thesis by auto
    qed
    with step.hyps(2) show ?case by (elim sock_callE) (use socket_inv[OF inv] bind_inv[OF inv] in blast)+
  qed
  then obtain xs where inv: "socks_inv xs w'" by blast
  then show ?thesis using close_inv[OF inv _ assms(5), of _ P] by blast
qed

theorem socks_invariant_witness:
  "\<exists>w'. sock_call (demo_platform 1) 9 demo_empty w' \<and> socks w' 21 \<noteq> None \<and> (\<exists>xs. socks_inv xs w')"
proof -
  obtain w' where w': "sock_socket 1 2 0 demo_empty = Ok (21, w')" using demo_open by blast
  then have c: "sock_call (demo_platform 1) 9 demo_empty w'" by (rule open_call)
  have "\<exists>xs. socks_inv xs w' \<and> (\<forall>s \<in> set xs. \<exists>w''. sock_close (demo_platform 1) 9 s w' = Ok (0, w'') \<and> socks_inv (remove1 s xs) w'')"
    by (rule socks_invariant[OF r_into_rtranclp[where r = "sock_call (demo_platform 1) 9", OF c]]) (simp_all add: demo_empty_def)
  moreover have "socks w' 21 \<noteq> None" using socket_inv[OF demo_empty_inv w'] by (auto simp: socks_inv_def)
  ultimately show ?thesis using c by blast
qed

text \<open>C24: opening a socket and closing it again is the identity on the sockets: the other sockets keep every
  field but their links, the list is the one before, the memory of the socket and its queues is free again, all
  buffers are as before, and so is everything else, the device and its driver included: nothing is sent.\<close>

theorem sock_open_close:
  fixes w :: "('h, 'w) sock_world_scheme"
  assumes "socks_inv xs w" "sock_socket family type protocol w = Ok (s, w')" "s \<noteq> 0" "0 < fuel"
  shows "\<exists>w''. sock_close P fuel s w' = Ok (0, w'') \<and> socks_inv xs w'' \<and> bare w'' = bare w \<and>
    socks w'' s = None \<and> queues w'' (TXQ s) = None \<and> queues w'' (RXQ s) = None \<and>
    nbs w'' = nbs w \<and> hw w'' = hw w \<and> devs w'' = devs w \<and> around w'' = around w"
proof -
  have i: "socks_inv (s # xs) w'" "(bare w')(s := None) = bare w" "nbs w' = nbs w" "around w' = around w" "socks w s = None"
    using socket_inv[OF assms(1,2)] assms(3) by simp_all
  have "s \<in> set (s # xs)" "remove1 s (s # xs) = xs" by simp_all
  with close_inv[OF i(1) _ assms(4), of s P] i(2-4)
  obtain w'' where c: "sock_close P fuel s w' = Ok (0, w'')" "socks_inv xs w''" "bare w'' = bare w" "nbs w'' = nbs w" "around w'' = around w"
    by metis
  have "socks w'' s = None" using bare_dom[OF c(3)] i(5) by (metis domIff)
  moreover from this have "s \<notin> dom (socks w'')" by blast
  then have "queues w'' (TXQ s) = None \<and> queues w'' (RXQ s) = None" using c(2) unfolding socks_inv_def by metis
  ultimately show ?thesis using c around_sel(1,2)[OF c(5)] by blast
qed

theorem sock_open_close_witness:
  "\<exists>w' w''. sock_socket 1 2 0 demo_empty = Ok (21, w') \<and> sock_close (demo_platform 1) 9 21 w' = Ok (0, w'') \<and> socks_inv [] w'' \<and>
    demo_log (hw w'') = demo_log (hw demo_empty)"
proof -
  obtain w' where w': "sock_socket 1 2 0 demo_empty = Ok (21, w')" using demo_open by blast
  from sock_open_close[OF demo_empty_inv w', of 9 "demo_platform 1"] w' show ?thesis by auto
qed

lemma swap32_0: "swap32 0 = 0" and swap16_0: "swap16 0 = 0"
  by code_simp+

text \<open>C25: \<open>bind\<close> on an open socket: an address shorter than an Internet address, of another family, or a
  socket that has a port already is refused with \<open>-1\<close> and nothing changes; otherwise the socket takes the
  address and the port, clears its destination, and returns 0; the port, which the caller gives in
  network order, is stored with its bytes swapped.\<close>

theorem sock_bind_outcome:
  assumes "s \<noteq> 0" "socks w s = Some k" "sk_p_ops k = Some t" "swaps_ok P"
  shows "sock_bind P fuel s (Some ad) len w =
    (if len < 7 \<or> \<not> (sin_family ad = AF_INET \<or> sin_family ad = AF_UNSPEC \<and> sin_addr ad = 0) \<or> sk_src_port k \<noteq> 0 then Ok (- 1, w)
     else Ok (0, w\<lparr>socks := (socks w)(s \<mapsto> k\<lparr>sk_src_addr := sin_addr ad, sk_dst_addr := 0,
       sk_src_port := swap16 (sin_port ad), sk_dst_port := 0\<rparr>)\<rparr>))"
  using assms(4) swap32_0 unfolding sock_bind_eq[OF assms(1-3)]
  by (auto simp: bind_addr_ok_def bound_def SOCKADDR_IN_SIZE_def INADDR_ANY_def swap_simps)

theorem sock_bind_outcome_witness:
  "\<exists>w'. sock_bind (demo_platform 1) 9 3 (Some \<lparr>sin_family = 1, sin_port = 0x4400, sin_addr = 0\<rparr>) 7
     ((demo_sock_world 0 Map.empty)\<lparr>socks := [3 \<mapsto> (demo_sock 17)\<lparr>sk_src_port := 0\<rparr>]\<rparr>) = Ok (0, w') \<and>
     map_option sk_src_port (socks w' 3) = Some 0x0044"
proof -
  have "swap16 0x4400 = 0x0044" by code_simp
  then show ?thesis
    using sock_bind_outcome[of 3 "(demo_sock_world 0 Map.empty)\<lparr>socks := [3 \<mapsto> (demo_sock 17)\<lparr>sk_src_port := 0\<rparr>]\<rparr>"
      "(demo_sock 17)\<lparr>sk_src_port := 0\<rparr>" Inet_dgram_ops "demo_platform 1" 9 "\<lparr>sin_family = 1, sin_port = 0x4400, sin_addr = 0\<rparr>" 7]
    by (auto simp: demo_sock_def AF_INET_def)
qed

text \<open>C23: \<open>sendto\<close> on an open UDP socket without a port sends one frame with the data and returns their
  number; the source port is the next private port of \<open>inet_get_port\<close>, in network order.  After a
  \<open>bind\<close> to a port, the frame has the two bytes of that port in the source port in the opposite order to
  the one in which it was given.\<close>

theorem sendto_sends:
  fixes w :: "('h, 'w) sock_world_scheme"
  assumes "swaps_ok P" "tx_driver P sent m K d c (TXQ sk)" "tx_ready d c w" "K < fuel" "1 < fuel"
    and "curr_net_dev w = d" "eth_dev d w x" "sk \<noteq> 0" "socks w sk = Some k" "queue_rep w (TXQ sk) []"
    and "alloc_ok w" "unat n \<le> length data" "unat n + 42 < 65536"
    and "sin_family to \<in> {AF_INET, AF_UNSPEC}" "sin_port to \<noteq> 0" "SOCKADDR_IN_SIZE \<le> tolen"
    and "flags AND MSG_OOB = 0" "tx_exact P c" "sk_p_ops k = Some t" "sk_protocol k = IPPROTO_UDP"
    and "sk_src_port k = 0"
  defines "src_sent \<equiv> (\<lambda>w1 src. \<exists>w' b. sendto P fuel sk data n flags (Some to) tolen w1 = Ok (n, w') \<and>
      sent (hw w') = sent (hw w) @ [b] \<and>
      drop 34 (nb_mem b) = src @ le16 (sin_port to) @ be16 (n + 8) @ [0, 0] @ take (unat n) data)"
  shows "src_sent w (be16 (inet_port w)) \<and>
    (\<forall>ad w1. sin_port ad \<noteq> 0 \<longrightarrow> sock_bind P fuel sk (Some ad) 7 w = Ok (0, w1) \<longrightarrow> src_sent w1 (rev (le16 (sin_port ad))))"
proof (intro conjI allI impI)
  have E: "length (eth_bytes (nd_broadcast x) (nd_dev_addr x) ETH_P_IP) = 14"
    using assms(7) by (simp add: eth_dev_def mac_ok_def)
  have H: "length (ip_bytes (ip_out p l (le32 s) (le32 t))) = 20" for p l s t by simp
  have frame: "drop 34 (udp_frame x p my sp to n data) = le16 sp @ le16 (sin_port to) @ be16 (n + 8) @ [0, 0] @ data" for p my sp data
    using E H[of p "n + 28" my "sin_addr to"] by (simp add: udp_frame_def udp_bytes_def)
  show "src_sent w (be16 (inet_port w))"
    using sendto_frame[OF assms(1-20)] assms(1,21) unfolding src_sent_def
    by (fastforce simp: frame send_port_def le16_htons)
  fix ad w1
  assume p: "sin_port ad \<noteq> 0" and b: "sock_bind P fuel sk (Some ad) 7 w = Ok (0, w1)"
  then have w1: "w1 = w\<lparr>socks := (socks w)(sk \<mapsto> bound P ad k)\<rparr>"
    unfolding sock_bind_eq[OF assms(8,9,19)] by (auto split: if_splits)
  have eq: "socks w1 sk = Some (bound P ad k)" "queue_rep w1 (TXQ sk) []" "tx_ready d c w1" "curr_net_dev w1 = d" "eth_dev d w1 x"
    "alloc_ok w1" "sk_p_ops (bound P ad k) = Some t" "sk_protocol (bound P ad k) = IPPROTO_UDP" "hw w1 = hw w"
    using assms(3,6,7,10,11,19,20) by (simp_all add: w1 queue_rep_Nil tx_ready_def eth_dev_def bound_def)
  have sp: "send_port P w1 (bound P ad k) = htons P (sin_port ad)"
    using p assms(1) swap16_0 swap16_eq_iff[of "sin_port ad" 0] by (simp add: send_port_def bound_def swap_simps)
  have "rev (le16 (sin_port ad)) = le16 (htons P (sin_port ad))"
    using assms(1) by (simp add: le16_htons) (simp add: le16_def be16_def)
  then show "src_sent w1 (rev (le16 (sin_port ad)))"
    using sendto_frame[OF assms(1,2) eq(3) assms(4,5) eq(4,5) assms(8) eq(1,2,6) assms(12-18) eq(7,8)] eq(9)
    unfolding src_sent_def sp by (fastforce simp: frame)
qed

theorem sendto_sends_witness:
  "\<exists>w' b. sendto (demo_platform 1) 9 3 [1, 2, 3] 3 0 (Some \<lparr>sin_family = 1, sin_port = 0x0700, sin_addr = 0x0200000A\<rparr>) 7
     ((demo_sock_world 0x0100000A Map.empty)\<lparr>socks := [3 \<mapsto> (demo_sock 17)\<lparr>sk_src_port := 0\<rparr>]\<rparr>) = Ok (3, w') \<and>
     demo_log (hw w') = [b] \<and> drop 34 (nb_mem b) = [0xC0, 0, 0, 7, 0, 11, 0, 0, 1, 2, 3]"
proof -
  let ?w = "(demo_sock_world 0x0100000A Map.empty)\<lparr>socks := [3 \<mapsto> (demo_sock 17)\<lparr>sk_src_port := 0\<rparr>]\<rparr>"
    and ?d = "[1, 2, 3] :: bytes" and ?to = "\<lparr>sin_family = 1, sin_port = 0x0700, sin_addr = 0x0200000A\<rparr>"
  have w: "tx_ready 1 1 ?w" "curr_net_dev ?w = 1" "eth_dev 1 ?w demo_dev"
    "socks ?w 3 = Some ((demo_sock 17)\<lparr>sk_src_port := 0\<rparr>)" "queue_rep ?w (TXQ 3) []" "alloc_ok ?w"
    by (simp_all add: tx_ready_def eth_dev_def queue_rep_Nil demo_queue_def empty_queue_def)
  have b: "be16 49152 = [0xC0, 0]" "le16 0x0700 = [0, 7]" "be16 (3 + 8) = [0, 11]" by code_simp+
  show ?thesis
    using sendto_sends[OF demo_swaps_ok demo_tx_driver[of 1 1 "TXQ 3"] w(1) _ _ w(2,3) _ w(4-6), of 9 3 ?d ?to 7 0 Inet_dgram_ops]
      demo_tx_exact b
    by (auto simp: AF_INET_def SOCKADDR_IN_SIZE_def IPPROTO_UDP_def demo_sock_def)
qed

end
