(* ===== verification/Dhcp_Options.thy ===== *)
theory Dhcp_Options
  imports Socket
begin

text \<open>
  The options of a DHCP message (\<open>net/ipconfig.c\<close>).  \<open>dhcp_recv\<close> runs twice through them, with the same
  loop around two different \<open>switch\<close> statements: the loop is \<open>opt_scan\<close>, the statements are \<open>dhcp_opt\<close>
  and \<open>bootp_opt\<close>.  The lemmas relate the loop to the list of options that the bytes encode.
\<close>

section \<open>The code\<close>

definition DHCP_DISCOVER :: uint8_t where "DHCP_DISCOVER = 1"
definition DHCP_OFFER :: uint8_t where "DHCP_OFFER = 2"
definition DHCP_REQUEST :: uint8_t where "DHCP_REQUEST = 3"
definition DHCP_ACK :: uint8_t where "DHCP_ACK = 5"

definition DHCP_OPT_SMASK :: uint8_t where "DHCP_OPT_SMASK = 1"
definition DHCP_OPT_ROUTER :: uint8_t where "DHCP_OPT_ROUTER = 3"
definition DHCP_OPT_DNS :: uint8_t where "DHCP_OPT_DNS = 6"
definition DHCP_OPT_HNAME :: uint8_t where "DHCP_OPT_HNAME = 12"
definition DHCP_OPT_DNAME :: uint8_t where "DHCP_OPT_DNAME = 15"
definition DHCP_OPT_REQIP :: uint8_t where "DHCP_OPT_REQIP = 50"
definition DHCP_OPT_MT :: uint8_t where "DHCP_OPT_MT = 53"
definition DHCP_OPT_SRVID :: uint8_t where "DHCP_OPT_SRVID = 54"
definition DHCP_OPT_PRLIST :: uint8_t where "DHCP_OPT_PRLIST = 55"
definition DHCP_OPT_END :: uint8_t where "DHCP_OPT_END = 0xFF"

lemmas dhcp_consts = DHCP_DISCOVER_def DHCP_OFFER_def DHCP_REQUEST_def DHCP_ACK_def DHCP_OPT_SMASK_def
  DHCP_OPT_ROUTER_def DHCP_OPT_DNS_def DHCP_OPT_HNAME_def DHCP_OPT_DNAME_def DHCP_OPT_REQIP_def DHCP_OPT_MT_def
  DHCP_OPT_SRVID_def DHCP_OPT_PRLIST_def DHCP_OPT_END_def

text \<open>
  The loop over the options in the block \<open>m\<close>, from offset \<open>opt_p\<close> up to \<open>end'\<close>; \<open>body\<close> is the \<open>switch\<close>,
  given the offset of the option.
\<close>

function opt_scan :: "(nat \<Rightarrow> 's \<Rightarrow> 's res) \<Rightarrow> bytes \<Rightarrow> nat \<Rightarrow> nat \<Rightarrow> 's \<Rightarrow> 's res" where
  "opt_scan body m end' opt_p s =
     (if \<not> opt_p < end' then Ok s else
      bnd (rd opt_p 1 m) (\<lambda>c.
      if c ! 0 = 0xFF then Ok s else
      let opt = opt_p; opt_p = opt_p + 1 in
      if c ! 0 = 0 then opt_scan body m end' opt_p s else
      bnd (rd opt_p 1 m) (\<lambda>l.
      let opt_p = opt_p + (unat (l ! 0) + 1) in
      if end' \<le> opt_p then Ok s else
      bnd (body opt s) (\<lambda>s. opt_scan body m end' opt_p s))))"
  by pat_completeness auto
termination
  by (relation "measure (\<lambda>(body, m, end', opt_p, s). end' - opt_p)") auto

declare opt_scan.simps [simp del]

text \<open>The first \<open>switch\<close>: the server and the message type, which has no value before it is assigned.\<close>

definition dhcp_opt :: "bytes \<Rightarrow> nat \<Rightarrow> uint32_t \<times> uint8_t option \<Rightarrow> (uint32_t \<times> uint8_t option) res" where
  "dhcp_opt m opt s = (case s of (srv_id, msg_type) \<Rightarrow>
     bnd (rd opt 1 m) (\<lambda>c.
     if c ! 0 = DHCP_OPT_MT then
       bnd (rd (opt + 1) 1 m) (\<lambda>l.
       if l ! 0 \<noteq> 0 then bnd (rd (opt + 2) 1 m) (\<lambda>t. Ok (srv_id, Some (t ! 0))) else Ok (srv_id, msg_type))
     else if c ! 0 = DHCP_OPT_SRVID then
       bnd (rd (opt + 1) 1 m) (\<lambda>l.
       if 4 \<le> l ! 0 then bnd (rd (opt + 2) 4 m) (\<lambda>v. Ok (un32 v, msg_type)) else Ok (srv_id, msg_type))
     else Ok (srv_id, msg_type)))"

text \<open>The second \<open>switch\<close>; it does not look at the length of the option.\<close>

definition bootp_opt :: "bytes \<Rightarrow> nat \<Rightarrow> ('h, 'w) ip_world_scheme \<Rightarrow> ('h, 'w) ip_world_scheme res" where
  "bootp_opt m opt w =
     bnd (rd opt 1 m) (\<lambda>c. let opt = opt + 1 in
     if c ! 0 = DHCP_OPT_SMASK then bnd (rd (opt + 1) 4 m) (\<lambda>v. Ok (w\<lparr>net_mask := un32 v\<rparr>))
     else if c ! 0 = DHCP_OPT_ROUTER then bnd (rd (opt + 1) 4 m) (\<lambda>v. Ok (w\<lparr>gateway := un32 v\<rparr>))
     else if c ! 0 = DHCP_OPT_DNS then bnd (rd (opt + 1) 4 m) (\<lambda>v. Ok (w\<lparr>dns_serv := un32 v\<rparr>))
     else Ok w)"

section \<open>The encoding of options\<close>

datatype dhcp_option = Pad | Opt uint8_t bytes

fun enc :: "dhcp_option \<Rightarrow> bytes" where
  "enc Pad = [0]"
| "enc (Opt c d) = c # of_nat (length d) # d"

fun opt_ok :: "dhcp_option \<Rightarrow> bool" where
  "opt_ok Pad = True"
| "opt_ok (Opt c d) = (c \<noteq> 0 \<and> c \<noteq> 0xFF \<and> length d < 256)"

definition encs :: "dhcp_option list \<Rightarrow> bytes" where
  "encs os = concat (map enc os)"

lemma encs_simps [simp]: "encs [] = []" "encs (x # os) = enc x @ encs os"
  by (simp_all add: encs_def)

text \<open>What the options do to a state, each by \<open>f\<close>.\<close>

fun opts_do :: "(uint8_t \<Rightarrow> bytes \<Rightarrow> 's \<Rightarrow> 's) \<Rightarrow> dhcp_option list \<Rightarrow> 's \<Rightarrow> 's" where
  "opts_do f [] s = s"
| "opts_do f (Pad # os) s = opts_do f os s"
| "opts_do f (Opt c d # os) s = opts_do f os (f c d s)"

lemma unat_of_nat8: "n < 256 \<Longrightarrow> unat (of_nat n :: uint8_t) = n"
  by (simp add: unsigned_of_nat take_bit_eq_mod)

lemma rd_at: "rd (length pre + k) n (pre @ m) = rd k n m"
  by (simp add: rd_def bslice_def)

lemma rd_at0: "rd (length pre) n (pre @ m) = rd 0 n m"
  using rd_at[of pre 0] by simp

lemma opt_scan_encs:
  assumes "\<And>pre c d zs s. m = pre @ enc (Opt c d) @ zs \<Longrightarrow> ok (Opt c d) \<Longrightarrow> body (length pre) s = Ok (f c d s)"
    and ok: "\<And>x. ok x \<Longrightarrow> opt_ok x" and "list_all ok os" "length pre + length (encs os) < end'" "m = pre @ encs os @ DHCP_OPT_END # zs"
  shows "opt_scan body m end' (length pre) s = Ok (opts_do f os s)"
  using assms(3-5)
proof (induction os arbitrary: pre s)
  case Nil
  then show ?case by (simp add: opt_scan.simps[of _ _ _ "length pre"] rd_at0 rd_def bslice_def DHCP_OPT_END_def)
next
  case (Cons x os)
  show ?case
  proof (cases x)
    case Pad
    have "opt_scan body m end' (length (pre @ [0])) s = Ok (opts_do f os s)"
      by (rule Cons.IH) (use Cons.prems Pad in simp_all)
    then show ?thesis using Cons.prems Pad
      by (simp add: opt_scan.simps[of _ _ _ "length pre"] rd_at0 rd_def bslice_def)
  next
    case (Opt c d)
    have b: "body (length pre) s = Ok (f c d s)"
      by (rule assms(1)) (use Cons.prems Opt in auto)
    have o: "c \<noteq> 0" "c \<noteq> 0xFF" "length d < 256" using ok[of x] Cons.prems(1) Opt by simp_all
    have "opt_scan body m end' (length (pre @ enc x)) (f c d s) = Ok (opts_do f os (f c d s))"
      by (rule Cons.IH) (use Cons.prems Opt in simp_all)
    then show ?thesis using Cons.prems Opt b o rd_at[of pre 1 1] unat_of_nat8[of "length d"]
      by (simp add: opt_scan.simps[of _ _ _ "length pre"] rd_at0 rd_def bslice_def)
  qed
qed

section \<open>What the two statements do with an option\<close>

fun dhcp_effect :: "uint8_t \<Rightarrow> bytes \<Rightarrow> uint32_t \<times> uint8_t option \<Rightarrow> uint32_t \<times> uint8_t option" where
  "dhcp_effect c d (srv_id, msg_type) =
     (if c = DHCP_OPT_MT \<and> d \<noteq> [] then (srv_id, Some (hd d))
      else if c = DHCP_OPT_SRVID \<and> 4 \<le> length d then (un32 (take 4 d), msg_type) else (srv_id, msg_type))"

fun bootp_effect :: "uint8_t \<Rightarrow> bytes \<Rightarrow> ('h, 'w) ip_world_scheme \<Rightarrow> ('h, 'w) ip_world_scheme" where
  "bootp_effect c d w =
     (if c = DHCP_OPT_SMASK then w\<lparr>net_mask := un32 (take 4 d)\<rparr>
      else if c = DHCP_OPT_ROUTER then w\<lparr>gateway := un32 (take 4 d)\<rparr>
      else if c = DHCP_OPT_DNS then w\<lparr>dns_serv := un32 (take 4 d)\<rparr> else w)"

text \<open>The options of addresses hold at least one.\<close>

fun addr_opt_ok :: "dhcp_option \<Rightarrow> bool" where
  "addr_opt_ok Pad = True"
| "addr_opt_ok (Opt c d) = (c \<in> {DHCP_OPT_SMASK, DHCP_OPT_ROUTER, DHCP_OPT_DNS} \<longrightarrow> 4 \<le> length d)"

lemma len_byte:
  assumes "length d < 256"
  shows "of_nat (length d) = (0 :: uint8_t) \<longleftrightarrow> d = []" "(4 :: uint8_t) \<le> of_nat (length d) \<longleftrightarrow> 4 \<le> length d"
  using unat_of_nat8[OF assms] by (auto simp: word_unat_eq_iff word_le_nat_alt)

lemma dhcp_opt_effect:
  assumes "m = pre @ enc (Opt c d) @ zs" "length d < 256"
  shows "dhcp_opt m (length pre) s = Ok (dhcp_effect c d s)"
proof -
  obtain v t where s: "s = (v, t)" by (cases s)
  have "Suc (length pre) = length pre + 1" "Suc (Suc (length pre)) = length pre + 2" by simp_all
  note at = rd_at[of pre 1] rd_at[of pre 2] rd_at0[of pre]
  show ?thesis
    using len_byte[OF assms(2)] unfolding s assms(1) dhcp_opt_def prod.case at
    by (cases d) (auto simp: rd_def bslice_def DHCP_OPT_MT_def DHCP_OPT_SRVID_def)
qed

lemma bootp_opt_effect:
  assumes "m = pre @ enc (Opt c d) @ zs" "addr_opt_ok (Opt c d)"
  shows "bootp_opt m (length pre) w = Ok (bootp_effect c d w)"
proof -
  have at: "rd (length pre + 1 + 1) 4 m = rd 2 4 (enc (Opt c d) @ zs)" "rd (length pre) 1 m = Ok [c]"
    using rd_at[of pre 2 4] rd_at0[of pre 1] unfolding assms(1) by (simp_all add: rd_def bslice_def)
  show ?thesis
    using assms(2) unfolding bootp_opt_def at bnd.simps Let_def
    by (auto simp: rd_def bslice_def)
qed

lemma dhcp_scan:
  assumes "list_all opt_ok os" "length pre + length (encs os) < end'" "m = pre @ encs os @ DHCP_OPT_END # zs"
  shows "opt_scan (dhcp_opt m) m end' (length pre) s = Ok (opts_do dhcp_effect os s)"
  by (rule opt_scan_encs[OF _ _ assms]) (auto intro: dhcp_opt_effect simp del: dhcp_effect.simps)

lemma bootp_scan:
  assumes "list_all opt_ok os" "list_all addr_opt_ok os" "length pre + length (encs os) < end'"
    "m = pre @ encs os @ DHCP_OPT_END # zs"
  shows "opt_scan (bootp_opt m) m end' (length pre) w = Ok (opts_do bootp_effect os w)"
proof -
  have o: "list_all (\<lambda>x. opt_ok x \<and> addr_opt_ok x) os" using assms(1,2) by (simp add: list_all_iff)
  show ?thesis by (rule opt_scan_encs[OF _ _ o assms(3,4)]) (blast intro: bootp_opt_effect)+
qed

section \<open>Properties\<close>

text \<open>C16: the option loop of \<open>dhcp_recv\<close> reads back every list of options as it is encoded (code, length,
  data; single padding bytes between options; an end mark inside the message), with the first \<open>switch\<close>
  statement: the message type and the server of the last options that hold them; and with the second one, if the options of
  mask, router and name server have at least four bytes of data: these addresses, of which it takes the first four bytes (of
  a shorter option it would read beyond the data).  It stays inside the message and ends.\<close>

theorem dhcp_options_parse:
  assumes "list_all opt_ok os" "length pre + length (encs os) < end'" "m = pre @ encs os @ [DHCP_OPT_END] @ zs"
  shows "opt_scan (dhcp_opt m) m end' (length pre) s = Ok (opts_do dhcp_effect os s) \<and>
    (list_all addr_opt_ok os \<longrightarrow> opt_scan (bootp_opt m) m end' (length pre) w = Ok (opts_do bootp_effect os w))"
  using dhcp_scan[OF assms(1,2), of m zs] bootp_scan[OF assms(1) _ assms(2), of m zs] assms(3) by auto

theorem dhcp_options_parse_witness:
  "opt_scan (dhcp_opt [53, 1, 2, 0, 54, 4, 10, 0, 0, 1, 255]) [53, 1, 2, 0, 54, 4, 10, 0, 0, 1, 255] 11 0 (0, None) =
     Ok (un32 [10, 0, 0, 1], Some 2)"
  using dhcp_options_parse[where os = "[Opt 53 [2], Pad, Opt 54 [10, 0, 0, 1]]" and pre = "[]" and end' = 11 and zs = "[]"
      and s = "(0, None)" and w = demo_empty, OF _ _ refl]
  by (simp add: dhcp_consts)

end
