(* ===== verification/Dhcp.thy ===== *)
theory Dhcp
  imports Dhcp_Options
begin

text \<open>
  The DHCP client of \<open>net/ipconfig.c\<close>: its variables, the transaction number, and the handler of replies
  \<open>dhcp_recv\<close>.  A message (\<open>struct dhcp_pkt_s\<close>) is an IP header, a UDP header and a BOOTP message
  with 312 bytes of options, 576 bytes in all.  \<open>rand\<close> of the C library is the sequence \<open>rands\<close> of what its
  calls return.
\<close>

section \<open>The code\<close>

record 'h dhcp_world = "'h sock_world" +
  serv_addr :: uint32_t
  xid :: uint32_t
  got_reply :: bool
  dhcp_msg_type :: uint8_t
  rands :: "nat \<Rightarrow> uint16_t"
  rand_pos :: nat

definition BOOTP_REQUEST :: uint8_t where "BOOTP_REQUEST = 1"
definition BOOTP_REPLY :: uint8_t where "BOOTP_REPLY = 2"

definition dhcp_magic_cookie :: bytes where "dhcp_magic_cookie = [99, 130, 83, 99]"

text \<open>\<open>"bosduino"\<close> with its terminating NUL.\<close>

definition host_name :: bytes where "host_name = [98, 111, 115, 100, 117, 105, 110, 111, 0]"

abbreviation (input) "dh_udp_len \<equiv> 24 :: nat"
abbreviation (input) "dh_op \<equiv> 28 :: nat"
abbreviation (input) "dh_htype \<equiv> 29 :: nat"
abbreviation (input) "dh_hlen \<equiv> 30 :: nat"
abbreviation (input) "dh_xid \<equiv> 32 :: nat"
abbreviation (input) "dh_yiaddr \<equiv> 44 :: nat"
abbreviation (input) "dh_siaddr \<equiv> 48 :: nat"
abbreviation (input) "dh_giaddr \<equiv> 52 :: nat"
abbreviation (input) "dh_chaddr \<equiv> 56 :: nat"
abbreviation (input) "dh_options \<equiv> 264 :: nat"

definition DHCP_PKT_SIZE :: nat where "DHCP_PKT_SIZE = 576"

definition rand :: "('h, 'w) dhcp_world_scheme \<Rightarrow> uint16_t \<times> ('h, 'w) dhcp_world_scheme" where
  "rand w = (rands w (rand_pos w), w\<lparr>rand_pos := rand_pos w + 1\<rparr>)"

definition xid_gen :: "('h, 'w) dhcp_world_scheme \<Rightarrow> ('h, 'w) dhcp_world_scheme" where
  "xid_gen w =
     (let (r, w) = rand w; w = w\<lparr>xid := (xid w AND 0xFFFF0000) OR ucast r\<rparr>;
          (r, w) = rand w
      in w\<lparr>xid := (xid w AND 0x0000FFFF) OR push_bit 16 (ucast r)\<rparr>)"

text \<open>
  The last part of \<open>dhcp_recv\<close>: the addresses of the message are taken over.  \<open>out\<close> frees the buffer.
\<close>

definition dhcp_out :: "nbp \<Rightarrow> ('h, 'w) dhcp_world_scheme \<Rightarrow> (int8_t \<times> ('h, 'w) dhcp_world_scheme) res" where
  "dhcp_out nb w = bnd (free_net_buff nb w) (\<lambda>w. Ok (NETDEV_RX_SUCCESS, w))"

definition dhcp_take :: "'z swaps_scheme \<Rightarrow> nbp \<Rightarrow> nat \<Rightarrow> ('h, 'w) dhcp_world_scheme \<Rightarrow>
    (int8_t \<times> ('h, 'w) dhcp_world_scheme) res" where
  "dhcp_take P nb pkt w =
     bnd (nb_rd nb (pkt + dh_yiaddr) 4 w) (\<lambda>y.
     let w = w\<lparr>my_ip := un32 y\<rparr> in
     bnd (if serv_addr w = htonl P INADDR_NONE then
            bnd (nb_rd nb (pkt + dh_siaddr) 4 w) (\<lambda>s. Ok (w\<lparr>serv_addr := un32 s\<rparr>))
          else Ok w) (\<lambda>w.
     bnd (if gateway w = htonl P INADDR_NONE then
            bnd (nb_rd nb (pkt + dh_giaddr) 4 w) (\<lambda>g. Ok (if un32 g \<noteq> 0 then w\<lparr>gateway := un32 g\<rparr> else w))
          else Ok w) (\<lambda>w.
     dhcp_out nb (w\<lparr>got_reply := True\<rparr>))))"

text \<open>
  The parsing of the options and the \<open>switch\<close> on the message type; \<open>True\<close> when the code goes on,
  \<open>False\<close> when it goes to \<open>out\<close>.  \<open>end\<close> is a 16-bit pointer; when the sum wraps around it lies before the options, as
  the offset \<open>end'\<close> does, and the loops do not run.
\<close>

definition dhcp_parse :: "'z swaps_scheme \<Rightarrow> nbp \<Rightarrow> addr \<Rightarrow> nat \<Rightarrow> ('h, 'w) dhcp_world_scheme \<Rightarrow>
    (bool \<times> ('h, 'w) dhcp_world_scheme) res" where
  "dhcp_parse P nb net_dev pkt w =
     bnd (nb_rd nb (pkt + iph_tot_len) 2 w) (\<lambda>l.
     bnd (load_nb w nb) (\<lambda>b.
     let end' = (head_at w nb b + (pkt + unat (htons P (un16 l)))) mod 2 ^ 16 - head_at w nb b;
         opt_p = pkt + dh_options + 4; srv_id = htonl P INADDR_NONE in
     bnd (opt_scan (dhcp_opt (nb_mem b)) (nb_mem b) end' opt_p (srv_id, None)) (\<lambda>(srv_id, msg_type).
     case msg_type of None \<Rightarrow> Fault Uninit
     | Some msg_type \<Rightarrow>
         bnd (if msg_type = DHCP_OFFER then
                if my_ip w \<noteq> htonl P INADDR_NONE then Ok (False, w) else
                bnd (nb_rd nb (pkt + dh_yiaddr) 4 w) (\<lambda>y.
                let w = w\<lparr>my_ip := un32 y, serv_addr := srv_id\<rparr> in
                bnd (if serv_addr w \<noteq> htonl P INADDR_NONE then
                       bnd (nb_rd nb (pkt + dh_siaddr) 4 w) (\<lambda>s.
                       if serv_addr w \<noteq> un32 s then nb_wr nb (pkt + dh_siaddr) (le32 (serv_addr w)) w else Ok w)
                     else Ok w) (\<lambda>w.
                Ok (True, w)))
              else if msg_type = DHCP_ACK then
                bnd (load_dev w net_dev) (\<lambda>x.
                bnd (rd 0 ETH_MAC_LEN (nd_dev_addr x)) (\<lambda>mac.
                bnd (nb_rd nb (pkt + dh_chaddr) ETH_MAC_LEN w) (\<lambda>ch.
                Ok (mac = ch, w))))
              else Ok (False, w\<lparr>my_ip := htonl P INADDR_NONE, serv_addr := htonl P INADDR_NONE\<rparr>)) (\<lambda>(go, w).
         if \<not> go then Ok (False, w) else
         bnd (load_nb w nb) (\<lambda>b.
         bnd (opt_scan (bootp_opt (nb_mem b)) (nb_mem b) end' opt_p (w\<lparr>dhcp_msg_type := msg_type\<rparr>)) (\<lambda>w.
         Ok (True, w)))))))"

definition dhcp_recv :: "'z swaps_scheme \<Rightarrow> nbp \<Rightarrow> ('h, 'w) dhcp_world_scheme \<Rightarrow>
    (int8_t \<times> ('h, 'w) dhcp_world_scheme) res" where
  "dhcp_recv P nb w =
     bnd (load_nb w nb) (\<lambda>b.
     let net_dev = nb_net_dev b; out = dhcp_out nb in
     if net_dev \<noteq> curr_net_dev w then out w else
     if unat (nb_pkt_type b) = PKT_OTHERHOST then out w else
     let pkt = unat (nb_network_hdr_offset b) in
     bnd (nb_rd nb pkt 1 w) (\<lambda>v.
     bnd (if get_ihl (v ! 0) \<noteq> 5 \<or> get_version (v ! 0) \<noteq> 4 then Ok False
          else bnd (nb_rd nb (pkt + iph_protocol) 1 w) (\<lambda>proto. Ok (proto ! 0 = IPPROTO_UDP))) (\<lambda>udp.
     if \<not> udp then out w else
     bnd (nb_rd nb (pkt + iph_frag_off) 2 w) (\<lambda>f.
     if un16 f AND htons P (IP_MF OR IP_OFFSET) \<noteq> 0 then out w else
     bnd (nb_checksum nb pkt (of_nat (unat (get_ihl (v ! 0)) * 4)) w) (\<lambda>chks.
     if chks \<noteq> 0 then out w else
     bnd (nb_rd nb (pkt + dh_udp_len) 2 w) (\<lambda>l.
     let data_len = un16 l - of_nat UDP_HDR_SIZE :: int16_t;
         opt_len = data_len - of_nat (dh_options - 20 - UDP_HDR_SIZE) :: int16_t in
     if sint opt_len < 0 then out w else
     if got_reply w then out w else
     bnd (nb_rd nb (pkt + dh_op) 1 w) (\<lambda>op'.
     bnd (if op' ! 0 \<noteq> BOOTP_REPLY then Ok False
          else bnd (nb_rd nb (pkt + dh_xid) 4 w) (\<lambda>x. Ok (un32 x = xid w))) (\<lambda>ours.
     if \<not> ours then out w else
     bnd (if 4 \<le> sint opt_len then
            bnd (nb_rd nb (pkt + dh_options) 4 w) (\<lambda>c.
            if c = dhcp_magic_cookie then dhcp_parse P nb net_dev pkt w else Ok (True, w))
          else Ok (True, w)) (\<lambda>(go, w).
     if go then dhcp_take P nb pkt w else out w)))))))))"

end
