(* ===== verification/Dhcp_Request.thy ===== *)
theory Dhcp_Request
  imports Dhcp
begin

text \<open>
  Sending a DHCP request (\<open>dhcp_options_init\<close> and \<open>dhcp_send_request\<close> of \<open>net/ipconfig.c\<close>).
\<close>

section \<open>Sending a request\<close>

text \<open>The stores through a pointer that moves behind each.\<close>

fun opt_puts :: "nbp \<Rightarrow> nat \<Rightarrow> bytes list \<Rightarrow> 'w nb_world_scheme \<Rightarrow> 'w nb_world_scheme res" where
  "opt_puts nb opt [] w = Ok w"
| "opt_puts nb opt (bs # bss) w = bnd (nb_wr nb opt bs w) (opt_puts nb (opt + length bs) bss)"

definition dhcp_options_init :: "'z swaps_scheme \<Rightarrow> nbp \<Rightarrow> nat \<Rightarrow> ('h, 'w) dhcp_world_scheme \<Rightarrow>
    ('h, 'w) dhcp_world_scheme res" where
  "dhcp_options_init P nb options w =
     (let msg_type = (if serv_addr w = htonl P INADDR_NONE then DHCP_DISCOVER else DHCP_REQUEST) in
      opt_puts nb options
        ([dhcp_magic_cookie, [DHCP_OPT_MT], [1], [msg_type]] @
         (if msg_type = DHCP_REQUEST
          then [[DHCP_OPT_SRVID], [4], le32 (serv_addr w), [DHCP_OPT_REQIP], [4], le32 (my_ip w)] else []) @
         (if host_name ! 0 \<noteq> 0 then [[DHCP_OPT_HNAME], [of_nat (length host_name)], host_name] else []) @
         [[DHCP_OPT_PRLIST], [4], [DHCP_OPT_SMASK], [DHCP_OPT_ROUTER], [DHCP_OPT_DNS], [DHCP_OPT_DNAME], [DHCP_OPT_END]]) w)"

text \<open>The message on the buffer \<open>nb\<close>, of which the link header is the last part.\<close>

definition dhcp_build :: "('h, 'w) dhcp_world_scheme platform \<Rightarrow> nbp \<Rightarrow> ('h, 'w) dhcp_world_scheme \<Rightarrow>
    ('h, 'w) dhcp_world_scheme res" where
  "dhcp_build P nb w =
     bnd (nb_upd nb (\<lambda>b. b\<lparr>nb_data := nb_data b + ETH_HDR_LEN, nb_tail := nb_tail b + ETH_HDR_LEN\<rparr>) w) (\<lambda>w.
     bnd (put_net_buff nb (of_nat DHCP_PKT_SIZE) w) (\<lambda>(pkt, w).
     bnd (nb_wr nb pkt (replicate DHCP_PKT_SIZE 0) w) (\<lambda>w.
     bnd (nb_upd nb (\<lambda>b. b\<lparr>nb_network_hdr_offset := of_nat (nb_data b)\<rparr>) w) (\<lambda>w.
     bnd (nb_bits nb pkt (set_version 4) w) (\<lambda>w.
     bnd (nb_bits nb pkt (set_ihl 5) w) (\<lambda>w.
     bnd (nb_wr nb (pkt + iph_tot_len) (le16 (htons P (of_nat DHCP_PKT_SIZE))) w) (\<lambda>w.
     bnd (nb_wr nb (pkt + iph_frag_off) (le16 (htons P IP_DF)) w) (\<lambda>w.
     bnd (nb_wr nb (pkt + iph_ttl) [64] w) (\<lambda>w.
     bnd (nb_wr nb (pkt + iph_protocol) [IPPROTO_UDP] w) (\<lambda>w.
     bnd (nb_wr nb (pkt + iph_ip_dst) (le32 (htonl P INADDR_BROADCAST)) w) (\<lambda>w.
     bnd (nb_rd nb pkt 1 w) (\<lambda>v.
     bnd (nb_checksum nb pkt (of_nat (unat (get_ihl (v ! 0)) * 4)) w) (\<lambda>chks.
     bnd (nb_wr nb (pkt + iph_hdr_chks) (le16 chks) w) (\<lambda>w.
     bnd (nb_upd nb (\<lambda>b. b\<lparr>nb_data := nb_data b + IP_HDR_SIZE, nb_tail := nb_tail b + IP_HDR_SIZE\<rparr>) w) (\<lambda>w.
     bnd (nb_upd nb (\<lambda>b. b\<lparr>nb_transport_hdr_offset := of_nat (nb_data b)\<rparr>) w) (\<lambda>w.
     bnd (nb_wr nb (pkt + 20 + udph_port_src) (le16 (htons P 68)) w) (\<lambda>w.
     bnd (nb_wr nb (pkt + 20 + udph_port_dst) (le16 (htons P 67)) w) (\<lambda>w.
     bnd (nb_wr nb (pkt + 20 + udph_len) (le16 (htons P (of_nat (DHCP_PKT_SIZE - IP_HDR_SIZE)))) w) (\<lambda>w.
     bnd (nb_upd nb (\<lambda>b. b\<lparr>nb_data := nb_data b + UDP_HDR_SIZE, nb_tail := nb_tail b + UDP_HDR_SIZE\<rparr>) w) (\<lambda>w.
     bnd (nb_wr nb (pkt + dh_op) [BOOTP_REQUEST] w) (\<lambda>w.
     bnd (nb_wr nb (pkt + dh_htype) [1] w) (\<lambda>w.
     bnd (nb_wr nb (pkt + dh_hlen) [of_nat ETH_MAC_LEN] w) (\<lambda>w.
     bnd (load_dev w (curr_net_dev w)) (\<lambda>x.
     bnd (mac_at (nd_dev_addr x)) (\<lambda>mac.
     bnd (nb_wr nb (pkt + dh_chaddr) mac w) (\<lambda>w.
     bnd (nb_wr nb (pkt + dh_xid) (le32 (xid w)) w) (\<lambda>w.
     bnd (dhcp_options_init P nb (pkt + dh_options) w) (\<lambda>w.
     nb_upd nb (\<lambda>b. b\<lparr>nb_net_dev := curr_net_dev w, nb_protocol := htons P ETH_P_IP\<rparr>) w))))))))))))))))))))))))))))"

text \<open>Errors are only reported on the console, so the result is the state.\<close>

definition dhcp_send_request :: "('h, 'w) dhcp_world_scheme platform \<Rightarrow> nat \<Rightarrow> ('h, 'w) dhcp_world_scheme \<Rightarrow>
    ('h, 'w) dhcp_world_scheme res" where
  "dhcp_send_request P fuel w =
     (let (nb, w) = net_buff_alloc (of_nat (DHCP_PKT_SIZE + ETH_HDR_LEN)) w in
      if nb = NULLP then Ok w else
      bnd (dhcp_build P nb w) (\<lambda>w.
      bnd (load_nb w nb) (\<lambda>b.
      bnd (load_dev w (curr_net_dev w)) (\<lambda>x.
      bnd (netdev_hdr_create P nb (curr_net_dev w) (ntohs P (nb_protocol b)) (Some (nd_broadcast x)) (Some (nd_dev_addr x))
             (nb_pkt_len b) w) (\<lambda>(err, w).
      if err \<noteq> 0 then free_net_buff nb w
      else bnd (netdev_list_xmit P fuel nb w) (\<lambda>(_, w). Ok w))))))"

section \<open>The message that is sent\<close>

lemma in_windows_dhcp [window_simps]:
  fixes w :: "('h, 'w) dhcp_world_scheme"
  shows "serv_addr (in_windows a b e n t E N T w) = serv_addr w" "xid (in_windows a b e n t E N T w) = xid w"
    "curr_net_dev (in_windows a b e n t E N T w) = curr_net_dev w"
  by (simp_all add: in_windows_def)

lemma in_windows_puts:
  assumes "fits e n t (length (nb_mem b)) (length E) (length N) l"
  shows "length T = l \<Longrightarrow> k + length (concat bss) \<le> l \<Longrightarrow>
    opt_puts (NB a) (t + k) bss (in_windows a b e n t E N T w) = Ok (in_windows a b e n t E N (upd k (concat bss) T) w)"
proof (induction bss arbitrary: k T)
  case Nil
  then show ?case by (simp add: upd_def)
next
  case (Cons bs bss)
  let ?T = "upd k bs T"
  have T: "length ?T = l" using Cons.prems by simp
  have "nb_wr (NB a) (t + k) bs (in_windows a b e n t E N T w) = Ok (in_windows a b e n t E N ?T w)"
    using in_windows_wr(3)[of e n t b E N T "t + k" bs a w] assms Cons.prems by simp
  moreover have "opt_puts (NB a) (t + (k + length bs)) bss (in_windows a b e n t E N ?T w) =
      Ok (in_windows a b e n t E N (upd (k + length bs) (concat bss) ?T) w)"
    using Cons.IH[OF T] Cons.prems by simp
  moreover have "upd (k + length bs) (concat bss) ?T = upd k (concat (bs # bss)) T"
    using Cons.prems by (simp add: upd_append upd_commute[of k bs "k + length bs" "concat bss" T])
  ultimately show ?case by (simp add: add.assoc)
qed

text \<open>The options of a request, and the message from the UDP header on.\<close>

definition request_opts :: "uint32_t \<Rightarrow> uint32_t \<Rightarrow> dhcp_option list" where
  "request_opts serv my =
     (if serv = INADDR_NONE then [Opt DHCP_OPT_MT [DHCP_DISCOVER]]
      else [Opt DHCP_OPT_MT [DHCP_REQUEST], Opt DHCP_OPT_SRVID (le32 serv), Opt DHCP_OPT_REQIP (le32 my)]) @
     [Opt DHCP_OPT_HNAME host_name, Opt DHCP_OPT_PRLIST [DHCP_OPT_SMASK, DHCP_OPT_ROUTER, DHCP_OPT_DNS, DHCP_OPT_DNAME]]"

definition opts_area :: "uint32_t \<Rightarrow> uint32_t \<Rightarrow> bytes" where
  "opts_area serv my = dhcp_magic_cookie @ encs (request_opts serv my) @ [DHCP_OPT_END]"

definition request_bytes :: "uint32_t \<Rightarrow> uint32_t \<Rightarrow> uint32_t \<Rightarrow> bytes \<Rightarrow> bytes" where
  "request_bytes x serv my mac = be16 68 @ be16 67 @ be16 556 @ [0, 0] @ [BOOTP_REQUEST, 1, 6, 0] @ le32 x @
     replicate 20 0 @ mac @ replicate 202 0 @ opts_area serv my @ replicate (312 - length (opts_area serv my)) 0"

lemma length_opts_area: "length (opts_area serv my) \<le> 64"
  by (simp add: opts_area_def request_opts_def dhcp_magic_cookie_def host_name_def)

lemma length_request_bytes [simp]: "length mac = 6 \<Longrightarrow> length (request_bytes x serv my mac) = 556"
  using length_opts_area[of serv my] by (simp add: request_bytes_def)

lemma options_concat:
  fixes serv my :: uint32_t
  assumes "swaps_ok P"
  defines "none \<equiv> htonl P INADDR_NONE"
  defines "msg_type \<equiv> (if serv = none then DHCP_DISCOVER else DHCP_REQUEST)"
  shows "concat ([dhcp_magic_cookie, [DHCP_OPT_MT], [1], [msg_type]] @
         (if msg_type = DHCP_REQUEST
          then [[DHCP_OPT_SRVID], [4], le32 serv, [DHCP_OPT_REQIP], [4], le32 my] else []) @
         (if host_name ! 0 \<noteq> 0 then [[DHCP_OPT_HNAME], [of_nat (length host_name)], host_name] else []) @
         [[DHCP_OPT_PRLIST], [4], [DHCP_OPT_SMASK], [DHCP_OPT_ROUTER], [DHCP_OPT_DNS], [DHCP_OPT_DNAME], [DHCP_OPT_END]]) =
    opts_area serv my"
proof -
  have "swap32 0xFFFFFFFF = 0xFFFFFFFF" by code_simp
  then have "none = INADDR_NONE" using assms(1) by (simp add: none_def INADDR_NONE_def swap_simps)
  moreover have "DHCP_DISCOVER \<noteq> DHCP_REQUEST" "host_name ! 0 \<noteq> 0" by code_simp+
  ultimately show ?thesis by (simp add: msg_type_def opts_area_def request_opts_def)
qed

lemma in_windows_options:
  fixes w :: "('h, 'w) dhcp_world_scheme"
  assumes P: "swaps_ok P" and f: "fits e n t (length (nb_mem b)) (length E) (length N) (length T)"
    and k: "t \<le> i" "i + 64 \<le> t + length T"
  shows "dhcp_options_init P (NB a) i (in_windows a b e n t E N T w) =
    Ok (in_windows a b e n t E N (upd (i - t) (opts_area (serv_addr w) (my_ip w)) T) w)"
proof -
  have "i - t + length (opts_area (serv_addr w) (my_ip w)) \<le> length T"
    using k length_opts_area[of "serv_addr w" "my_ip w"] by simp
  from in_windows_puts[OF f refl this[folded options_concat[OF P]], of a w, unfolded options_concat[OF P] le_add_diff_inverse[OF k(1)]]
  show ?thesis unfolding dhcp_options_init_def Let_def in_windows_dhcp in_windows_ip .
qed

lemma upd_pre: "length pre \<le> k \<Longrightarrow> upd k bs (pre @ m) = pre @ upd (k - length pre) bs m"
  by (simp add: upd_def)

lemma request_write:
  assumes "length mac = 6"
  shows "upd 244 (opts_area serv my) (upd 12 (le32 x) (upd 36 mac (upd 10 [6] (upd 9 [1] (upd 8 [BOOTP_REQUEST]
      (upd 4 (be16 556) (upd 2 (be16 67) (upd 0 (be16 68) (replicate 556 0))))))))) = request_bytes x serv my mac"
proof -
  let ?o = "opts_area serv my"
    and ?pre = "be16 68 @ be16 67 @ be16 556 @ [0, 0] @ [BOOTP_REQUEST, 1, 6, 0] @ le32 x @ replicate 20 0 @ mac"
  have "upd 4 (be16 556) (upd 2 (be16 67) (upd 0 (be16 68) (replicate 556 0))) = (be16 68 @ be16 67 @ be16 556) @ replicate 550 0"
    by (simp add: upd_def)
  then have "upd 10 [6] (upd 9 [1] (upd 8 [BOOTP_REQUEST] (upd 4 (be16 556) (upd 2 (be16 67) (upd 0 (be16 68) (replicate 556 0)))))) =
      (be16 68 @ be16 67 @ be16 556 @ [0, 0] @ [BOOTP_REQUEST, 1, 6]) @ replicate 545 0"
    by (simp add: upd_def numeral_2_eq_2)
  then have "upd 12 (le32 x) (upd 36 mac (upd 10 [6] (upd 9 [1] (upd 8 [BOOTP_REQUEST] (upd 4 (be16 556) (upd 2 (be16 67) (upd 0 (be16 68) (replicate 556 0)))))))) =
      ?pre @ replicate 514 0"
    using assms by (simp add: upd_def)
  moreover have "upd 244 ?o (?pre @ replicate 514 0) = ?pre @ upd 202 ?o (replicate 514 0)"
    by (subst upd_pre) (use assms in simp_all)
  moreover have "upd 202 ?o (replicate 514 0) = replicate 202 0 @ ?o @ replicate (312 - length ?o) 0"
    using length_opts_area[of serv my] by (simp add: upd_def)
  ultimately show ?thesis by (simp add: request_bytes_def)
qed

text \<open>The assignments to the IP header.\<close>

lemma dhcp_ip_write:
  "upd 16 (le32 INADDR_BROADCAST) (upd 9 [IPPROTO_UDP] (upd 8 [64] (upd 6 (be16 IP_DF) (upd 2 (be16 576)
    (upd 0 [set_ihl 5 (set_version 4 0)] (replicate 20 0)))))) =
   ip_bytes ((ip_out IPPROTO_UDP 576 (le32 0) (le32 INADDR_BROADCAST))\<lparr>ih_hdr_chks := 0\<rparr>)"
proof -
  have "byte_of (Suc 0) (0 :: uint16_t) = 0" "byte_of 0 (0 :: uint16_t) = 0" "le32 0 = [0, 0, 0, 0]"
    "replicate 2 (0 :: uint8_t) = [0, 0]" "replicate 6 (0 :: uint8_t) = [0, 0, 0, 0, 0, 0]" by code_simp+
  then show ?thesis
    by (simp add: set_ver_ihl upd_def ip_bytes_def ver_ihl_def ip_out_def ip_sealed_def le16_consts be16_def)
qed

text \<open>The buffer that \<open>dhcp_build\<close> leaves.\<close>

definition request_buff :: "addr \<Rightarrow> uint16_t \<Rightarrow> bytes \<Rightarrow> net_buff" where
  "request_buff d proto m = (nb_fresh m 590)\<lparr>nb_net_dev := d, nb_protocol := proto, nb_pkt_len := 576, nb_data := 42,
     nb_tail := 618, nb_transport_hdr_offset := 34\<rparr>"

lemma dhcp_build_frame:
  fixes w :: "('h, 'w) dhcp_world_scheme"
  assumes P: "swaps_ok P" and b: "nbs w a = Some (nb_fresh m 590)" "length m = 590" and dev: "eth_dev (curr_net_dev w) w x"
  shows "dhcp_build P (NB a) w = Ok (w\<lparr>nbs := (nbs w)(a \<mapsto> request_buff (curr_net_dev w) (htons P ETH_P_IP)
    (take 14 m @ ip_bytes (ip_out IPPROTO_UDP 576 (le32 0) (le32 INADDR_BROADCAST)) @
     request_bytes (xid w) (serv_addr w) (my_ip w) (nd_dev_addr x)))\<rparr>)"
proof -
  note size = ETH_HDR_LEN_def IP_HDR_SIZE_def UDP_HDR_SIZE_def DHCP_PKT_SIZE_def ETH_MAC_LEN_def
  define b3 where "b3 = (nb_fresh (take 14 m @ replicate 576 0) 590)\<lparr>nb_data := 14, nb_tail := 590, nb_pkt_len := 576\<rparr>"
  define w3 where "w3 = w\<lparr>nbs := (nbs w)(a \<mapsto> b3)\<rparr>"
  have w3: "nbs w3 a = Some b3" "nb_mem b3 = take 14 m @ replicate 576 0" by (simp_all add: w3_def b3_def nb_fresh_def)
  have "bslice 14 20 (nb_mem b3) = replicate 20 0" "bslice 34 556 (nb_mem b3) = replicate 556 0" "bslice 0 14 (nb_mem b3) = take 14 m"
    using b(2) by (simp_all add: w3(2) bslice_def)
  then have "view 0 14 34 (nb_mem b3) (take 14 m) (replicate 20 0) (replicate 556 0)"
    using b(2) by (simp add: view_def w3(2))
  note start = in_windows_start[OF w3(1) this]
  have e3: "\<And>g. bnd (nb_upd (NB a) (\<lambda>b. b\<lparr>nb_data := nb_data b + ETH_HDR_LEN, nb_tail := nb_tail b + ETH_HDR_LEN\<rparr>) w) (\<lambda>w.
     bnd (put_net_buff (NB a) (of_nat DHCP_PKT_SIZE) w) (\<lambda>(pkt, w).
     bnd (nb_wr (NB a) pkt (replicate DHCP_PKT_SIZE 0) w) (g pkt))) =
       g 14 (in_windows a b3 0 14 34 (take 14 m) (replicate 20 0) (replicate 556 0) w3)"
    unfolding start using b
    by (simp add: nb_upd_NB put_net_buff_fits load_nb_NB store_nb_NB nb_wr_NB size nb_fresh_def w3_def b3_def upd_def)
  let ?E = "take 14 m" and ?h = "ip_out IPPROTO_UDP 576 (le32 0) (le32 INADDR_BROADCAST)" and ?mac = "nd_dev_addr x"
  let ?T = "request_bytes (xid w) (serv_addr w) (my_ip w) ?mac"
  let ?b = "b3\<lparr>nb_network_hdr_offset := 14, nb_transport_hdr_offset := 34, nb_data := 42, nb_tail := 618,
    nb_net_dev := curr_net_dev w, nb_protocol := htons P ETH_P_IP\<rparr>"
  have x: "load_dev w3 (curr_net_dev w) = Ok x" "length ?mac = 6" "mac_at ?mac = Ok ?mac"
    using dev by (simp_all add: eth_dev_def load_dev_def w3_def mac_ok_def mac_at_def ETH_MAC_LEN_def bslice_all)
  have sel: "serv_addr w3 = serv_addr w" "my_ip w3 = my_ip w" "xid w3 = xid w" "curr_net_dev w3 = curr_net_dev w"
    by (simp_all add: w3_def)
  have "swap32 0xFFFFFFFF = 0xFFFFFFFF" by code_simp
  then have bc: "htonl P INADDR_BROADCAST = INADDR_BROADCAST" using P by (simp add: INADDR_BROADCAST_def swap_simps)
  have f: "fits 0 14 34 590 14 20 556" by (simp add: fits_def)
  have b3: "length (nb_mem b3) = 590" "nb_data b3 = 14" "nb_tail b3 = 590" using b(2) by (simp_all add: b3_def nb_fresh_def)
  have "dhcp_build P (NB a) w = Ok (in_windows a ?b 0 14 34 ?E (ip_bytes ?h) ?T w3)"
    unfolding dhcp_build_def e3 using f b3 x b(2)
    by (simp add: window_simps in_windows_options[OF P] le16_htons[OF P] size bc sel dhcp_ip_write ip_out_sealed[symmetric]
      request_write)
  moreover have "windows 0 14 34 ?E (ip_bytes ?h) ?T (nb_mem b3) = ?E @ ip_bytes ?h @ ?T"
    by (rule windows_full) (use b(2) b3(1) x(2) in simp_all)
  then have "in_windows a ?b 0 14 34 ?E (ip_bytes ?h) ?T w3 =
      w\<lparr>nbs := (nbs w)(a \<mapsto> request_buff (curr_net_dev w) (htons P ETH_P_IP) (?E @ ip_bytes ?h @ ?T))\<rparr>"
    by (simp add: in_windows_def w3_def request_buff_def b3_def nb_fresh_def size)
  ultimately show ?thesis by simp
qed

section \<open>Properties\<close>

lemma eth_payload_simps [simp]: "sint (ETH_P_IP :: int16_t) = 2048" "swap16 (swap16 ETH_P_IP) = ETH_P_IP"
  by (simp_all add: ETH_P_IP_def)

lemma request_opts_ok: "list_all opt_ok (request_opts serv my)"
  by (simp add: request_opts_def dhcp_consts host_name_def)

lemma request_opts_do:
  "opts_do dhcp_effect (request_opts serv my) (INADDR_NONE, None) =
     (serv, Some (if serv = INADDR_NONE then DHCP_DISCOVER else DHCP_REQUEST))"
  by (simp add: request_opts_def dhcp_consts)

lemma request_scan:
  fixes x serv my :: uint32_t
  assumes "length E = 14" "length mac = 6"
  defines "m \<equiv> E @ ip_bytes (ip_out IPPROTO_UDP 576 (le32 0) (le32 INADDR_BROADCAST)) @ request_bytes x serv my mac"
  shows "opt_scan (dhcp_opt m) m 590 282 (INADDR_NONE, None) =
    Ok (serv, Some (if serv = INADDR_NONE then DHCP_DISCOVER else DHCP_REQUEST))"
proof -
  define pre where "pre = E @ ip_bytes (ip_out IPPROTO_UDP 576 (le32 0) (le32 INADDR_BROADCAST)) @ be16 68 @ be16 67 @
    be16 556 @ [0, 0] @ [BOOTP_REQUEST, 1, 6, 0] @ le32 x @ replicate 20 0 @ mac @ replicate 202 0 @ dhcp_magic_cookie"
  have l: "length pre = 282" using assms(1,2) by (simp add: pre_def dhcp_magic_cookie_def)
  have e: "length (encs (request_opts serv my)) < 308"
    using length_opts_area[of serv my] by (simp add: opts_area_def)
  have "m = pre @ encs (request_opts serv my) @ DHCP_OPT_END # replicate (312 - length (opts_area serv my)) 0"
    by (simp add: m_def pre_def request_bytes_def opts_area_def)
  from dhcp_scan[OF request_opts_ok _ this, of 590 "(INADDR_NONE, None)"] l e show ?thesis
    by (simp add: request_opts_do)
qed

text \<open>The request up to its transmission: the frame that is handed to the device.\<close>

lemma dhcp_request_handed:
  fixes w :: "('h, 'w) dhcp_world_scheme"
  assumes P: "swaps_ok P" and d: "curr_net_dev w = d" "eth_dev d w x" and al: "net_buff_alloc 590 w = (NB a, w1)"
  shows "\<exists>b h. dhcp_send_request P fuel w =
      bnd (netdev_list_xmit P fuel (NB a) (w1\<lparr>nbs := (nbs w1)(a \<mapsto> b)\<rparr>)) (\<lambda>(_, w). Ok w) \<and>
    nb_net_dev b = d \<and> nb_next b = NULLP \<and>
    nb_mem b = nd_broadcast x @ nd_dev_addr x @ be16 ETH_P_IP @ ip_bytes h @
      request_bytes (xid w) (serv_addr w) (my_ip w) (nd_dev_addr x) \<and>
    ih_version h = 4 \<and> ih_ihl h = 5 \<and> ih_protocol h = IPPROTO_UDP \<and> ih_tot_len h = 576 \<and>
    ih_src h = le32 0 \<and> ih_dst h = le32 0xFFFFFFFF \<and> chk (ip_bytes h) = 0 \<and> nb_pkt_len b = 590 \<and>
    opt_scan (dhcp_opt (nb_mem b)) (nb_mem b) 590 282 (INADDR_NONE, None) =
      Ok (serv_addr w, Some (if serv_addr w = INADDR_NONE then DHCP_DISCOVER else DHCP_REQUEST)) \<and>
    nb_tail b = nb_end b + 28"
  using al
proof (cases rule: net_buff_alloc_cases)
  case (ok a' ms j)
  then have a': "a' = a" by simp
  let ?m = "map j [0..<590]"
  have b1: "nbs w1 a = Some (nb_fresh ?m 590)" "length ?m = 590" using ok(5) a' by simp_all
  have dev1: "eth_dev (curr_net_dev w1) w1 x" "curr_net_dev w1 = d" using d ok(5) by (simp_all add: eth_dev_def)
  have sel1: "xid w1 = xid w" "serv_addr w1 = serv_addr w" "my_ip w1 = my_ip w" using ok(5) by simp_all
  let ?h = "ip_out IPPROTO_UDP 576 (le32 0) (le32 INADDR_BROADCAST)"
    and ?T = "request_bytes (xid w) (serv_addr w) (my_ip w) (nd_dev_addr x)"
  let ?b2 = "request_buff d (htons P ETH_P_IP) (take 14 ?m @ ip_bytes ?h @ ?T)"
  let ?w2 = "w1\<lparr>nbs := (nbs w1)(a \<mapsto> ?b2)\<rparr>"
  have build: "dhcp_build P (NB a) w1 = Ok ?w2" using dhcp_build_frame[OF P b1 dev1(1)] sel1 dev1(2) by simp
  have x: "d \<noteq> 0" "devs w1 d = Some x" "length (nd_broadcast x) = 6" "length (nd_dev_addr x) = 6"
    "nd_header_ops x = Some (Some Eth_header_create)" using dev1 by (simp_all add: eth_dev_def mac_ok_def)
  let ?E = "eth_bytes (nd_broadcast x) (nd_dev_addr x) ETH_P_IP"
  let ?b3 = "?b2\<lparr>nb_pkt_len := 590, nb_mem := ?E @ ip_bytes ?h @ ?T\<rparr>"
  let ?w3 = "w1\<lparr>nbs := (nbs w1)(a \<mapsto> ?b3)\<rparr>"
  have "upd 0 ?E (take 14 ?m @ ip_bytes ?h @ ?T) = ?E @ ip_bytes ?h @ ?T" using x(3,4) by (simp add: upd_def)
  then have hdr: "netdev_hdr_create P (NB a) d ETH_P_IP (Some (nd_broadcast x)) (Some (nd_dev_addr x)) 576 ?w2 = Ok (0, ?w3)"
    using eth_header_create_Ok[OF P, of ?w2 a ?b2 d x "nd_broadcast x" "Some (nd_dev_addr x)" ETH_P_IP 576] x
    by (simp add: netdev_hdr_create_def load_dev_def src_of_def request_buff_def nb_fresh_def)
  have "dhcp_send_request P fuel w = bnd (netdev_list_xmit P fuel (NB a) ?w3) (\<lambda>(_, w). Ok w)"
    using al build hdr x dev1(2) P
    by (simp add: dhcp_send_request_def DHCP_PKT_SIZE_def ETH_HDR_LEN_def load_nb_NB load_dev_def request_buff_def swap_simps)
  moreover have "opt_scan (dhcp_opt (nb_mem ?b3)) (nb_mem ?b3) 590 282 (INADDR_NONE, None) =
      Ok (serv_addr w, Some (if serv_addr w = INADDR_NONE then DHCP_DISCOVER else DHCP_REQUEST))"
    using request_scan[where E = ?E and mac = "nd_dev_addr x"] x by simp
  ultimately show ?thesis
    by (intro exI[of _ ?b3] exI[of _ ?h]) (simp add: eth_bytes_def request_buff_def nb_fresh_def INADDR_BROADCAST_def)
qed simp

text \<open>C14: with a free buffer and a running device, \<open>dhcp_send_request\<close> sends exactly one frame: a broadcast
  Ethernet frame with an IP header from address 0 to all ones, whose checksum verifies, UDP ports 68 and
  67, and a BOOTP request with the transaction number and the hardware address.  The option loop of the
  receiver reads from it DISCOVER when no server is known, else REQUEST with the server.  The tail pointer
  of the buffer ends 28 bytes beyond its end.\<close>

theorem dhcp_send_request_sends:
  fixes w :: "('h, 'w) dhcp_world_scheme"
  assumes "swaps_ok P" "tx_driver P sent m K d c q" "tx_ready d c w" "2 * Suc K \<le> fuel"
    and "curr_net_dev w = d" "eth_dev d w x" "alloc_ok w"
  shows "\<exists>w' b h. dhcp_send_request P fuel w = Ok w' \<and> sent (hw w') = sent (hw w) @ [b] \<and>
    nb_mem b = nd_broadcast x @ nd_dev_addr x @ be16 ETH_P_IP @ ip_bytes h @
      request_bytes (xid w) (serv_addr w) (my_ip w) (nd_dev_addr x) \<and>
    ih_version h = 4 \<and> ih_ihl h = 5 \<and> ih_protocol h = IPPROTO_UDP \<and> ih_tot_len h = 576 \<and>
    ih_src h = le32 0 \<and> ih_dst h = le32 0xFFFFFFFF \<and> chk (ip_bytes h) = 0 \<and> nb_pkt_len b = 590 \<and>
    opt_scan (dhcp_opt (nb_mem b)) (nb_mem b) 590 282 (INADDR_NONE, None) =
      Ok (serv_addr w, Some (if serv_addr w = INADDR_NONE then DHCP_DISCOVER else DHCP_REQUEST)) \<and>
    nb_tail b = nb_end b + 28"
proof -
  obtain p w1 where al: "net_buff_alloc 590 w = (p, w1)" by fastforce
  from al show ?thesis
  proof (cases rule: net_buff_alloc_cases)
    case (ok a ms j)
    from dhcp_request_handed[OF assms(1,5,6) al[unfolded ok(1)], of fuel] show ?thesis
    proof (elim exE conjE, goal_cases)
      case (1 b h)
      let ?w = "w1\<lparr>nbs := (nbs w1)(a \<mapsto> b)\<rparr>"
      have w: "tx_ready d c ?w" "hw ?w = hw w" using assms(3) ok(5) by (simp_all add: tx_ready_def)
      from netdev_list_xmit_one[OF assms(2) w(1), of a b fuel] assms(4) 1(2,3) obtain r w' where
        tx: "netdev_list_xmit P fuel (NB a) ?w = Ok (r, w')" "sent (hw w') = sent (hw ?w) @ [b]" by auto
      then show ?case using 1 w(2) by (intro exI[of _ w'] exI[of _ b] exI[of _ h]) simp
    qed
  qed (use assms(7) in simp)
qed

definition demo_dhcp_world :: "addr list \<Rightarrow> uint32_t \<Rightarrow> (addr \<Rightarrow> net_buff option) \<Rightarrow> demo_hw dhcp_world" where
  "demo_dhcp_world ms ip bs = sock_world.extend ((demo_sock_world ip bs)\<lparr>mallocs := ms\<rparr>)
     \<lparr>serv_addr = INADDR_NONE, xid = 0, got_reply = False, dhcp_msg_type = 0, rands = (\<lambda>i. of_nat (7 * i)), rand_pos = 0\<rparr>"

lemma demo_dhcp_world_sel [simp]:
  "nbs (demo_dhcp_world ms ip bs) = bs" "devs (demo_dhcp_world ms ip bs) = [1 \<mapsto> demo_dev]" "my_ip (demo_dhcp_world ms ip bs) = ip"
  "hw (demo_dhcp_world ms ip bs) = \<lparr>demo_on = True, demo_busy = True, demo_log = []\<rparr>"
  "mallocs (demo_dhcp_world ms ip bs) = ms" "curr_net_dev (demo_dhcp_world ms ip bs) = 1"
  "serv_addr (demo_dhcp_world ms ip bs) = INADDR_NONE" "xid (demo_dhcp_world ms ip bs) = 0"
  "\<not> got_reply (demo_dhcp_world ms ip bs)"
  by (simp_all add: demo_dhcp_world_def demo_sock_world_def demo_ip_world_def ip_world.defs sock_world.defs)

lemma demo_dhcp_world_ok [simp]:
  "eth_dev (Suc 0) (demo_dhcp_world ms ip bs) demo_dev" "tx_ready (Suc 0) (Suc 0) (demo_dhcp_world ms ip bs)"
  "alloc_ok (demo_dhcp_world [21, 22] ip Map.empty)"
  by (simp_all add: eth_dev_def tx_ready_def alloc_ok_def)

theorem dhcp_send_request_sends_witness:
  "\<exists>w' b. dhcp_send_request (demo_platform 1) 9 (demo_dhcp_world [21, 22] 0xFFFFFFFF Map.empty) = Ok w' \<and>
     demo_log (hw w') = [b] \<and> nb_pkt_len b = 590 \<and> nb_end b < nb_tail b"
proof -
  let ?w = "demo_dhcp_world [21, 22] 0xFFFFFFFF Map.empty"
  have w: "tx_ready 1 1 ?w" "2 * Suc 3 \<le> (9 :: nat)" "curr_net_dev ?w = 1" "eth_dev 1 ?w demo_dev" "alloc_ok ?w" by simp_all
  obtain w' b where "dhcp_send_request (demo_platform 1) 9 ?w = Ok w'" "demo_log (hw w') = demo_log (hw ?w) @ [b]"
    "nb_pkt_len b = 590" "nb_tail b = nb_end b + 28"
    using dhcp_send_request_sends[OF demo_swaps_ok demo_tx_driver[of 1 1 "QVAR 0"] w] by blast
  then show ?thesis by (intro exI[of _ w'] exI[of _ b]) simp
qed

end
