(* ===== verification/Dhcp_Reply.thy ===== *)
theory Dhcp_Reply
  imports Dhcp_Request
begin

text \<open>
  What \<open>dhcp_recv\<close> of \<open>net/ipconfig.c\<close> does with a packet: which ones it ignores, and the outcome of the
  others by their message type.
\<close>

section \<open>The fields of a message\<close>

record dhcp_msg =
  dm_ulen :: uint16_t
  dm_op :: uint8_t
  dm_xid :: uint32_t
  dm_yiaddr :: uint32_t
  dm_siaddr :: uint32_t
  dm_giaddr :: uint32_t
  dm_chaddr :: bytes

text \<open>The message with the IP header \<open>h\<close> in the bytes \<open>m\<close> from offset \<open>n\<close> on.\<close>

definition dhcp_at :: "bytes \<Rightarrow> nat \<Rightarrow> ip_hdr \<Rightarrow> dhcp_msg \<Rightarrow> bool" where
  "dhcp_at m n h d \<longleftrightarrow> ip_ok h \<and> n + 264 \<le> length m \<and> bslice n 20 m = ip_bytes h \<and>
     bslice (n + 24) 2 m = be16 (dm_ulen d) \<and> bslice (n + 28) 1 m = [dm_op d] \<and> bslice (n + 32) 4 m = le32 (dm_xid d) \<and>
     bslice (n + 44) 4 m = le32 (dm_yiaddr d) \<and> bslice (n + 48) 4 m = le32 (dm_siaddr d) \<and>
     bslice (n + 52) 4 m = le32 (dm_giaddr d) \<and> bslice (n + 56) 6 m = dm_chaddr d"

text \<open>The length test as the code makes it, on the bytes of the length in the wrong order.\<close>

definition dhcp_opt_len :: "dhcp_msg \<Rightarrow> int" where
  "dhcp_opt_len d = sint (swap16 (dm_ulen d) - 244)"

definition dhcp_ours :: "net_buff \<Rightarrow> ip_hdr \<Rightarrow> dhcp_msg \<Rightarrow> ('h, 'w) dhcp_world_scheme \<Rightarrow> bool" where
  "dhcp_ours b h d w \<longleftrightarrow> nb_net_dev b = curr_net_dev w \<and> unat (nb_pkt_type b) \<noteq> PKT_OTHERHOST \<and> ih_ihl h = 5 \<and> ih_version h = 4 \<and>
     ih_protocol h = IPPROTO_UDP \<and> ih_frag_off h AND (IP_MF OR IP_OFFSET) = 0 \<and> chk (ip_bytes h) = 0 \<and> 0 \<le> dhcp_opt_len d \<and>
     \<not> got_reply w \<and> dm_op d = BOOTP_REPLY \<and> dm_xid d = xid w"

lemma swap16_and: "swap16 x AND swap16 y = swap16 (x AND y)"
  by (rule bit_word_eqI) (auto simp: swap16_def bit_mk16 bit_byte_of bit_simps)

lemma swap16_zero_iff: "swap16 x = 0 \<longleftrightarrow> x = 0"
  using swap16_eq_iff[of x 0] swap16_0 by simp

lemma dhcp_out_freed: "nbs w a = Some b \<Longrightarrow> dhcp_out (NB a) w = Ok (NETDEV_RX_SUCCESS, freed a w)"
  by (simp add: dhcp_out_def free_net_buff_NB freed_def)

text \<open>The handler up to the parsing.\<close>

lemma dhcp_recv_filter:
  assumes P: "swaps_ok P" and b: "nbs w a = Some b" and d: "dhcp_at (nb_mem b) (unat (nb_network_hdr_offset b)) h d"
  shows "dhcp_recv P (NB a) w = (let n = unat (nb_network_hdr_offset b) in
    if dhcp_ours b h d w then
      bnd (if 4 \<le> dhcp_opt_len d then
             bnd (nb_rd (NB a) (n + dh_options) 4 w) (\<lambda>c.
             if c = dhcp_magic_cookie then dhcp_parse P (NB a) (nb_net_dev b) n w else Ok (True, w))
           else Ok (True, w)) (\<lambda>(go, w).
      if go then dhcp_take P (NB a) n w else dhcp_out (NB a) w)
    else Ok (NETDEV_RX_SUCCESS, freed a w))"
proof -
  define n where "n = unat (nb_network_hdr_offset b)"
  have h: "ip_ok h" and m: "n + 264 \<le> length (nb_mem b)" "bslice n 20 (nb_mem b) = ip_bytes h"
    "bslice (n + 24) 2 (nb_mem b) = be16 (dm_ulen d)" "bslice (n + 28) 1 (nb_mem b) = [dm_op d]"
    "bslice (n + 32) 4 (nb_mem b) = le32 (dm_xid d)"
    using d by (simp_all add: dhcp_at_def n_def)
  have fld: "bslice (n + k) l (nb_mem b) = bslice k l (ip_bytes h)" if "k + l \<le> 20" for k l
    using that by (simp add: m(2)[symmetric] bslice_bslice)
  have reads: "nb_rd (NB a) n 1 w = Ok [ver_ihl h]" "nb_rd (NB a) (n + 9) 1 w = Ok [ih_protocol h]"
    "nb_rd (NB a) (n + 6) 2 w = Ok (be16 (ih_frag_off h))" "nb_rd (NB a) (n + 24) 2 w = Ok (be16 (dm_ulen d))"
    "nb_rd (NB a) (n + 28) 1 w = Ok [dm_op d]" "nb_rd (NB a) (n + 32) 4 w = Ok (le32 (dm_xid d))"
    using m fld[of 0 "Suc 0"] fld[of 9 "Suc 0"] fld[of 6 2] by (simp_all add: nb_rd_NB[OF b(1)] ip_fields[OF h])
  have chk: "nb_checksum (NB a) n 20 w = Ok (chk (ip_bytes h))"
    using m(1,2) by (simp add: nb_checksum_def load_nb_NB[OF b(1)] in_checksum_eq_chk)
  have frag: "un16 (be16 (ih_frag_off h)) AND htons P (IP_MF OR IP_OFFSET) = 0 \<longleftrightarrow> ih_frag_off h AND (IP_MF OR IP_OFFSET) = 0"
    using P by (simp add: swap_simps swap16_and swap16_zero_iff)
  have len: "un16 (be16 (dm_ulen d)) - of_nat UDP_HDR_SIZE - of_nat (dh_options - 20 - UDP_HDR_SIZE) = swap16 (dm_ulen d) - 244"
    by (simp add: UDP_HDR_SIZE_def)
  note out = dhcp_out_freed[OF b]
  show ?thesis
    unfolding dhcp_recv_def load_nb_NB[OF b] bnd.simps Let_def n_def[symmetric] reads out len dhcp_opt_len_def[symmetric]
    using frag chk by (auto simp: dhcp_ours_def dhcp_opt_len_def chk[simplified])
qed

section \<open>Taking the addresses over\<close>

definition taken :: "dhcp_msg \<Rightarrow> ('h, 'w) dhcp_world_scheme \<Rightarrow> ('h, 'w) dhcp_world_scheme" where
  "taken d w = w\<lparr>my_ip := dm_yiaddr d, serv_addr := (if serv_addr w = INADDR_NONE then dm_siaddr d else serv_addr w),
     gateway := (if gateway w = INADDR_NONE \<and> dm_giaddr d \<noteq> 0 then dm_giaddr d else gateway w), got_reply := True\<rparr>"

lemma none_same: "swaps_ok P \<Longrightarrow> htonl P INADDR_NONE = INADDR_NONE"
proof -
  have "swap32 INADDR_NONE = INADDR_NONE" by code_simp
  then show "swaps_ok P \<Longrightarrow> htonl P INADDR_NONE = INADDR_NONE" by (simp add: swap_simps)
qed

text \<open>The bytes that matter to the last part, which hold also after the server was written back.\<close>

lemma dhcp_take_freed:
  fixes w :: "('h, 'w) dhcp_world_scheme"
  assumes P: "swaps_ok P" and b: "nbs w a = Some b" "n + 264 \<le> length (nb_mem b)"
    and y: "bslice (n + 44) 4 (nb_mem b) = le32 (dm_yiaddr d)"
    and s: "serv_addr w = INADDR_NONE \<Longrightarrow> bslice (n + 48) 4 (nb_mem b) = le32 (dm_siaddr d)"
    and g: "bslice (n + 52) 4 (nb_mem b) = le32 (dm_giaddr d)"
  shows "dhcp_take P (NB a) n w = Ok (NETDEV_RX_SUCCESS, freed a (taken d w))"
proof -
  have out: "dhcp_out (NB a) w' = Ok (NETDEV_RX_SUCCESS, freed a w')" if "nbs w' = nbs w" for w' :: "('h, 'w) dhcp_world_scheme"
    using that b by (intro dhcp_out_freed[of _ _ b]) simp
  show ?thesis
    using b s by (auto simp: dhcp_take_def Let_def none_same[OF P] nb_rd_NB y g out taken_def freed_def)
qed

section \<open>Parsing the options\<close>

lemma bootp_effect_sel:
  fixes w :: "('h, 'w) dhcp_world_scheme"
  shows "nbs (opts_do bootp_effect os w) = nbs w" "serv_addr (opts_do bootp_effect os w) = serv_addr w"
    "opts_do bootp_effect os (w\<lparr>nbs := M\<rparr>) = (opts_do bootp_effect os w)\<lparr>nbs := M\<rparr>"
proof -
  have "nbs (opts_do bootp_effect os w) = nbs w \<and> serv_addr (opts_do bootp_effect os w) = serv_addr w \<and>
      opts_do bootp_effect os (w\<lparr>nbs := M\<rparr>) = (opts_do bootp_effect os w)\<lparr>nbs := M\<rparr>"
  proof (induction os arbitrary: w)
    case (Cons x os)
    have "nbs (bootp_effect c d w) = nbs w" "serv_addr (bootp_effect c d w) = serv_addr w"
      "bootp_effect c d (w\<lparr>nbs := M\<rparr>) = (bootp_effect c d w)\<lparr>nbs := M\<rparr>" for c d by simp_all
    then show ?case using Cons.IH by (cases x) (simp_all del: bootp_effect.simps)
  qed simp
  then show "nbs (opts_do bootp_effect os w) = nbs w" "serv_addr (opts_do bootp_effect os w) = serv_addr w"
    "opts_do bootp_effect os (w\<lparr>nbs := M\<rparr>) = (opts_do bootp_effect os w)\<lparr>nbs := M\<rparr>" by simp_all
qed

text \<open>The outcome by the options \<open>os\<close> of the message, for a device with the address \<open>mac\<close>.\<close>

definition reply_outcome :: "bytes \<Rightarrow> dhcp_msg \<Rightarrow> dhcp_option list \<Rightarrow> ('h, 'w) dhcp_world_scheme \<Rightarrow>
    ('h, 'w) dhcp_world_scheme res" where
  "reply_outcome mac d os w =
     (case opts_do dhcp_effect os (INADDR_NONE, None) of
        (srv_id, None) \<Rightarrow> Fault Uninit
      | (srv_id, Some t) \<Rightarrow> Ok
         (if t = DHCP_OFFER then
            if my_ip w \<noteq> INADDR_NONE then w
            else taken d (opts_do bootp_effect os (w\<lparr>my_ip := dm_yiaddr d, serv_addr := srv_id, dhcp_msg_type := t\<rparr>))
          else if t = DHCP_ACK then
            if mac \<noteq> dm_chaddr d then w
            else taken d (opts_do bootp_effect os (w\<lparr>dhcp_msg_type := t\<rparr>))
          else w\<lparr>my_ip := INADDR_NONE, serv_addr := INADDR_NONE\<rparr>))"

text \<open>The options of the message, behind the magic cookie and up to an end mark inside the packet.\<close>

definition opts_at :: "bytes \<Rightarrow> nat \<Rightarrow> ip_hdr \<Rightarrow> dhcp_option list \<Rightarrow> bool" where
  "opts_at m n h os \<longleftrightarrow> list_all opt_ok os \<and> list_all addr_opt_ok os \<and> 268 + length (encs os) < unat (ih_tot_len h) \<and>
     n + unat (ih_tot_len h) \<le> length m \<and> length m < 2 ^ 16 \<and>
     (\<exists>pre zs. m = pre @ dhcp_magic_cookie @ encs os @ DHCP_OPT_END # zs \<and> length pre = n + 264)"

lemma opts_at_scan:
  fixes w :: "('h, 'w) ip_world_scheme"
  assumes "opts_at m n h os"
  shows "opt_scan (dhcp_opt m) m (n + unat (ih_tot_len h)) (n + 264 + 4) s = Ok (opts_do dhcp_effect os s)"
    and "opt_scan (bootp_opt m) m (n + unat (ih_tot_len h)) (n + 264 + 4) w = Ok (opts_do bootp_effect os w)"
proof -
  obtain pre zs where m: "m = pre @ dhcp_magic_cookie @ encs os @ DHCP_OPT_END # zs" "length pre = n + 264"
    using assms by (auto simp: opts_at_def)
  let ?pre = "pre @ dhcp_magic_cookie"
  have l: "length ?pre = n + 264 + 4" using m(2) by (simp add: dhcp_magic_cookie_def)
  have "length ?pre + length (encs os) < n + unat (ih_tot_len h)" "m = ?pre @ encs os @ DHCP_OPT_END # zs"
    using assms l m(1) by (auto simp: opts_at_def)
  then show "opt_scan (dhcp_opt m) m (n + unat (ih_tot_len h)) (n + 264 + 4) s = Ok (opts_do dhcp_effect os s)"
    "opt_scan (bootp_opt m) m (n + unat (ih_tot_len h)) (n + 264 + 4) w = Ok (opts_do bootp_effect os w)"
    using assms l dhcp_scan[of os ?pre _ m zs s] bootp_scan[of os ?pre _ m zs w] unfolding opts_at_def by simp_all
qed

text \<open>The end of the packet lies in the buffer, so the pointer to it does not wrap around.\<close>

lemma opts_at_end:
  assumes "opts_at (nb_mem b) n h os"
  shows "(head_at w p b + (n + unat (ih_tot_len h))) mod 2 ^ 16 - head_at w p b = n + unat (ih_tot_len h)"
proof -
  have "head_at w p b + length (nb_mem b) < 2 ^ 16" using assms by (auto simp: opts_at_def head_at_def split: nbp.split)
  then have "head_at w p b + (n + unat (ih_tot_len h)) < 2 ^ 16" using assms by (simp add: opts_at_def)
  then show ?thesis by simp
qed

text \<open>Writing the server back does not touch the options.\<close>

lemma opts_at_upd:
  assumes "opts_at m n h os" "length bs = 4"
  shows "opts_at (upd (n + 48) bs m) n h os"
proof -
  obtain pre zs where m: "m = pre @ dhcp_magic_cookie @ encs os @ DHCP_OPT_END # zs" "length pre = n + 264"
    using assms by (auto simp: opts_at_def)
  have "upd (n + 48) bs m = upd (n + 48) bs pre @ dhcp_magic_cookie @ encs os @ DHCP_OPT_END # zs"
    using m assms(2) by (simp add: upd_def)
  moreover have "length (upd (n + 48) bs pre) = n + 264" using m(2) assms(2) by simp
  moreover have "length (upd (n + 48) bs m) = length m" using m assms(2) by simp
  ultimately show ?thesis using assms(1) unfolding opts_at_def by (metis (no_types, lifting))
qed

text \<open>An offer: the server address goes into the buffer when it differs from the one there, and the address is taken.\<close>

lemma dhcp_offer_outcome:
  fixes w :: "('h, 'w) dhcp_world_scheme" and srv :: uint32_t
  assumes P: "swaps_ok P" and b: "nbs w a = Some b" and d: "dhcp_at (nb_mem b) n h d" and o: "opts_at (nb_mem b) n h os"
  defines "w1 \<equiv> w\<lparr>my_ip := dm_yiaddr d, serv_addr := srv\<rparr>"
  shows "\<exists>w2 b2. (if serv_addr w1 \<noteq> INADDR_NONE then
        bnd (nb_rd (NB a) (n + dh_siaddr) 4 w1) (\<lambda>s.
        if serv_addr w1 \<noteq> un32 s then nb_wr (NB a) (n + dh_siaddr) (le32 (serv_addr w1)) w1 else Ok w1)
      else Ok w1) = Ok w2 \<and> nbs w2 a = Some b2 \<and> opts_at (nb_mem b2) n h os \<and>
    dhcp_take P (NB a) n (opts_do bootp_effect os (w2\<lparr>dhcp_msg_type := t\<rparr>)) =
      Ok (NETDEV_RX_SUCCESS, freed a (taken d (opts_do bootp_effect os (w1\<lparr>dhcp_msg_type := t\<rparr>))))"
proof -
  let ?m = "nb_mem b"
  have m: "n + 264 \<le> length ?m" "bslice (n + 44) 4 ?m = le32 (dm_yiaddr d)"
    "bslice (n + 48) 4 ?m = le32 (dm_siaddr d)" "bslice (n + 52) 4 ?m = le32 (dm_giaddr d)"
    using d by (simp_all add: dhcp_at_def)
  have b1: "nbs w1 a = Some b" "serv_addr w1 = srv" using b by (simp_all add: w1_def)
  define m' where "m' = (if srv \<noteq> INADDR_NONE \<and> srv \<noteq> dm_siaddr d then upd (n + 48) (le32 srv) ?m else ?m)"
  let ?w2 = "w1\<lparr>nbs := (nbs w)(a \<mapsto> b\<lparr>nb_mem := m'\<rparr>)\<rparr>" and ?v = "w1\<lparr>dhcp_msg_type := t\<rparr>"
  let ?w3 = "opts_do bootp_effect os (?w2\<lparr>dhcp_msg_type := t\<rparr>)"
  have nw: "nbs w1 = nbs w" by (simp add: w1_def)
  have st: "(if serv_addr w1 \<noteq> INADDR_NONE then
        bnd (nb_rd (NB a) (n + dh_siaddr) 4 w1) (\<lambda>s.
        if serv_addr w1 \<noteq> un32 s then nb_wr (NB a) (n + dh_siaddr) (le32 (serv_addr w1)) w1 else Ok w1)
      else Ok w1) = Ok ?w2"
    using m b by (simp add: b1(2) nb_rd_NB[OF b1(1)] nb_wr_NB[OF b1(1)] m'_def fun_upd_idem nw flip: nw)
  have m'48: "bslice (n + 44) 4 m' = le32 (dm_yiaddr d)" "bslice (n + 52) 4 m' = le32 (dm_giaddr d)" "n + 264 \<le> length m'"
    "srv = INADDR_NONE \<Longrightarrow> bslice (n + 48) 4 m' = le32 (dm_siaddr d)"
    using m by (simp_all add: m'_def bslice_upd_before bslice_upd_after)
  have "dhcp_take P (NB a) n ?w3 = Ok (NETDEV_RX_SUCCESS, freed a (taken d ?w3))"
    by (rule dhcp_take_freed[OF P, of _ _ "b\<lparr>nb_mem := m'\<rparr>"]) (use m'48 b1(2) in \<open>simp_all add: bootp_effect_sel(1,2)\<close>)
  moreover have "?w2\<lparr>dhcp_msg_type := t\<rparr> = ?v\<lparr>nbs := (nbs w)(a \<mapsto> b\<lparr>nb_mem := m'\<rparr>)\<rparr>" by (cases w1) simp
  then have "?w3 = (opts_do bootp_effect os ?v)\<lparr>nbs := (nbs w)(a \<mapsto> b\<lparr>nb_mem := m'\<rparr>)\<rparr>" by (simp only: bootp_effect_sel(3))
  then have "freed a (taken d ?w3) = freed a (taken d (opts_do bootp_effect os ?v))"
    using bootp_effect_sel(1)[of os ?v] nw by (simp add: freed_def taken_def)
  moreover have "opts_at m' n h os" unfolding m'_def using o by (simp add: opts_at_upd)
  ultimately show ?thesis using st by (intro exI[of _ ?w2] exI[of _ "b\<lparr>nb_mem := m'\<rparr>"]) simp
qed

lemma dhcp_at_reads:
  assumes P: "swaps_ok P" and b: "nbs w a = Some b" and d: "dhcp_at (nb_mem b) n h d"
  shows "nb_rd (NB a) (n + iph_tot_len) 2 w = Ok (be16 (ih_tot_len h))" "htons P (un16 (be16 (ih_tot_len h))) = ih_tot_len h"
    "nb_rd (NB a) (n + dh_yiaddr) 4 w = Ok (le32 (dm_yiaddr d))" "nb_rd (NB a) (n + dh_chaddr) ETH_MAC_LEN w = Ok (dm_chaddr d)"
proof -
  have h: "ip_ok h" and m: "n + 264 \<le> length (nb_mem b)" "bslice n 20 (nb_mem b) = ip_bytes h" using d by (simp_all add: dhcp_at_def)
  have "bslice (n + 2) 2 (nb_mem b) = be16 (ih_tot_len h)"
    using ip_fields(2)[OF h] by (simp add: m(2)[symmetric] bslice_bslice)
  then show "nb_rd (NB a) (n + iph_tot_len) 2 w = Ok (be16 (ih_tot_len h))" using m(1) by (simp add: nb_rd_NB[OF b])
  show "htons P (un16 (be16 (ih_tot_len h))) = ih_tot_len h" using P by (simp add: swap_simps)
qed (use d in \<open>simp_all add: dhcp_at_def nb_rd_NB[OF b] ETH_MAC_LEN_def\<close>)

lemma dhcp_parse_outcome:
  fixes w :: "('h, 'w) dhcp_world_scheme"
  assumes P: "swaps_ok P" and b: "nbs w a = Some b" and d: "dhcp_at (nb_mem b) n h d" and o: "opts_at (nb_mem b) n h os"
    and x: "load_dev w dev = Ok x" "length (nd_dev_addr x) = 6"
  shows "bnd (dhcp_parse P (NB a) dev n w) (\<lambda>(go, w). if go then dhcp_take P (NB a) n w else dhcp_out (NB a) w) =
    bnd (reply_outcome (nd_dev_addr x) d os w) (\<lambda>w. Ok (NETDEV_RX_SUCCESS, freed a w))"
proof -
  note rd = dhcp_at_reads[OF P b d]
  obtain srv mt where e: "opts_do dhcp_effect os (INADDR_NONE, None) = (srv, mt)" by fastforce
  note head = dhcp_parse_def rd(1) bnd.simps rd(2) none_same[OF P] Let_def load_nb_NB[OF b] opts_at_end[OF o] opts_at_scan(1)[OF o] e prod.case
    reply_outcome_def
  have out: "dhcp_out (NB a) w' = Ok (NETDEV_RX_SUCCESS, freed a w')" if "nbs w' = nbs w" for w' :: "('h, 'w) dhcp_world_scheme"
    using that b by (intro dhcp_out_freed[of _ _ b]) simp
  show ?thesis
  proof (cases mt)
    case None
    then show ?thesis unfolding head by simp
  next
    case (Some t)
    consider "t = DHCP_OFFER" "my_ip w \<noteq> INADDR_NONE" | "t = DHCP_OFFER" "my_ip w = INADDR_NONE"
      | "t = DHCP_ACK" | "t \<noteq> DHCP_OFFER" "t \<noteq> DHCP_ACK" by blast
    then show ?thesis
    proof cases
      case 1
      then show ?thesis unfolding head Some by (simp add: out)
    next
      case 2
      let ?w1 = "w\<lparr>my_ip := dm_yiaddr d, serv_addr := srv\<rparr>"
      obtain w2 b2 where w2: "(if serv_addr ?w1 \<noteq> INADDR_NONE then
          bnd (nb_rd (NB a) (n + dh_siaddr) 4 ?w1) (\<lambda>s.
          if serv_addr ?w1 \<noteq> un32 s then nb_wr (NB a) (n + dh_siaddr) (le32 (serv_addr ?w1)) ?w1 else Ok ?w1)
        else Ok ?w1) = Ok w2"
        "nbs w2 a = Some b2" "opts_at (nb_mem b2) n h os" "dhcp_take P (NB a) n (opts_do bootp_effect os (w2\<lparr>dhcp_msg_type := t\<rparr>)) =
          Ok (NETDEV_RX_SUCCESS, freed a (taken d (opts_do bootp_effect os (?w1\<lparr>dhcp_msg_type := t\<rparr>))))"
        using dhcp_offer_outcome[OF P b d o, of srv t] by blast
      with rd(3) show ?thesis using 2(1,2)
        unfolding head Some option.case by (simp only: un32_le32 bnd.simps w2(1)) (simp add: load_nb_NB[OF w2(2)] opts_at_scan(2)[OF w2(3), simplified])
    next
      case 3
      have ne: "DHCP_ACK \<noteq> DHCP_OFFER" by (simp add: DHCP_ACK_def DHCP_OFFER_def)
      have "rd 0 ETH_MAC_LEN (nd_dev_addr x) = Ok (nd_dev_addr x)" using x(2) by (simp add: ETH_MAC_LEN_def bslice_all)
      moreover have "dhcp_take P (NB a) n (opts_do bootp_effect os (w\<lparr>dhcp_msg_type := t\<rparr>)) =
          Ok (NETDEV_RX_SUCCESS, freed a (taken d (opts_do bootp_effect os (w\<lparr>dhcp_msg_type := t\<rparr>))))"
        by (rule dhcp_take_freed[OF P, of _ _ b]) (use d b in \<open>simp_all add: bootp_effect_sel(1,2) dhcp_at_def\<close>)
      ultimately show ?thesis using 3 ne x(1) rd(4)
        unfolding head Some by (simp add: out load_nb_NB[OF b] opts_at_scan(2)[OF o, simplified])
    next
      case 4
      then show ?thesis unfolding head Some by (simp add: out)
    qed
  qed
qed

lemma sint16_nonneg: "0 \<le> sint x \<longleftrightarrow> unat x < 32768" for x :: uint16_t
proof -
  have m: "uint x = sint x mod 65536" using uint_sint[of x] by (simp add: take_bit_eq_mod)
  have b: "sint x < 32768" "- 32768 \<le> sint x" using sint_lt[of x] sint_ge[of x] by simp_all
  have u: "unat x < 32768 \<longleftrightarrow> uint x < 32768" unfolding uint_nat[of x] by linarith
  show ?thesis
  proof (cases "0 \<le> sint x")
    case True
    then have "sint x mod 65536 = sint x" using b by (intro mod_pos_pos_trivial) simp_all
    with True b m u show ?thesis by linarith
  next
    case False
    then have "(sint x + 65536) mod 65536 = sint x + 65536" using b by (intro mod_pos_pos_trivial) simp_all
    then have "sint x mod 65536 = sint x + 65536" by simp
    with False b m u show ?thesis by linarith
  qed
qed

text \<open>The length test on a length that is not converted.\<close>

lemma dhcp_len_test:
  assumes "unat (dm_ulen d) < 62464"
  shows "0 \<le> dhcp_opt_len d \<longleftrightarrow> 1 \<le> unat (dm_ulen d) mod 256 \<and> unat (dm_ulen d) mod 256 \<le> 128"
proof -
  let ?l = "unat (byte_of 0 (dm_ulen d))" and ?h = "unat (byte_of 1 (dm_ulen d))"
  have u: "unat (dm_ulen d) = ?l + 256 * ?h" "?l < 256" "?h < 256" using unat_bytes[of "dm_ulen d"] by simp_all
  have h: "?h < 244" using assms u by linarith
  have s: "unat (swap16 (dm_ulen d)) = ?h + 256 * ?l" by (simp add: swap16_def unat_mk16)
  have v: "unat (swap16 (dm_ulen d) - 244) = (if 244 \<le> ?h + 256 * ?l then ?h + 256 * ?l - 244 else ?h + 256 * ?l + 65292)"
    using unat_sub_if_size[of "swap16 (dm_ulen d)" 244] s h by (simp add: word_size)
  have "(dm_ulen_mod :: nat) = ?l" if "dm_ulen_mod = unat (dm_ulen d) mod 256" for dm_ulen_mod using that u by simp
  then have "unat (dm_ulen d) mod 256 = ?l" by blast
  then show ?thesis
    unfolding dhcp_opt_len_def sint16_nonneg v using h u(2) by (cases "?l = 0") auto
qed

lemma dhcp_len_gap:
  assumes "unat (dm_ulen d) < 62464"
  shows "dhcp_opt_len d \<notin> {0..<4}"
proof
  assume gap: "dhcp_opt_len d \<in> {0..<4}"
  let ?x = "swap16 (dm_ulen d) - 244" and ?l = "unat (byte_of 0 (dm_ulen d))" and ?h = "unat (byte_of 1 (dm_ulen d))"
  have u: "unat (dm_ulen d) = ?l + 256 * ?h" "?l < 256" "?h < 256" using unat_bytes[of "dm_ulen d"] by simp_all
  have h: "?h < 244" using assms u by linarith
  have s: "unat (swap16 (dm_ulen d)) = ?h + 256 * ?l" by (simp add: swap16_def unat_mk16)
  have v: "unat ?x = (if 244 \<le> ?h + 256 * ?l then ?h + 256 * ?l - 244 else ?h + 256 * ?l + 65292)"
    using unat_sub_if_size[of "swap16 (dm_ulen d)" 244] s h by (simp add: word_size)
  have "uint ?x = sint ?x mod 65536" using uint_sint[of ?x] by (simp add: take_bit_eq_mod)
  then have "uint ?x < 4" using gap by (simp add: dhcp_opt_len_def)
  then have "unat ?x < 4" unfolding uint_nat by linarith
  then show False unfolding v using h by (cases "?l = 0") (simp_all split: if_splits)
qed

text \<open>The handler on a message with options.\<close>

lemma dhcp_recv_plain:
  fixes w :: "('h, 'w) dhcp_world_scheme"
  assumes P: "swaps_ok P" and b: "nbs w a = Some b" and n: "n = unat (nb_network_hdr_offset b)" and d: "dhcp_at (nb_mem b) n h d"
    and ours: "dhcp_ours b h d w"
    and no: "dhcp_opt_len d < 4 \<or> n + 268 \<le> length (nb_mem b) \<and> bslice (n + 264) 4 (nb_mem b) \<noteq> dhcp_magic_cookie"
  shows "dhcp_recv P (NB a) w = Ok (NETDEV_RX_SUCCESS, freed a (taken d w))"
proof -
  have m: "n + 264 \<le> length (nb_mem b)" "bslice (n + 44) 4 (nb_mem b) = le32 (dm_yiaddr d)"
    "bslice (n + 48) 4 (nb_mem b) = le32 (dm_siaddr d)" "bslice (n + 52) 4 (nb_mem b) = le32 (dm_giaddr d)"
    using d by (simp_all add: dhcp_at_def)
  have "dhcp_take P (NB a) n w = Ok (NETDEV_RX_SUCCESS, freed a (taken d w))"
    by (rule dhcp_take_freed[OF P b m(1,2) m(3) m(4)])
  moreover have "nb_rd (NB a) (n + dh_options) 4 w = Ok (bslice (n + 264) 4 (nb_mem b))" if "\<not> dhcp_opt_len d < 4"
    using no that by (simp add: nb_rd_NB[OF b])
  ultimately show ?thesis
    using dhcp_recv_filter[OF P b d[unfolded n]] ours no unfolding n[symmetric] by (auto simp: Let_def)
qed

lemma dhcp_recv_opts:
  fixes w :: "('h, 'w) dhcp_world_scheme"
  assumes "swaps_ok P" "nbs w a = Some b" "n = unat (nb_network_hdr_offset b)" "dhcp_at (nb_mem b) n h d"
    and "opts_at (nb_mem b) n h os" "dhcp_opt_len d \<notin> {0..<4}"
    and "load_dev w (nb_net_dev b) = Ok x" "length (nd_dev_addr x) = 6"
  shows "dhcp_recv P (NB a) w =
    (if dhcp_ours b h d w then bnd (reply_outcome (nd_dev_addr x) d os w) (\<lambda>w. Ok (NETDEV_RX_SUCCESS, freed a w))
     else Ok (NETDEV_RX_SUCCESS, freed a w))"
proof -
  have "4 \<le> dhcp_opt_len d" if "dhcp_ours b h d w" using that assms(6) by (auto simp: dhcp_ours_def)
  moreover have "nb_rd (NB a) (n + dh_options) 4 w = Ok dhcp_magic_cookie"
  proof -
    obtain pre zs where m: "nb_mem b = pre @ dhcp_magic_cookie @ zs" "length pre = n + 264"
      using assms(5) by (auto simp: opts_at_def)
    have c: "length dhcp_magic_cookie = 4" by (simp add: dhcp_magic_cookie_def)
    then have "bslice (n + 264) 4 (nb_mem b) = dhcp_magic_cookie" using m by (simp add: bslice_def)
    then show ?thesis using m c by (simp add: nb_rd_NB[OF assms(2)])
  qed
  ultimately show ?thesis
    using dhcp_parse_outcome[OF assms(1,2,4,5,7,8)] dhcp_recv_filter[OF assms(1,2) assms(4)[unfolded assms(3)]]
    unfolding assms(3)[symmetric] by (simp add: Let_def)
qed

lemma opts_do_hom: "(\<And>c d s. g (f c d s) = f' c d (g s)) \<Longrightarrow> g (opts_do f os s) = opts_do f' os (g s)"
  by (induction f os s rule: opts_do.induct) simp_all

text \<open>What the handler of replies leaves alone.\<close>

definition still :: "('h, 'w) dhcp_world_scheme \<Rightarrow> (addr \<Rightarrow> net_buff option) \<times> (qref \<Rightarrow> nb_queue option) \<times>
    (addr \<Rightarrow> net_dev option) \<times> 'h \<times> addr list \<times> addr \<times> recv_pkt_hdlr_ops" where
  "still w = (nbs w, queues w, devs w, hw w, mallocs w, curr_net_dev w, recv_ops w)"

lemma opts_do_id: "opts_do (\<lambda>_ _ s. s) os s = s"
proof (induction os)
  case (Cons x os)
  then show ?case by (cases x) simp_all
qed simp

lemma still_bootp:
  fixes w :: "('h, 'w) dhcp_world_scheme"
  shows "still (opts_do bootp_effect os w) = still w"
proof -
  have "still (bootp_effect c d w) = still w" for c d and w :: "('h, 'w) dhcp_world_scheme" by (simp add: still_def)
  then have "still (opts_do bootp_effect os w) = opts_do (\<lambda>_ _ s. s) os (still w)" by (rule opts_do_hom)
  then show ?thesis by (simp add: opts_do_id)
qed

lemma still_reply:
  fixes w :: "('h, 'w) dhcp_world_scheme"
  assumes "reply_outcome mac d os w = Ok w1"
  shows "still w1 = still w"
proof -
  have t: "still (taken d v) = still v" and b: "still (opts_do bootp_effect os v) = still v"
    and u: "still (v\<lparr>my_ip := a, serv_addr := s\<rparr>) = still v" "still (v\<lparr>dhcp_msg_type := m\<rparr>) = still v"
      "still (v\<lparr>my_ip := a, serv_addr := s, dhcp_msg_type := m\<rparr>) = still v"
    for v :: "('h, 'w) dhcp_world_scheme" and a s m
    using still_bootp[of os v] by (simp_all add: still_def taken_def)
  show ?thesis using assms
    by (auto simp: reply_outcome_def t b u split: prod.splits option.splits if_splits)
qed

section \<open>Properties\<close>

text \<open>C15: what \<open>dhcp_recv\<close> does with a packet that holds the headers of a DHCP message.  It takes the packet only if
  it came in on the current device, is not for another host, has a correct IP header without options or fragments,
  carries UDP, passes the length test of the code (\<open>dhcp_opt_len\<close>: on the UDP length with its bytes swapped), is a BOOTP
  reply to the current transaction, and no reply is pending; otherwise it frees it and changes nothing.  A packet that
  is taken and has no options gives the host its addresses.  One with options (well formed, with an end mark inside
  the packet) is acted on by its message type: on an offer, when no address is set yet, and on an acknowledgement for
  its hardware address the host takes over the addresses of the message and of its options; on any other type it
  forgets address and server; without a type the code branches on an uninitialised variable.\<close>

theorem dhcp_recv_outcome:
  fixes w :: "('h, 'w) dhcp_world_scheme"
  assumes "swaps_ok P" "nbs w a = Some b" "n = unat (nb_network_hdr_offset b)" "dhcp_at (nb_mem b) n h d"
  shows "if \<not> dhcp_ours b h d w then dhcp_recv P (NB a) w = Ok (NETDEV_RX_SUCCESS, freed a w)
    else (dhcp_opt_len d < 4 \<or> n + 268 \<le> length (nb_mem b) \<and> bslice (n + 264) 4 (nb_mem b) \<noteq> dhcp_magic_cookie \<longrightarrow>
        dhcp_recv P (NB a) w = Ok (NETDEV_RX_SUCCESS, freed a (taken d w))) \<and>
      (\<forall>os x. opts_at (nb_mem b) n h os \<longrightarrow> 4 \<le> dhcp_opt_len d \<longrightarrow> load_dev w (nb_net_dev b) = Ok x \<longrightarrow> length (nd_dev_addr x) = 6 \<longrightarrow>
        dhcp_recv P (NB a) w = bnd (reply_outcome (nd_dev_addr x) d os w) (\<lambda>w. Ok (NETDEV_RX_SUCCESS, freed a w)))"
proof (cases "dhcp_ours b h d w")
  case True
  then show ?thesis
    using dhcp_recv_plain[OF assms True] dhcp_recv_opts[OF assms] by auto
next
  case False
  then show ?thesis using dhcp_recv_filter[OF assms(1,2) assms(4)[unfolded assms(3)]] by (simp add: Let_def)
qed

text \<open>A reply, as it lies in a buffer.\<close>

definition reply_bytes :: "dhcp_msg \<Rightarrow> dhcp_option list \<Rightarrow> bytes" where
  "reply_bytes d os = be16 67 @ be16 68 @ be16 (dm_ulen d) @ [0, 0] @ [dm_op d, 1, 6, 0] @ le32 (dm_xid d) @ replicate 8 0 @
     le32 (dm_yiaddr d) @ le32 (dm_siaddr d) @ le32 (dm_giaddr d) @ dm_chaddr d @ replicate 202 0 @
     dhcp_magic_cookie @ encs os @ [DHCP_OPT_END]"

definition demo_reply_nb :: "dhcp_msg \<Rightarrow> dhcp_option list \<Rightarrow> net_buff" where
  "demo_reply_nb d os = demo_ip_nb (ip_out IPPROTO_UDP (of_nat (269 + length (encs os))) [10, 0, 0, 9] [10, 0, 0, 2]) (reply_bytes d os)"

lemma demo_reply_mem: "nb_mem (demo_reply_nb d os) = eth_bytes [2, 0, 0, 0, 0, 1] [2, 0, 0, 0, 0, 9] ETH_P_IP @
    ip_bytes (ip_out IPPROTO_UDP (of_nat (269 + length (encs os))) [10, 0, 0, 9] [10, 0, 0, 2]) @ reply_bytes d os"
  by (simp add: demo_reply_nb_def demo_ip_nb_def)

lemma demo_reply_at:
  assumes "length (dm_chaddr d) = 6" "list_all opt_ok os" "list_all addr_opt_ok os" "length (encs os) < 1000"
  defines "h \<equiv> ip_out IPPROTO_UDP (of_nat (269 + length (encs os))) [10, 0, 0, 9] [10, 0, 0, 2]"
  shows "dhcp_at (nb_mem (demo_reply_nb d os)) 14 h d" "opts_at (nb_mem (demo_reply_nb d os)) 14 h os"
proof -
  have l: "length dhcp_magic_cookie = 4" "length (ip_bytes h) = 20" by (simp_all add: dhcp_magic_cookie_def h_def)
  show "dhcp_at (nb_mem (demo_reply_nb d os)) 14 h d"
    using assms(1) l unfolding dhcp_at_def demo_reply_mem h_def[symmetric]
    by (simp add: bslice_def reply_bytes_def) (simp add: h_def)
  have "unat (ih_tot_len h) = 269 + length (encs os)" using assms(4) by (simp add: h_def unat_of_nat16 flip: of_nat_add)
  moreover have "\<exists>pre zs. nb_mem (demo_reply_nb d os) = pre @ dhcp_magic_cookie @ encs os @ DHCP_OPT_END # zs \<and> length pre = 14 + 264"
    using assms(1) l(2) unfolding demo_reply_mem h_def[symmetric] reply_bytes_def
    by (intro exI[of _ "eth_bytes [2, 0, 0, 0, 0, 1] [2, 0, 0, 0, 0, 9] ETH_P_IP @ ip_bytes h @ be16 67 @ be16 68 @ be16 (dm_ulen d) @ [0, 0] @
      [dm_op d, 1, 6, 0] @ le32 (dm_xid d) @ replicate 8 0 @ le32 (dm_yiaddr d) @ le32 (dm_siaddr d) @ le32 (dm_giaddr d) @
      dm_chaddr d @ replicate 202 0"] exI[of _ "[]"]) simp
  moreover have "length (nb_mem (demo_reply_nb d os)) = 283 + length (encs os)"
    using assms(1) l by (simp add: demo_reply_mem reply_bytes_def)
  ultimately show "opts_at (nb_mem (demo_reply_nb d os)) 14 h os" using assms(2-4) by (simp add: opts_at_def)
qed

definition demo_offer :: dhcp_msg where
  "demo_offer = \<lparr>dm_ulen = 270, dm_op = 2, dm_xid = 0, dm_yiaddr = 0x0500000A, dm_siaddr = 0, dm_giaddr = 0,
     dm_chaddr = [2, 0, 0, 0, 0, 1]\<rparr>"

theorem dhcp_recv_outcome_witness:
  "\<exists>w'. dhcp_recv avr_swaps (NB 5) (demo_dhcp_world [] INADDR_NONE
      [5 \<mapsto> demo_reply_nb demo_offer [Opt 53 [2], Opt 54 [10, 0, 0, 9], Opt 1 [255, 255, 255, 0]]]) = Ok (NETDEV_RX_SUCCESS, w') \<and>
    my_ip w' = 0x0500000A \<and> serv_addr w' = un32 [10, 0, 0, 9] \<and> net_mask w' = un32 [255, 255, 255, 0] \<and> got_reply w' \<and>
    dhcp_msg_type w' = 2"
proof -
  let ?os = "[Opt 53 [2], Opt 54 [10, 0, 0, 9], Opt 1 [255, 255, 255, 0]]"
  let ?b = "demo_reply_nb demo_offer ?os" and ?h = "ip_out IPPROTO_UDP (of_nat (269 + length (encs ?os))) [10, 0, 0, 9] [10, 0, 0, 2]"
  let ?w = "demo_dhcp_world [] INADDR_NONE [5 \<mapsto> ?b]"
  have at: "dhcp_at (nb_mem ?b) 14 ?h demo_offer" "opts_at (nb_mem ?b) 14 ?h ?os"
    by (rule demo_reply_at; simp add: demo_offer_def dhcp_consts)+
  have b: "nb_net_dev ?b = 1" "nb_pkt_type ?b = 0" "nb_network_hdr_offset ?b = 14"
    by (simp_all add: demo_reply_nb_def demo_ip_nb_def)
  have l: "dhcp_opt_len demo_offer = 3341" by code_simp
  have f: "IP_DF AND (IP_MF OR IP_OFFSET) = 0" by code_simp
  have x: "load_dev ?w (nb_net_dev ?b) = Ok demo_dev" using b by (simp add: load_dev_def)
  have ours: "dhcp_ours ?b ?h demo_offer ?w"
    using b l f by (simp add: dhcp_ours_def PKT_OTHERHOST_def) (simp add: demo_offer_def BOOTP_REPLY_def)
  have r: "reply_outcome mac demo_offer ?os ?w = Ok (taken demo_offer (?w\<lparr>my_ip := 0x0500000A, serv_addr := un32 [10, 0, 0, 9],
      dhcp_msg_type := 2, net_mask := un32 [255, 255, 255, 0]\<rparr>))" for mac
    by (simp add: reply_outcome_def dhcp_consts demo_offer_def)
  have "un32 [10, 0, 0, 9] \<noteq> INADDR_NONE" by code_simp
  then show ?thesis
    using dhcp_recv_outcome[OF swaps_ok_avr _ _ at(1), where w = ?w and a = 5] at(2) x b l ours r by (fastforce simp: taken_def demo_offer_def freed_def)
qed

text \<open>Since the handler reads the UDP length without converting it, it ignores every reply whose length
  modulo 256 is 0 or greater than 128, however well formed it is otherwise.\<close>

theorem dhcp_recv_length:
  fixes w :: "('h, 'w) dhcp_world_scheme"
  assumes "swaps_ok P" "nbs w a = Some b" "dhcp_at (nb_mem b) (unat (nb_network_hdr_offset b)) h d"
    and "unat (dm_ulen d) < 62464" "unat (dm_ulen d) mod 256 = 0 \<or> 128 < unat (dm_ulen d) mod 256"
  shows "dhcp_recv P (NB a) w = Ok (NETDEV_RX_SUCCESS, freed a w)"
proof -
  have "\<not> 0 \<le> dhcp_opt_len d" unfolding dhcp_len_test[OF assms(4)] using assms(5) by auto
  then have "\<not> dhcp_ours b h d w" by (simp add: dhcp_ours_def)
  then show ?thesis using dhcp_recv_filter[OF assms(1-3)] by (simp add: Let_def)
qed

theorem dhcp_recv_length_witness:
  "dhcp_recv avr_swaps (NB 5) (demo_dhcp_world [] INADDR_NONE [5 \<mapsto> demo_reply_nb (demo_offer\<lparr>dm_ulen := 400\<rparr>) [Opt 53 [2]]]) =
    Ok (NETDEV_RX_SUCCESS, freed 5 (demo_dhcp_world [] INADDR_NONE [5 \<mapsto> demo_reply_nb (demo_offer\<lparr>dm_ulen := 400\<rparr>) [Opt 53 [2]]]))"
proof -
  let ?b = "demo_reply_nb (demo_offer\<lparr>dm_ulen := 400\<rparr>) [Opt 53 [2]]"
  have "dhcp_at (nb_mem ?b) 14 (ip_out IPPROTO_UDP (of_nat (269 + length (encs [Opt 53 [2]]))) [10, 0, 0, 9] [10, 0, 0, 2])
      (demo_offer\<lparr>dm_ulen := 400\<rparr>)"
    by (rule demo_reply_at; simp add: demo_offer_def dhcp_consts)
  then show ?thesis
    using dhcp_recv_length[OF swaps_ok_avr, of "demo_dhcp_world [] INADDR_NONE [5 \<mapsto> ?b]" 5 ?b]
    by (auto simp: demo_reply_nb_def demo_ip_nb_def)
qed

end
