(* ===== verification/Ipconfig.thy ===== *)
theory Ipconfig
  imports Dhcp_Reply
begin

text \<open>
  The configuration of the host (\<open>net/ipconfig.c\<close>): the DHCP exchange with its retries and time-outs, and
  the set-up of address and mask.  Busy waiting polls a flag that the interrupt handlers of the platform
  set.  In \<open>dhcp\<close>, once its handler is registered, they run between any two steps that use the variables that they share with it
  (\<open>got_reply\<close>, \<open>dhcp_msg_type\<close>, the addresses and the table of handlers); the building of a request is one such step.  \<open>F_CPU\<close>, the clock frequency given to the compiler, is the argument
  \<open>f_cpu\<close>; \<open>xfuel\<close> bounds the polls of a transmission, \<open>fuel\<close> the rounds of the endless loops.
\<close>

section \<open>The code\<close>

text \<open>\<open>while (t_out && !got_reply) t_out--;\<close>\<close>

fun dhcp_wait :: "('h, 'w) dhcp_world_scheme platform \<Rightarrow> nat \<Rightarrow> ('h, 'w) dhcp_world_scheme \<Rightarrow>
    ('h, 'w) dhcp_world_scheme" where
  "dhcp_wait P 0 w = w"
| "dhcp_wait P (Suc t_out) w = (if got_reply w then w else dhcp_wait P t_out (isr P w))"

text \<open>The loop of attempts.  Each \<open>isr P\<close> is what the interrupts do between two steps.\<close>

fun dhcp_loop :: "('h, 'w) dhcp_world_scheme platform \<Rightarrow> nat \<Rightarrow> nat \<Rightarrow> nat \<Rightarrow> int8_t \<Rightarrow> ('h, 'w) dhcp_world_scheme \<Rightarrow>
    ('h, 'w) dhcp_world_scheme res" where
  "dhcp_loop P f_cpu xfuel 0 retries w = Fault Out_of_fuel"
| "dhcp_loop P f_cpu xfuel (Suc fuel) retries w =
     bnd (dhcp_send_request P xfuel (isr P w)) (\<lambda>w.
     let w = isr P (dhcp_wait P (f_cpu div 4) w) in
     if got_reply w then
       let w = isr P w in
       if dhcp_msg_type w = DHCP_ACK then Ok w
       else dhcp_loop P f_cpu xfuel fuel retries ((isr P w)\<lparr>got_reply := False\<rparr>)
     else
       let retries = retries - 1 in
       if retries = 0 then Ok w else dhcp_loop P f_cpu xfuel fuel retries (xid_gen (isr P w)))"

definition dhcp :: "('h, 'w) dhcp_world_scheme platform \<Rightarrow> nat \<Rightarrow> nat \<Rightarrow> nat \<Rightarrow> ('h, 'w) dhcp_world_scheme \<Rightarrow>
    (int8_t \<times> ('h, 'w) dhcp_world_scheme) res" where
  "dhcp P f_cpu xfuel fuel w =
     (let w = pkt_hdlr_add ETH_P_IP (Some H_dhcp_recv) (xid_gen w) in
      bnd (dhcp_loop P f_cpu xfuel fuel 6 w) (\<lambda>w.
      let w = isr P (pkt_hdlr_del ETH_P_IP (isr P w)) in
      if \<not> got_reply w then Ok (- 1, w\<lparr>my_ip := htonl P INADDR_NONE\<rparr>) else Ok (0, w)))"

text \<open>\<open>while (!net_dev_link_is_up(curr_net_dev))\<close>, with a delay in each round.\<close>

fun wait_link :: "('h, 'w) dhcp_world_scheme platform \<Rightarrow> nat \<Rightarrow> ('h, 'w) dhcp_world_scheme \<Rightarrow>
    ('h, 'w) dhcp_world_scheme res" where
  "wait_link P 0 w = Fault Out_of_fuel"
| "wait_link P (Suc fuel) w =
     bnd (net_dev_link_is_up w (curr_net_dev w)) (\<lambda>up. if up then Ok w else wait_link P fuel (isr P w))"

definition ip_auto_config :: "('h, 'w) dhcp_world_scheme platform \<Rightarrow> nat \<Rightarrow> nat \<Rightarrow> nat \<Rightarrow> ('h, 'w) dhcp_world_scheme \<Rightarrow>
    (int8_t \<times> ('h, 'w) dhcp_world_scheme) res" where
  "ip_auto_config P f_cpu xfuel fuel w =
     (if curr_net_dev w = 0 then Ok (- 1, w) else
      bnd (netdev_open P (curr_net_dev w) w) (\<lambda>(err, w).
      if err \<noteq> 0 then Ok (err, w) else
      bnd (if my_ip w = htonl P INADDR_NONE then
             bnd (wait_link P fuel w) (\<lambda>w.
             bnd (dhcp P f_cpu xfuel fuel w) (\<lambda>(err, w).
             if err \<noteq> 0 then
               bnd (netdev_close P (curr_net_dev w) w) (\<lambda>w. Ok (Some err, w\<lparr>curr_net_dev := 0\<rparr>))
             else Ok (None, w)))
           else Ok (None, w)) (\<lambda>(stop, w).
      case stop of Some err \<Rightarrow> Ok (err, w)
      | None \<Rightarrow>
          if net_mask w = htonl P INADDR_NONE then
            bnd (inet_class_determine P (Some (le32 (my_ip w))) (Some (net_mask w))) (\<lambda>(err, nm).
            let w = (case nm of None \<Rightarrow> w | Some m \<Rightarrow> w\<lparr>net_mask := m\<rparr>) in
            if sint err < 0 \<or> sint IN_CLASS_D \<le> sint err then Ok (- 1, w) else Ok (0, w))
          else Ok (0, w))))"

text \<open>An argument is \<open>None\<close> for \<open>NULL\<close> and else the string without its terminating NUL.\<close>

definition set_addr :: "'z swaps_scheme \<Rightarrow> string option \<Rightarrow> uint32_t \<Rightarrow> uint32_t" where
  "set_addr P s old = (case s of None \<Rightarrow> old | Some cp \<Rightarrow> if cp \<noteq> [] then inet_addr P cp else old)"

definition ip_config :: "('h, 'w) dhcp_world_scheme platform \<Rightarrow> nat \<Rightarrow> nat \<Rightarrow> nat \<Rightarrow> string option \<Rightarrow> string option \<Rightarrow>
    string option \<Rightarrow> string option \<Rightarrow> ('h, 'w) dhcp_world_scheme \<Rightarrow> (int8_t \<times> ('h, 'w) dhcp_world_scheme) res" where
  "ip_config P f_cpu xfuel fuel ip nm gw dns w =
     (let w = w\<lparr>my_ip := set_addr P ip (my_ip w)\<rparr>;
          w = w\<lparr>net_mask := set_addr P nm (net_mask w)\<rparr>;
          w = w\<lparr>gateway := set_addr P gw (gateway w)\<rparr>;
          w = w\<lparr>dns_serv := set_addr P dns (dns_serv w)\<rparr>
      in ip_auto_config P f_cpu xfuel fuel w)"

section \<open>What the exchange leaves\<close>

lemma dhcp_loop_end:
  "dhcp_loop P f_cpu xfuel fuel r w = Ok w' \<Longrightarrow> dhcp_msg_type w' = DHCP_ACK \<or> \<not> got_reply w'"
  by (induction fuel arbitrary: r w) (auto simp: Let_def bnd_eq_Ok_iff split: if_splits)

lemma hdlr_simps [simp]:
  fixes w :: "('h, 'w) dhcp_world_scheme"
  shows "got_reply (pkt_hdlr_del t w) = got_reply w" "dhcp_msg_type (pkt_hdlr_del t w) = dhcp_msg_type w"
    "my_ip (pkt_hdlr_del t w) = my_ip w" "curr_net_dev (pkt_hdlr_del t w) = curr_net_dev w"
    "eth_ip (recv_ops (pkt_hdlr_del ETH_P_IP w)) = None"
  by (simp_all add: pkt_hdlr_del_def)

section \<open>Properties\<close>

text \<open>C18: what \<open>dhcp\<close> promises, whatever the network and the interrupt handlers do between its steps, as long as these
  register no handlers of packets.  Its loop ends with an acknowledgement or without a reply.  It returns 0 if a reply is
  there when it looks again, after the loop, and else \<open>-1\<close> with no address set.  So a reply that arrives between the
  last test of the loop and that look makes it return 0 without an acknowledgement: the instance below gives a run that
  returns 0 on an offer.  In all cases no handler for IP packets is left, and one registered before is lost.\<close>

theorem dhcp_outcome:
  fixes w :: "('h, 'w) dhcp_world_scheme"
  assumes "swaps_ok P" "\<And>v. recv_ops (isr P v) = recv_ops v" "dhcp P f_cpu xfuel fuel w = Ok (r, w')"
  shows "\<exists>e. dhcp_loop P f_cpu xfuel fuel 6 (pkt_hdlr_add ETH_P_IP (Some H_dhcp_recv) (xid_gen w)) = Ok e \<and>
    (dhcp_msg_type e = DHCP_ACK \<or> \<not> got_reply e) \<and>
    (r = 0 \<and> got_reply w' \<or> r = - 1 \<and> \<not> got_reply w' \<and> my_ip w' = INADDR_NONE) \<and> eth_ip (recv_ops w') = None"
proof -
  obtain e where e: "dhcp_loop P f_cpu xfuel fuel 6 (pkt_hdlr_add ETH_P_IP (Some H_dhcp_recv) (xid_gen w)) = Ok e"
    "(let v = isr P (pkt_hdlr_del ETH_P_IP (isr P e)) in
      if \<not> got_reply v then Ok (- 1, v\<lparr>my_ip := htonl P INADDR_NONE\<rparr>) else Ok (0, v)) = Ok (r, w')"
    using assms(3) by (auto simp: dhcp_def Let_def bnd_eq_Ok_iff)
  then show ?thesis
    using dhcp_loop_end[OF e(1)] none_same[OF assms(1)] assms(2) by (auto simp: Let_def split: if_splits)
qed

text \<open>A network that sends an offer at the 18th call of the interrupts, which is after the sixth time-out, behind the
  loop, while the handler is still registered.  There is no time-out to wait for (\<open>F_CPU\<close> is 0) and no memory for requests.\<close>

definition late_isr :: "nat dhcp_world \<Rightarrow> nat dhcp_world" where
  "late_isr w =
     (let v = w\<lparr>hw := hw w + 1\<rparr> in
      if hw v = 18 \<and> devs v 1 = Some demo_dev then
        (case dhcp_recv avr_swaps (NB 5) (v\<lparr>nbs := [5 \<mapsto> demo_reply_nb (demo_offer\<lparr>dm_xid := xid v\<rparr>) [Opt 53 [2]]]\<rparr>) of
           Ok (r, u) \<Rightarrow> u | Fault e \<Rightarrow> v)
      else v)"

definition late_platform :: "nat dhcp_world platform" where
  "late_platform = \<lparr>bswap_16 = swap16, bswap_32 = swap32,
     ops = (\<lambda>_. \<lparr>op_init = None, op_open = None, op_stop = None, op_start_tx = None, op_set_rx_mode = None,
       op_set_mac_addr = None, op_set_dev_settings = None, op_irq_handler = None\<rparr>), isr = late_isr\<rparr>"

definition late_start :: "nat dhcp_world" where
  "late_start =
     \<lparr>nbs = Map.empty, queues = Map.empty, mallocs = [], junk = \<lambda>_ _. 0, place = \<lambda>_. 0,
      devs = [1 \<mapsto> demo_dev], curr_net_dev = 1, irq_net_dev = 0, hw = 0,
      recv_ops = \<lparr>eth_ip = None, eth_arp = None\<rparr>, ip_proto_ops = \<lparr>ipp_icmp = None, ipp_tcp = None, ipp_udp = None\<rparr>,
      my_ip = INADDR_NONE, net_mask = INADDR_NONE, gateway = INADDR_NONE, dns_serv = INADDR_NONE,
      arp_tbl = \<lparr>at_ip = 0, at_mac = replicate 6 0\<rparr>, socks = Map.empty, socket_list = 0, inet_port = 49152,
      serv_addr = INADDR_NONE, xid = 0, got_reply = False, dhcp_msg_type = 0, rands = \<lambda>_. 0, rand_pos = 0\<rparr>"

definition waits :: "nat \<Rightarrow> nat dhcp_world \<Rightarrow> bool" where
  "waits n w \<longleftrightarrow> hw w = n \<and> mallocs w = [] \<and> \<not> got_reply w \<and> my_ip w = INADDR_NONE \<and> curr_net_dev w = 1 \<and> devs w 1 = Some demo_dev"

lemma late_recv:
  fixes v :: "nat dhcp_world"
  assumes dev: "devs v 1 = Some demo_dev"
  defines "b \<equiv> demo_reply_nb (demo_offer\<lparr>dm_xid := xid v\<rparr>) [Opt 53 [2]]"
  obtains u where "dhcp_recv avr_swaps (NB 5) (v\<lparr>nbs := [5 \<mapsto> b]\<rparr>) = Ok (NETDEV_RX_SUCCESS, freed 5 u)" "recv_ops u = recv_ops v" "hw u = hw v"
    "\<not> got_reply v \<Longrightarrow> my_ip v = INADDR_NONE \<Longrightarrow> curr_net_dev v = 1 \<Longrightarrow> got_reply u \<and> dhcp_msg_type u = DHCP_OFFER"
proof -
  let ?d = "demo_offer\<lparr>dm_xid := xid v\<rparr>" and ?os = "[Opt 53 [2]]" and ?v = "v\<lparr>nbs := [5 \<mapsto> b]\<rparr>"
  define h where "h = ip_out IPPROTO_UDP (of_nat (269 + length (encs ?os))) [10, 0, 0, 9] [10, 0, 0, 2]"
  have at: "dhcp_at (nb_mem b) 14 h ?d" "opts_at (nb_mem b) 14 h ?os"
    unfolding b_def h_def by (rule demo_reply_at; simp add: demo_offer_def dhcp_consts)+
  have b: "nb_net_dev b = 1" "nb_pkt_type b = 0" "nb_network_hdr_offset b = 14"
    by (simp_all add: b_def demo_reply_nb_def demo_ip_nb_def)
  have "dhcp_opt_len demo_offer = 3341" by code_simp
  then have l: "dhcp_opt_len ?d = 3341" by (simp add: dhcp_opt_len_def)
  have f: "IP_DF AND (IP_MF OR IP_OFFSET) = 0" by code_simp
  define mac where "mac = nd_dev_addr demo_dev"
  have "load_dev ?v (nb_net_dev b) = Ok demo_dev" "length (nd_dev_addr demo_dev) = 6" "nbs ?v 5 = Some b"
    using dev b by (simp_all add: load_dev_def)
  note rc = dhcp_recv_opts[OF swaps_ok_avr this(3) _ at _ this(1,2), folded mac_def] 
  obtain u where u: "reply_outcome mac ?d ?os ?v = Ok u" by (simp add: reply_outcome_def dhcp_consts)
  have st: "recv_ops u = recv_ops v" "hw u = hw v" using still_reply[OF u] by (simp_all add: still_def)
  have ours: "dhcp_ours b h ?d ?v" if "\<not> got_reply v" "curr_net_dev v = 1"
    using that b l f by (simp add: dhcp_ours_def PKT_OTHERHOST_def h_def) (simp add: demo_offer_def BOOTP_REPLY_def)
  have "got_reply u \<and> dhcp_msg_type u = DHCP_OFFER" if "my_ip v = INADDR_NONE"
    using u that by (auto simp: reply_outcome_def dhcp_consts taken_def)
  then have g: "\<not> got_reply v \<Longrightarrow> my_ip v = INADDR_NONE \<Longrightarrow> curr_net_dev v = 1 \<Longrightarrow> got_reply u \<and> dhcp_msg_type u = DHCP_OFFER" by blast
  show thesis
  proof (cases "dhcp_ours b h ?d ?v")
    case True
    then have "dhcp_recv avr_swaps (NB 5) ?v = Ok (NETDEV_RX_SUCCESS, freed 5 u)" using rc u l b(3) by simp
    then show ?thesis by (rule that[OF _ st g])
  next
    case False
    then have run: "dhcp_recv avr_swaps (NB 5) ?v = Ok (NETDEV_RX_SUCCESS, freed 5 ?v)" using rc l b(3) by simp
    have "got_reply ?v \<and> dhcp_msg_type ?v = DHCP_OFFER" if "\<not> got_reply v" "my_ip v = INADDR_NONE" "curr_net_dev v = 1"
      using ours[OF that(1,3)] False by simp
    then show ?thesis by (rule that[OF run, rotated 2]) simp_all
  qed
qed

lemma late_isr_sel: "recv_ops (late_isr w) = recv_ops w" "hw (late_isr w) = hw w + 1"
proof -
  have "recv_ops (late_isr w) = recv_ops w \<and> hw (late_isr w) = hw w + 1"
  proof (cases "hw w = 17 \<and> devs w 1 = Some demo_dev")
    case True
    then have d: "devs (w\<lparr>hw := hw w + 1\<rparr>) 1 = Some demo_dev" by simp
    show ?thesis by (rule late_recv[OF d]) (use True in \<open>simp add: late_isr_def Let_def freed_def\<close>)
  qed (auto simp add: late_isr_def Let_def)
  then show "recv_ops (late_isr w) = recv_ops w" "hw (late_isr w) = hw w + 1" by simp_all
qed

lemma late_offer:
  assumes "waits 17 w"
  shows "got_reply (late_isr w) \<and> dhcp_msg_type (late_isr w) = DHCP_OFFER"
proof -
  have d: "devs (w\<lparr>hw := hw w + 1\<rparr>) 1 = Some demo_dev" using assms by (simp add: waits_def)
  show ?thesis by (rule late_recv[OF d]) (use assms in \<open>simp add: late_isr_def Let_def freed_def waits_def\<close>)
qed

lemma late_isr_counts: "hw w \<noteq> 17 \<Longrightarrow> late_isr w = w\<lparr>hw := hw w + 1\<rparr>"
  by (simp add: late_isr_def)

lemma waits_step:
  assumes "waits n w"
  shows "n \<noteq> 17 \<Longrightarrow> waits (Suc n) (late_isr w)" "waits n (xid_gen w)" "waits n (pkt_hdlr_add t h w)"
    "dhcp_send_request late_platform xfuel w = Ok w" "dhcp_wait late_platform 0 w = w"
  using assms by (simp_all add: waits_def late_isr_counts xid_gen_def rand_def Let_def pkt_hdlr_add_def dhcp_send_request_def
    net_buff_alloc_def malloc_def)

lemma late_rounds:
  "waits n w \<Longrightarrow> n + 3 * k = 15 \<Longrightarrow> k < fuel \<Longrightarrow> \<exists>e. dhcp_loop late_platform 0 xfuel fuel (of_nat (Suc k)) w = Ok e \<and> waits 17 e"
proof (induction k arbitrary: n w fuel)
  case 0
  then obtain f where f: "fuel = Suc f" by (cases fuel) auto
  have "waits 16 (late_isr w)" using waits_step(1)[OF 0(1)] 0(2) by simp
  note 1 = this
  have 2: "waits 17 (late_isr (late_isr w))" using waits_step(1)[OF 1] by simp
  have i: "isr late_platform = late_isr" by (simp add: late_platform_def)
  have r: "of_nat (Suc 0) - 1 = (0 :: int8_t)" by simp
  have "dhcp_loop late_platform 0 xfuel fuel (of_nat (Suc 0)) w = Ok (late_isr (late_isr w))"
    unfolding f dhcp_loop.simps i waits_step(4)[OF 1] bnd.simps Let_def r using 2 by (simp add: waits_def i)
  then show ?case using 2 by blast
next
  case (Suc k)
  then obtain f where f: "fuel = Suc f" by (cases fuel) auto
  have 1: "waits (Suc n) (late_isr w)" using waits_step(1)[OF Suc.prems(1)] Suc.prems(2) by simp
  have 2: "waits (Suc (Suc n)) (late_isr (late_isr w))" using waits_step(1)[OF 1] Suc.prems(2) by simp
  have 3: "waits (Suc (Suc (Suc n))) (xid_gen (late_isr (late_isr (late_isr w))))"
    using waits_step(2)[OF waits_step(1)[OF 2]] Suc.prems(2) by simp
  have r: "of_nat (Suc (Suc k)) - 1 = (of_nat (Suc k) :: int8_t)" by simp
  have "unat (of_nat (Suc k) :: int8_t) = Suc k" by (rule unat_of_nat8) (use Suc.prems(2) in simp)
  then have nz: "(of_nat (Suc k) :: int8_t) \<noteq> 0" by (metis Zero_not_Suc unat_0)
  have i: "isr late_platform = late_isr" by (simp add: late_platform_def)
  have "dhcp_loop late_platform 0 xfuel fuel (of_nat (Suc (Suc k))) w =
      dhcp_loop late_platform 0 xfuel f (of_nat (Suc k)) (xid_gen (late_isr (late_isr (late_isr w))))"
    unfolding f dhcp_loop.simps i waits_step(4)[OF 1] bnd.simps Let_def r using 2 nz by (simp add: waits_def i)
  moreover have "Suc (Suc (Suc n)) + 3 * k = 15" "k < f" using Suc.prems(2,3) f by simp_all
  note Suc.IH[OF 3 this]
  ultimately show ?case by (simp only:)
qed

theorem dhcp_outcome_witness:
  "\<exists>w'. dhcp late_platform 0 9 6 late_start = Ok (0, w') \<and> dhcp_msg_type w' = DHCP_OFFER \<and> eth_ip (recv_ops w') = None"
proof -
  let ?w = "pkt_hdlr_add ETH_P_IP (Some H_dhcp_recv) (xid_gen late_start)"
  have "waits 0 ?w" by (intro waits_step(3) waits_step(2)) (simp add: waits_def late_start_def)
  from late_rounds[OF this, of 5 6 9] obtain e where e: "dhcp_loop late_platform 0 9 6 6 ?w = Ok e" "waits 17 e" by auto
  have i: "isr late_platform = late_isr" and s: "swaps_ok late_platform"
    using swaps_ok_avr by (simp_all add: late_platform_def swaps_ok_def)
  let ?v = "pkt_hdlr_del ETH_P_IP (late_isr e)"
  have "hw ?v = 18" using e(2) late_isr_sel(2)[of e] by (simp add: waits_def pkt_hdlr_del_def)
  then have v: "late_isr ?v = ?v\<lparr>hw := 19\<rparr>" by (simp add: late_isr_counts)
  have g: "got_reply (late_isr ?v)" "dhcp_msg_type (late_isr ?v) = DHCP_OFFER" using late_offer[OF e(2)] unfolding v by simp_all
  have run: "dhcp late_platform 0 9 6 late_start = Ok (0, late_isr ?v)" using e(1) g(1) by (simp add: dhcp_def Let_def i)
  have "\<And>v. recv_ops (isr late_platform v) = recv_ops v" by (simp add: i late_isr_sel)
  from dhcp_outcome[OF s this run] show ?thesis using run g(2) by blast
qed

text \<open>C19: \<open>ip_config\<close> with the dotted notation of an address other than 255.255.255.255 (which starts a DHCP
  exchange), and no other argument, on a device that is up: the address is set byte by byte as written, without any
  exchange.  When a mask is set already it is kept and the result is 0, whatever the class of the address.  Else,
  for an address of class A, B or C, the mask is that of the class and the result 0, and for the reserved classes the mask
  stays unset and the result is \<open>-1\<close>.\<close>

theorem ip_config_static:
  fixes w :: "('h, 'w) dhcp_world_scheme"
  assumes "swaps_ok P" "curr_net_dev w = d" "d \<noteq> 0" "devs w d = Some x" "nd_up_state x"
    and "[o1, o2, o3, o4] \<noteq> [255, 255, 255, 255]"
  shows "\<exists>r w'. ip_config P f_cpu xfuel fuel (Some (dotted o1 o2 o3 o4)) None None None w = Ok (r, w') \<and>
    le32 (my_ip w') = [o1, o2, o3, o4] \<and>
    (if net_mask w \<noteq> INADDR_NONE then r = 0 \<and> net_mask w' = net_mask w
     else case class_mask (addr_class o1) of Some m \<Rightarrow> r = 0 \<and> le32 (net_mask w') = m | None \<Rightarrow> r = - 1 \<and> net_mask w' = INADDR_NONE) \<and>
    hw w' = hw w \<and> nbs w' = nbs w \<and> recv_ops w' = recv_ops w"
proof -
  let ?a = "inet_addr P (dotted o1 o2 o3 o4)"
  have a: "le32 ?a = [o1, o2, o3, o4]" by (rule le32_inet_addr[OF assms(1)])
  have "le32 INADDR_NONE = [255, 255, 255, 255]" by code_simp
  then have na: "?a \<noteq> INADDR_NONE" using a assms(6) by metis
  have s: "set_addr P (Some (dotted o1 o2 o3 o4)) (my_ip w) = ?a" by (simp add: set_addr_def dotted_def)
  let ?w = "w\<lparr>my_ip := ?a\<rparr>"
  have op: "netdev_open P d ?w = Ok (0, ?w)"
    using assms(3-5) by (simp add: netdev_open_def net_dev_upstate_is_run_def load_dev_def)
  obtain nm where nm: "inet_class_determine P (Some [o1, o2, o3, o4]) (Some INADDR_NONE) = Ok (of_nat (addr_class o1), Some nm)"
    "case class_mask (addr_class o1) of Some bs \<Rightarrow> le32 nm = bs | None \<Rightarrow> nm = INADDR_NONE"
    using inet_class_determine_mask[OF assms(1), of "[o1, o2, o3, o4]" INADDR_NONE] by auto
  have k: "addr_class o1 = 0 \<or> addr_class o1 = 1 \<or> addr_class o1 = 2 \<or> addr_class o1 = 3 \<or> addr_class o1 = 4"
    using addr_class_le[of o1] by linarith
  have id: "v\<lparr>net_mask := net_mask v\<rparr> = v" "v\<lparr>gateway := gateway v\<rparr> = v" "v\<lparr>dns_serv := dns_serv v\<rparr> = v"
    for v :: "('h, 'w) dhcp_world_scheme" by (cases v; simp)+
  have none: "set_addr P None v = v" for v by (simp add: set_addr_def)
  have run: "ip_config P f_cpu xfuel fuel (Some (dotted o1 o2 o3 o4)) None None None w = ip_auto_config P f_cpu xfuel fuel ?w"
    unfolding ip_config_def Let_def s none id ..
  show ?thesis
  proof (cases "net_mask w = INADDR_NONE")
    case False
    have "ip_auto_config P f_cpu xfuel fuel ?w = Ok (0, ?w)"
      using assms(2,3) op na False none_same[OF assms(1)] by (simp add: ip_auto_config_def Let_def)
    with run False show ?thesis using a by simp
  next
    case True
    have "ip_auto_config P f_cpu xfuel fuel ?w = (let w' = ?w\<lparr>net_mask := nm\<rparr> in
       if sint (of_nat (addr_class o1) :: int8_t) < 0 \<or> sint IN_CLASS_D \<le> sint (of_nat (addr_class o1) :: int8_t)
       then Ok (- 1, w') else Ok (0, w'))"
      using assms(2,3) op na a nm(1) True none_same[OF assms(1)] by (simp add: ip_auto_config_def Let_def)
    then show ?thesis using k nm(2) a True unfolding run
      by (elim disjE) (auto simp: class_mask_def IN_CLASS_D_def Let_def)
  qed
qed

theorem ip_config_static_witness:
  "\<exists>w'. ip_config (demo_platform 1) 8 9 6 (Some ''192.168.0.7'') None None None
      ((demo_dhcp_world [] INADDR_NONE Map.empty)\<lparr>net_mask := INADDR_NONE\<rparr>) = Ok (0, w') \<and>
    le32 (my_ip w') = [192, 168, 0, 7] \<and> le32 (net_mask w') = [255, 255, 255, 0]"
proof -
  have d: "dotted 192 168 0 7 = ''192.168.0.7''" by code_simp
  show ?thesis
    using ip_config_static[of "demo_platform 1" "(demo_dhcp_world [] INADDR_NONE Map.empty)\<lparr>net_mask := INADDR_NONE\<rparr>" 1 demo_dev
      192 168 0 7 8 9 6] by (auto simp: d addr_class_def class_mask_def)
qed

end
