(* ===== verification/Stack.thy ===== *)
theory Stack
  imports Ipconfig
begin

text \<open>
  The stack as a whole: the handlers that the function pointers of the two tables stand for, the
  initialisation (\<open>network_init\<close> of \<open>net/net.c\<close>), and what a received packet leads to through all layers.
\<close>

section \<open>The code\<close>

text \<open>
  Running a handler.  \<open>ip_recv\<close> calls a second handler; \<open>depth\<close> bounds the nesting.  \<open>user\<close> are the handlers
  of the application.
\<close>

primrec call_hdlr :: "(nat \<Rightarrow> nbp \<Rightarrow> ('h, 'w) dhcp_world_scheme \<Rightarrow> (int8_t \<times> ('h, 'w) dhcp_world_scheme) res) \<Rightarrow>
    ('h, 'w) dhcp_world_scheme platform \<Rightarrow> nat \<Rightarrow> nat \<Rightarrow> ('h, 'w) dhcp_world_scheme hdlr_call" where
  "call_hdlr user P fuel 0 = (\<lambda>h nb w. Fault Out_of_fuel)"
| "call_hdlr user P fuel (Suc depth) = (\<lambda>h nb w.
     case h of
       H_arp_recv \<Rightarrow> arp_recv P fuel nb w
     | H_ip_recv \<Rightarrow> ip_recv P (call_hdlr user P fuel depth) nb w
     | H_icmp_recv \<Rightarrow> icmp_recv P fuel nb w
     | H_dhcp_recv \<Rightarrow> dhcp_recv P nb w
     | H_user i \<Rightarrow> user i nb w)"

text \<open>
  The state at the start of the program: no handler is registered, no device and no socket exists, and the
  variables have their initial values.  \<open>ms\<close> is what the calls of \<open>malloc\<close> will return, \<open>g\<close> the contents of
  fresh memory, \<open>pl\<close> where it lies, \<open>rs\<close> the random numbers and \<open>h\<close> the state of the hardware.
\<close>

definition recv_ops_init :: recv_pkt_hdlr_ops where
  "recv_ops_init = \<lparr>eth_ip = None, eth_arp = None\<rparr>"

definition ip_proto_ops_init :: ip_proto_hdlr_ops where
  "ip_proto_ops_init = \<lparr>ipp_icmp = None, ipp_tcp = None, ipp_udp = None\<rparr>"

definition boot :: "'z swaps_scheme \<Rightarrow> addr list \<Rightarrow> (addr \<Rightarrow> nat \<Rightarrow> uint8_t) \<Rightarrow> (addr \<Rightarrow> nat) \<Rightarrow>
    (nat \<Rightarrow> uint16_t) \<Rightarrow> 'h \<Rightarrow> 'h dhcp_world" where
  "boot P ms g pl rs h =
     \<lparr>nbs = Map.empty, queues = Map.empty, mallocs = ms, junk = g, place = pl,
      devs = Map.empty, curr_net_dev = 0, irq_net_dev = 0, hw = h,
      recv_ops = recv_ops_init, ip_proto_ops = ip_proto_ops_init,
      my_ip = htonl P INADDR_NONE, net_mask = htonl P INADDR_NONE, gateway = htonl P INADDR_NONE,
      dns_serv = htonl P INADDR_NONE, arp_tbl = \<lparr>at_ip = 0, at_mac = replicate ETH_MAC_LEN 0\<rparr>,
      socks = Map.empty, socket_list = 0, inet_port = 49152,
      serv_addr = htonl P INADDR_NONE, xid = 0, got_reply = False, dhcp_msg_type = 0, rands = rs, rand_pos = 0\<rparr>"
definition network_init :: "('h, 'w) sock_world_scheme \<Rightarrow> ('h, 'w) sock_world_scheme res" where
  "network_init w = bnd (socket_list_init w) (\<lambda>w. Ok (inet_init w))"

section \<open>Initialisation\<close>

text \<open>
  The list of sockets is empty when the program starts.  \<open>socket_list_init\<close> nevertheless writes the links of
  its first element, so the initialisation dereferences a null pointer before the handlers are registered.
\<close>

lemma network_init_faults: "network_init (boot P ms g pl rs h) = Fault Null_deref"
  by (simp add: boot_def network_init_def socket_list_init_def upd_sk_def load_sk_def)

text \<open>Without that write the initialisation registers the handlers; the driver can then deliver packets.\<close>

lemma inet_init_boot: "recv_ops (inet_init (boot P ms g pl rs h)) = \<lparr>eth_ip = Some H_ip_recv, eth_arp = Some H_arp_recv\<rparr> \<and>
    ip_proto_ops (inet_init (boot P ms g pl rs h)) = \<lparr>ipp_icmp = Some H_icmp_recv, ipp_tcp = None, ipp_udp = None\<rparr>"
  by (simp add: boot_def recv_ops_init_def ip_proto_ops_init_def inet_init_def ip_init_def arp_init_def icmp_init_def
      tcp_init_def udp_init_def pkt_hdlr_add_def ip_proto_handler_add_def ETH_P_IP_def ETH_P_ARP_def IPPROTO_ICMP_def
      IPPROTO_TCP_def IPPROTO_UDP_def)

definition inet_ready :: "('h, 'w) ip_world_scheme \<Rightarrow> bool" where
  "inet_ready w \<longleftrightarrow> eth_ip (recv_ops w) = Some H_ip_recv \<and> eth_arp (recv_ops w) = Some H_arp_recv \<and>
     ipp_icmp (ip_proto_ops w) = Some H_icmp_recv"

lemma inet_init_ready: "inet_ready (inet_init w)"
  by (simp add: inet_ready_def inet_init_def ip_init_def arp_init_def icmp_init_def tcp_init_def udp_init_def
      pkt_hdlr_add_def ip_proto_handler_add_def ETH_P_IP_def ETH_P_ARP_def IPPROTO_ICMP_def IPPROTO_TCP_def IPPROTO_UDP_def)

section \<open>Properties\<close>

text \<open>C2: a ping goes through all layers: when the stack is initialised, a valid echo request to the unicast address of this host, in an IP packet
  without options whose total length is not a multiple of 256 below 5120 (such packets \<open>ip_recv\<close> wrongly refuses), that the driver hands to \<open>recv_pkt_handler\<close> passes the table of Ethernet types, \<open>ip_recv\<close>
  and the table of IP protocols to \<open>icmp_recv\<close>, and exactly one frame goes back to the sender: the echo reply
  with the same identifier, sequence number and data and with correct checksums.  Two nested handlers are
  enough.\<close>

theorem stack_ping:
  fixes w :: "('h, 'w) dhcp_world_scheme"
  assumes "swaps_ok P" "tx_driver P sent m K d k q" "tx_ready d k w" "2 * Suc K \<le> fuel" "inet_ready w"
    and "nbs w a = Some b" "nb_protocol b = htons P ETH_P_IP" "nb_net_dev b = d" "nb_next b = NULLP" "eth_dev d w x"
    and "ip_frame (b\<lparr>nb_transport_hdr_offset := nb_network_hdr_offset b + 20\<rparr>) dst src type h t"
    and "unat (nb_pkt_type b) \<noteq> PKT_OTHERHOST" "ih_version h = 4" "ih_protocol h = IPPROTO_ICMP" "chk (ip_bytes h) = 0"
    and "ih_tot_len h \<le> nb_pkt_len b" "\<not> len_refused (ih_tot_len h)"
    and "4 \<le> length t" "t ! 0 = ICMP_ECHO_REQ" "chk t = 0" "ip_unicast (ih_dst h)" "ih_dst h = le32 (my_ip w)"
  shows "\<exists>w' c h' t'. recv_pkt_handler P (call_hdlr user P fuel 2) (NB a) w = Ok (NETDEV_RX_SUCCESS, w') \<and>
    sent (hw w') = sent (hw w) @ [c] \<and> ip_frame c src (nd_dev_addr x) type h' t' \<and>
    ih_src h' = ih_dst h \<and> ih_dst h' = ih_src h \<and> chk (ip_bytes h') = 0 \<and>
    t' ! 0 = ICMP_ECHO_REPLY \<and> drop 4 t' = drop 4 t \<and> length t' = length t \<and> chk t' = 0"
proof -
  let ?b = "b\<lparr>nb_transport_hdr_offset := nb_network_hdr_offset b + 20\<rparr>"
  let ?w = "w\<lparr>nbs := (nbs w)(a \<mapsto> ?b)\<rparr>"
  have f: "ip_ok h" "ih_ihl h = 5" "view (unat (nb_mac_hdr_offset b)) (unat (nb_network_hdr_offset b)) (unat (nb_transport_hdr_offset ?b))
      (nb_mem b) (eth_bytes dst src type) (ip_bytes h) t" using assms(11) by (simp_all add: ip_frame_def)
  have at: "ip_at b h" using f view_bounds(2)[OF f(3), of 0 20] view_rd(2)[OF f(3), of 0 20]
    by (simp add: ip_at_def bslice_all)
  have valid: "ip_valid b h" using assms(12,13,15,16) f(2) by (simp add: ip_valid_def)
  have step: "recv_pkt_handler P (call_hdlr user P fuel 2) (NB a) w = icmp_recv P fuel (NB a) ?w"
    using assms(5-7,14,17) valid ip_recv_cases[OF assms(1,6) at, of "call_hdlr user P fuel 1"]
    by (simp add: recv_pkt_handler_def load_nb_NB inet_ready_def ip_proto_handler_def numeral_2_eq_2)
  have w: "tx_ready d k ?w" "nbs ?w a = Some ?b" "nb_net_dev ?b = d" "nb_next ?b = NULLP" "eth_dev d ?w x"
    "ih_dst h = le32 (my_ip ?w)" using assms(3,8-10,22) by (simp_all add: tx_ready_def eth_dev_def)
  from icmp_echo_answer[OF assms(1,2) w(1) assms(4) w(2) assms(11) w(3-5) assms(18-21) w(6)] step show ?thesis by auto
qed

text \<open>A concrete run: the initialised stack of host 10.0.0.2 receives a ping from 10.0.0.1.\<close>

definition demo_ping_nb :: net_buff where
  "demo_ping_nb = (demo_icmp_nb (ip_out IPPROTO_ICMP 29 [10, 0, 0, 1] [10, 0, 0, 2]) demo_echo)
     \<lparr>nb_protocol := htons avr_swaps ETH_P_IP\<rparr>"

definition demo_ping_world :: "demo_hw dhcp_world" where
  "demo_ping_world = inet_init (demo_dhcp_world [] 0x0200000A [5 \<mapsto> demo_ping_nb])"

lemma inet_init_sel [simp]:
  "nbs (inet_init w) = nbs w" "devs (inet_init w) = devs w" "my_ip (inet_init w) = my_ip w" "hw (inet_init w) = hw w"
  by (simp_all add: inet_init_def ip_init_def arp_init_def icmp_init_def tcp_init_def udp_init_def
      pkt_hdlr_add_def ip_proto_handler_add_def)

abbreviation demo_P :: "demo_hw dhcp_world platform" where
  "demo_P \<equiv> demo_platform 1"

theorem stack_ping_witness:
  "\<exists>w' c h' t'. recv_pkt_handler demo_P (call_hdlr (\<lambda>i nb w. Fault Null_deref) demo_P 8 2) (NB 5) demo_ping_world
      = Ok (NETDEV_RX_SUCCESS, w') \<and>
    demo_log (hw w') = [c] \<and> ip_frame c [2, 0, 0, 0, 0, 9] [2, 0, 0, 0, 0, 1] ETH_P_IP h' t' \<and>
    drop 4 t' = [0, 7, 0, 1, 0x61]"
proof -
  let ?h = "ip_out IPPROTO_ICMP 29 [10, 0, 0, 1] [10, 0, 0, 2]"
  have b: "nb_net_dev demo_ping_nb = 1" "nb_next demo_ping_nb = NULLP" "nb_protocol demo_ping_nb = htons (demo_platform 1 :: demo_hw dhcp_world platform) ETH_P_IP"
    "nb_pkt_type demo_ping_nb = 0" "nb_pkt_len demo_ping_nb = 43"
    "ip_frame (demo_ping_nb\<lparr>nb_transport_hdr_offset := nb_network_hdr_offset demo_ping_nb + 20\<rparr>)
       [2, 0, 0, 0, 0, 1] [2, 0, 0, 0, 0, 9] ETH_P_IP ?h demo_echo"
    by (simp_all add: demo_ping_nb_def demo_icmp_nb_def demo_ip_nb_def ip_frame_def view_def bslice_def htons_def)
  have w: "tx_ready 1 1 demo_ping_world" "inet_ready demo_ping_world" "nbs demo_ping_world 5 = Some demo_ping_nb"
    "eth_dev 1 demo_ping_world demo_dev" "ih_dst ?h = le32 (my_ip demo_ping_world)" "ip_unicast (ih_dst ?h)"
    by (simp_all add: demo_ping_world_def inet_init_ready le32_demo tx_ready_def eth_dev_def)
  have "(2 :: nat) * Suc 3 \<le> 8" "ih_version ?h = 4" "ih_protocol ?h = IPPROTO_ICMP" "chk (ip_bytes ?h) = 0"
    "ih_tot_len ?h \<le> nb_pkt_len demo_ping_nb" "\<not> len_refused (ih_tot_len ?h)" "4 \<le> length demo_echo"
    "demo_echo ! 0 = ICMP_ECHO_REQ" "chk demo_echo = 0" "unat (nb_pkt_type demo_ping_nb) \<noteq> PKT_OTHERHOST"
    using b(4,5) by (simp_all add: len_refused_def PKT_OTHERHOST_def byte_of_def)
  note n = this
  show ?thesis
    using stack_ping[OF demo_swaps_ok demo_tx_driver[of 1 1 "QVAR 0"] w(1) n(1) w(2,3) b(3,1,2) w(4) b(6) n(10,2-9) w(6,5),
        of "\<lambda>i nb w. Fault Null_deref"] by (auto simp: demo_ping_world_def)
qed

end
