(* ===== verification/Dhcp_Exchange.thy ===== *)
theory Dhcp_Exchange
  imports Stack
begin

text \<open>
  The DHCP exchange (\<open>dhcp\<close> of \<open>net/ipconfig.c\<close>) with a server that answers, and without one.  The server and
  the driver are the interrupts of the platform; \<open>dhcp_net\<close> and \<open>dhcp_silent\<close> state what they do.  From it follows what
  the client does: it asks for an address, takes the offer, requests it, and is configured; or it asks six times and gives up.
\<close>

section \<open>One transmission in an environment\<close>

text \<open>
  What holds of the state besides the transmission: \<open>Q\<close> is kept by the interrupts and the driver while the frame
  is being sent, and leads to \<open>R\<close> with the interrupts after it.
\<close>

lemma store_same: "nbs w a = Some b \<Longrightarrow> store_nb (NB a) b w = w"
  by (simp add: store_nb_NB fun_upd_idem)

lemma list_xmit_env:
  assumes drv: "tx_driver P sent m K d k q" and f: "op_start_tx (ops P k) = Some f"
    and isr: "\<And>w. Q w \<Longrightarrow> sent (hw w) = L \<Longrightarrow> Q (isr P w)"
    and busy: "\<And>w. Q w \<Longrightarrow> Q (snd (f (NB a) d w))"
    and fin: "\<And>w. Q w \<Longrightarrow> sent (hw w) = L @ [b] \<Longrightarrow> R (isr P w)"
    and b: "nb_next b = NULLP"
  shows "tx_ready d k w \<Longrightarrow> nbs w a = Some b \<Longrightarrow> sent (hw w) = L \<Longrightarrow> Q w \<Longrightarrow> left m d w + 1 < fuel \<Longrightarrow>
    \<exists>r w'. list_xmit_loop P fuel d (NB a) e w = Ok (NULLP, r, w') \<and> net_dev_xmit_complete r \<and> R w' \<and> sent (hw w') = L @ [b]"
proof (induction fuel arbitrary: w e)
  case (Suc fuel)
  note i = tx_driver_isr[OF drv]
  obtain x where x: "load_dev w d = Ok x" "nd_up_state x" "nd_link_status x"
    "dev_ops P w d = Ok (ops P k)" "nd_tx_allow x = tx_allowed d w"
    by (rule tx_readyE[OF Suc.prems(1) i(5,6)])
  have again: "\<exists>r w'. list_xmit_loop P fuel d (NB a) e (isr P w1) = Ok (NULLP, r, w') \<and> net_dev_xmit_complete r \<and> R w' \<and>
      sent (hw w') = L @ [b]"
    if "tx_kept d k q w w1" "sent (hw w1) = L" "Q w1" "left m d (isr P w1) < left m d w" for w1 e
    by (rule Suc.IH) (use that Suc.prems i(1,2)[of w1] isr[of w1] in \<open>simp_all add: tx_kept_def\<close>)
  have store: "store_nb (NB a) (b\<lparr>nb_next := NULLP\<rparr>) v = v" if "nbs v a = Some b" for v :: "('a, 'b) dev_world_scheme"
  proof -
    have "b\<lparr>nb_next := NULLP\<rparr> = b" using b by (cases b) simp
    then show ?thesis using store_same[OF that] by simp
  qed
  show ?case
  proof (cases "tx_allowed d w")
    case False
    from again[of w e] i(4)[OF Suc.prems(1) False] Suc.prems x False show ?thesis by simp
  next
    case True
    obtain r w1 where fw: "f (NB a) d w = (r, w1)" and
      res: "if net_dev_xmit_complete r then tx_consumed d k q a w w1 \<and> sent (hw w1) = sent (hw w) @ [b]
        else tx_kept d k q w w1 \<and> sent (hw w1) = sent (hw w) \<and> left m d w1 < left m d w"
      using tx_driver_start[OF drv Suc.prems(2)] f by (metis option.inject)
    have Q1: "Q w1" using busy[OF Suc.prems(4)] fw by simp
    have start: "netdev_start_tx P (NB a) d w = Ok (r, w1)" using x(4) f fw by (simp add: netdev_start_tx_def)
    show ?thesis
    proof (cases "net_dev_xmit_complete r")
      case False
      with res have w1: "tx_kept d k q w w1" "sent (hw w1) = L" "left m d w1 < left m d w" "nbs w1 a = Some b"
        using Suc.prems by (auto simp: tx_kept_def)
      have "left m d (isr P w1) < left m d w" using i(3)[of w1] w1(3) by simp
      from again[OF w1(1,2) Q1 this, of r] show ?thesis
        using False True x start Suc.prems(2) w1(4) b by (simp add: load_nb_NB store)
    next
      case fin': True
      with res have w1: "tx_ready d k w1" "sent (hw w1) = L @ [b]" using Suc.prems by (auto simp: tx_consumed_def)
      have "tx_ready d k (isr P w1)" using i(1)[of w1] w1(1) by (simp add: tx_kept_def)
      then obtain y where "load_dev (isr P w1) d = Ok y" "nd_up_state y" "nd_link_status y" by (rule tx_readyE[OF _ i(5,6)])
      moreover have "R (isr P w1)" by (rule fin[OF Q1 w1(2)])
      moreover obtain fuel' where "fuel = Suc fuel'" using Suc.prems(5) by (cases fuel) auto
      ultimately show ?thesis using fin' True x start Suc.prems(2) b w1(2) i(2)[of w1] by (simp add: load_nb_NB store)
    qed
  qed
qed simp

section \<open>The server\<close>

text \<open>The variables of the client: an abstract state on which the answers act.\<close>

record dhcp_client =
  cl_dev :: addr
  cl_ip :: uint32_t
  cl_server :: uint32_t
  cl_xid :: uint32_t
  cl_got :: bool
  cl_type :: uint8_t
  cl_net :: "uint32_t \<times> uint32_t \<times> uint32_t"
  cl_hdlr :: "proto_hdlr option"

definition client :: "('h, 'w) dhcp_world_scheme \<Rightarrow> dhcp_client" where
  "client w = \<lparr>cl_dev = curr_net_dev w, cl_ip = my_ip w, cl_server = serv_addr w, cl_xid = xid w, cl_got = got_reply w,
     cl_type = dhcp_msg_type w, cl_net = (net_mask w, gateway w, dns_serv w), cl_hdlr = eth_ip (recv_ops w)\<rparr>"

lemma client_sel [simp]:
  "cl_dev (client w) = curr_net_dev w" "cl_ip (client w) = my_ip w" "cl_server (client w) = serv_addr w" "cl_xid (client w) = xid w"
  "cl_got (client w) = got_reply w" "cl_type (client w) = dhcp_msg_type w" "cl_net (client w) = (net_mask w, gateway w, dns_serv w)"
  "cl_hdlr (client w) = eth_ip (recv_ops w)"
  by (simp_all add: client_def)

lemma client_reply: "client (w\<lparr>got_reply := g\<rparr>) = (client w)\<lparr>cl_got := g\<rparr>"
  by (simp add: client_def)

text \<open>The last frame that was sent is a request of type \<open>t\<close> with the transaction number \<open>x\<close>.\<close>

definition asks :: "net_buff list \<Rightarrow> uint32_t \<Rightarrow> uint8_t \<Rightarrow> bool" where
  "asks L x t \<longleftrightarrow> L \<noteq> [] \<and> (let m = nb_mem (last L) in bslice 46 4 m = le32 x \<and>
     (case opt_scan (dhcp_opt m) m 590 282 (INADDR_NONE, None) of Ok (s, Some t') \<Rightarrow> t' = t | _ \<Rightarrow> False))"

text \<open>What the server has for the client: its own address, the address, and the options of its two messages.\<close>

record dhcp_lease =
  ls_server :: uint32_t
  ls_addr :: uint32_t
  ls_offer :: "dhcp_option list"
  ls_ack :: "dhcp_option list"

definition lease_ok :: "dhcp_lease \<Rightarrow> bool" where
  "lease_ok l \<longleftrightarrow> ls_server l \<noteq> INADDR_NONE \<and> ls_addr l \<noteq> INADDR_NONE \<and>
     opts_do dhcp_effect (ls_offer l) (INADDR_NONE, None) = (ls_server l, Some DHCP_OFFER) \<and>
     snd (opts_do dhcp_effect (ls_ack l) (INADDR_NONE, None)) = Some DHCP_ACK"

text \<open>The message \<open>d\<close> with options \<open>os\<close> answers the last request, for the host with hardware address \<open>mac\<close>.\<close>

definition answers :: "bytes \<Rightarrow> dhcp_lease \<Rightarrow> net_buff list \<Rightarrow> dhcp_msg \<Rightarrow> dhcp_option list \<Rightarrow> bool" where
  "answers mac l L d os \<longleftrightarrow> dm_yiaddr d = ls_addr l \<and> dm_giaddr d = 0 \<and> dm_chaddr d = mac \<and>
     (asks L (dm_xid d) DHCP_DISCOVER \<and> os = ls_offer l \<or> asks L (dm_xid d) DHCP_REQUEST \<and> os = ls_ack l)"

text \<open>
  A reply for the transaction \<open>x\<close>, received on the device \<open>dev\<close>: a BOOTP reply in a UDP datagram that is not fragmented,
  behind a correct IP header without options.  Of the UDP length the low byte must be in \<open>1..128\<close>: the client
  reads this field without converting it, and ignores the other replies (\<open>dhcp_recv_length\<close>).
\<close>

definition good_reply :: "net_buff \<Rightarrow> ip_hdr \<Rightarrow> dhcp_msg \<Rightarrow> addr \<Rightarrow> uint32_t \<Rightarrow> bool" where
  "good_reply b h d dev x \<longleftrightarrow> nb_net_dev b = dev \<and> unat (nb_pkt_type b) \<noteq> PKT_OTHERHOST \<and>
     ih_version h = 4 \<and> ih_ihl h = 5 \<and> chk (ip_bytes h) = 0 \<and> ih_protocol h = IPPROTO_UDP \<and>
     ih_frag_off h AND (IP_MF OR IP_OFFSET) = 0 \<and> dm_op d = BOOTP_REPLY \<and> dm_xid d = x \<and>
     unat (dm_ulen d) mod 256 \<in> {1..128}"

lemma good_reply_ours:
  assumes "good_reply b h d (curr_net_dev w) (xid w)" "\<not> got_reply w" "unat (dm_ulen d) < 62464"
  shows "dhcp_ours b h d w"
  using assms dhcp_len_test[OF assms(3)] by (simp add: good_reply_def dhcp_ours_def)

text \<open>
  An interrupt that leads from \<open>w\<close> to \<open>w'\<close> hands an answer to \<open>recv_pkt_handler\<close>.  \<open>ours\<close> says that the
  answer is a good reply for the current transaction.
\<close>

definition delivers :: "bytes \<Rightarrow> dhcp_lease \<Rightarrow> net_buff list \<Rightarrow> ('h, 'w) dhcp_world_scheme platform \<Rightarrow> bool \<Rightarrow>
    ('h, 'w) dhcp_world_scheme \<Rightarrow> ('h, 'w) dhcp_world_scheme \<Rightarrow> bool" where
  "delivers mac l L P ours w w' \<longleftrightarrow> (\<exists>(w0 :: ('h, 'w) dhcp_world_scheme) w1 a b h d os x r n user xf. client w0 = client w \<and>
     nbs w0 a = Some b \<and> nb_protocol b = htons P ETH_P_IP \<and> n = unat (nb_network_hdr_offset b) \<and> dhcp_at (nb_mem b) n h d \<and>
     opts_at (nb_mem b) n h os \<and> unat (dm_ulen d) < 62464 \<and>
     load_dev w0 (nb_net_dev b) = Ok x \<and> nd_dev_addr x = mac \<and> length mac = 6 \<and> answers mac l L d os \<and>
     (ours \<longrightarrow> good_reply b h d (curr_net_dev w) (xid w)) \<and>
     recv_pkt_handler P (call_hdlr user P xf 1) (NB a) w0 = Ok (r, w1) \<and> client w' = client w1)"

text \<open>
  The state \<open>S n\<close>: the device is up and there is a buffer for each of \<open>n\<close> requests.  The client's own steps
  between two requests keep it, and so does the driver, which leaves the variables of the client alone.
\<close>

definition dhcp_room :: "('h, 'w) dhcp_world_scheme platform \<Rightarrow> addr \<Rightarrow> addr \<Rightarrow> bytes \<Rightarrow> (nat \<Rightarrow> ('h, 'w) dhcp_world_scheme \<Rightarrow> bool) \<Rightarrow> bool" where
  "dhcp_room P d k mac S \<longleftrightarrow>
     (\<forall>n w. S (Suc n) w \<longrightarrow> curr_net_dev w = d \<and> tx_ready d k w \<and> alloc_ok w \<and> (\<exists>x. eth_dev d w x \<and> nd_dev_addr x = mac) \<and>
        (\<forall>a w1 b. net_buff_alloc 590 w = (NB a, w1) \<longrightarrow> S n (w1\<lparr>nbs := (nbs w1)(a \<mapsto> b)\<rparr>))) \<and>
     (\<forall>n w. S n w \<longrightarrow> S n (w\<lparr>got_reply := False\<rparr>) \<and> S n (xid_gen w) \<and> S n (pkt_hdlr_del ETH_P_IP w)) \<and>
     (\<forall>n w f p. S n w \<longrightarrow> op_start_tx (ops P k) = Some f \<longrightarrow> S n (snd (f p d w)) \<and> client (snd (f p d w)) = client w)"

lemma dhcp_roomD:
  assumes "dhcp_room P d k mac S"
  shows "S (Suc n) w \<Longrightarrow> curr_net_dev w = d" "S (Suc n) w \<Longrightarrow> tx_ready d k w" "S (Suc n) w \<Longrightarrow> alloc_ok w"
    "S (Suc n) w \<Longrightarrow> \<exists>x. eth_dev d w x \<and> nd_dev_addr x = mac"
    "S (Suc n) w \<Longrightarrow> net_buff_alloc 590 w = (NB a, w1) \<Longrightarrow> S n (w1\<lparr>nbs := (nbs w1)(a \<mapsto> b)\<rparr>)"
    "S n w \<Longrightarrow> S n (w\<lparr>got_reply := False\<rparr>)" "S n w \<Longrightarrow> S n (xid_gen w)" "S n w \<Longrightarrow> S n (pkt_hdlr_del ETH_P_IP w)"
    "S n w \<Longrightarrow> op_start_tx (ops P k) = Some f \<Longrightarrow> S n (snd (f p d w))"
    "S n w \<Longrightarrow> op_start_tx (ops P k) = Some f \<Longrightarrow> client (snd (f p d w)) = client w"
  using assms unfolding dhcp_room_def by (elim conjE, (drule spec | fast)+)

text \<open>
  The contract of a network with a server: an interrupt leaves the variables of the client alone or
  delivers an answer, and while the client waits for an answer to its last request, with its handler registered, one
  that is a good reply arrives before \<open>m\<close>, which is less than \<open>T\<close>, is down to nothing.
\<close>

definition dhcp_net :: "('h, 'w) dhcp_world_scheme platform \<Rightarrow> ('h \<Rightarrow> net_buff list) \<Rightarrow> addr \<Rightarrow> addr \<Rightarrow> bytes \<Rightarrow> dhcp_lease \<Rightarrow>
    ('h \<Rightarrow> nat) \<Rightarrow> nat \<Rightarrow> (nat \<Rightarrow> ('h, 'w) dhcp_world_scheme \<Rightarrow> bool) \<Rightarrow> bool" where
  "dhcp_net P sent d k mac l m T S \<longleftrightarrow> lease_ok l \<and> (\<forall>h. m h < T) \<and> dhcp_room P d k mac S \<and>
     (\<forall>n w. S n w \<longrightarrow> S n (isr P w) \<and>
        (client (isr P w) = client w \<or> (\<exists>ours. delivers mac l (sent (hw w)) P ours w (isr P w))) \<and>
        (\<not> got_reply w \<longrightarrow> eth_ip (recv_ops w) = Some H_dhcp_recv \<longrightarrow>
          (\<exists>t \<in> {DHCP_DISCOVER, DHCP_REQUEST}. asks (sent (hw w)) (xid w) t) \<longrightarrow>
          m (hw (isr P w)) < m (hw w) \<or> delivers mac l (sent (hw w)) P True w (isr P w)))"

lemma dhcp_netD:
  assumes "dhcp_net P sent d k mac l m T S"
  shows "lease_ok l" "m h < T" "dhcp_room P d k mac S" "S n w \<Longrightarrow> S n (isr P w)"
    "S n w \<Longrightarrow> client (isr P w) = client w \<or> (\<exists>ours. delivers mac l (sent (hw w)) P ours w (isr P w))"
    "S n w \<Longrightarrow> \<not> got_reply w \<Longrightarrow> eth_ip (recv_ops w) = Some H_dhcp_recv \<Longrightarrow>
      \<exists>t \<in> {DHCP_DISCOVER, DHCP_REQUEST}. asks (sent (hw w)) (xid w) t \<Longrightarrow>
      m (hw (isr P w)) < m (hw w) \<or> delivers mac l (sent (hw w)) P True w (isr P w)"
  using assms unfolding dhcp_net_def by blast+

text \<open>The contract of a network without one: the interrupts leave the variables of the client alone.\<close>

definition dhcp_silent :: "('h, 'w) dhcp_world_scheme platform \<Rightarrow> addr \<Rightarrow> addr \<Rightarrow> bytes \<Rightarrow> (nat \<Rightarrow> ('h, 'w) dhcp_world_scheme \<Rightarrow> bool) \<Rightarrow> bool" where
  "dhcp_silent P d k mac S \<longleftrightarrow> dhcp_room P d k mac S \<and> (\<forall>n w. S n w \<longrightarrow> S n (isr P w) \<and> client (isr P w) = client w)"

section \<open>What an answer does\<close>

text \<open>The mask, the gateway and the name server, of the options.\<close>

fun net_effect :: "uint8_t \<Rightarrow> bytes \<Rightarrow> uint32_t \<times> uint32_t \<times> uint32_t \<Rightarrow> uint32_t \<times> uint32_t \<times> uint32_t" where
  "net_effect c d (m, g, n) =
     (if c = DHCP_OPT_SMASK then (un32 (take 4 d), g, n)
      else if c = DHCP_OPT_ROUTER then (m, un32 (take 4 d), n)
      else if c = DHCP_OPT_DNS then (m, g, un32 (take 4 d)) else (m, g, n))"

definition offered :: "dhcp_lease \<Rightarrow> dhcp_client \<Rightarrow> dhcp_client" where
  "offered l c = c\<lparr>cl_ip := ls_addr l, cl_server := ls_server l, cl_type := DHCP_OFFER,
     cl_net := opts_do net_effect (ls_offer l) (cl_net c), cl_got := True\<rparr>"

definition acked :: "dhcp_lease \<Rightarrow> dhcp_client \<Rightarrow> dhcp_client" where
  "acked l c = c\<lparr>cl_ip := ls_addr l, cl_type := DHCP_ACK,
     cl_net := opts_do net_effect (ls_ack l) (cl_net c), cl_got := True\<rparr>"

lemma opts_do_net:
  fixes c :: dhcp_client
  shows "opts_do (\<lambda>x d c. c\<lparr>cl_net := f x d (cl_net c)\<rparr>) os c = c\<lparr>cl_net := opts_do f os (cl_net c)\<rparr>"
proof (induction os arbitrary: c)
  case (Cons x os)
  then show ?case by (cases x) simp_all
qed simp

lemma client_bootp:
  fixes w :: "('h, 'w) dhcp_world_scheme"
  shows "client (opts_do bootp_effect os w) = (client w)\<lparr>cl_net := opts_do net_effect os (cl_net (client w))\<rparr>"
proof -
  have "client (bootp_effect c d w) = (client w)\<lparr>cl_net := net_effect c d (cl_net (client w))\<rparr>" for c d and w :: "('h, 'w) dhcp_world_scheme"
    by (simp add: client_def)
  then have "client (opts_do bootp_effect os w) = opts_do (\<lambda>c d s. s\<lparr>cl_net := net_effect c d (cl_net s)\<rparr>) os (client w)"
    by (rule opts_do_hom)
  then show ?thesis by (simp only: opts_do_net)
qed

lemma asks_fun: "asks L x t \<Longrightarrow> asks L x' t' \<Longrightarrow> x' = x \<and> t' = t"
  by (auto simp: asks_def Let_def split: res.splits option.splits)

lemma offer_ack_neq [simp]: "DHCP_OFFER \<noteq> DHCP_ACK" "DHCP_ACK \<noteq> DHCP_OFFER" "DHCP_DISCOVER \<noteq> DHCP_REQUEST" "DHCP_REQUEST \<noteq> DHCP_DISCOVER"
  by (simp_all add: dhcp_consts)

text \<open>The effect of an answer on a client that has no reply yet, and where there is none.\<close>

definition next_client :: "dhcp_lease \<Rightarrow> net_buff list \<Rightarrow> dhcp_client \<Rightarrow> dhcp_client option" where
  "next_client l L c =
     (if asks L (cl_xid c) DHCP_DISCOVER \<and> cl_ip c = INADDR_NONE then Some (offered l c)
      else if asks L (cl_xid c) DHCP_REQUEST then Some (acked l c) else None)"

text \<open>What the outcome of a reply that the client takes means for it.\<close>

lemma reply_effect:
  fixes w :: "('h, 'w) dhcp_world_scheme"
  assumes l: "lease_ok l" and a: "answers mac l L d os" "dm_xid d = xid w" and g: "\<not> got_reply w"
    and s: "asks L (xid w) DHCP_REQUEST \<Longrightarrow> serv_addr w \<noteq> INADDR_NONE"
  shows "\<exists>v. reply_outcome mac d os w = Ok v \<and>
    client v = (case next_client l L (client w) of None \<Rightarrow> client w | Some c \<Rightarrow> c)"
proof -
  from a consider (discover) "asks L (xid w) DHCP_DISCOVER" "os = ls_offer l" | (request) "asks L (xid w) DHCP_REQUEST" "os = ls_ack l"
    by (auto simp: answers_def)
  then show ?thesis
  proof cases
    case discover
    then have na: "\<not> asks L (xid w) DHCP_REQUEST" using asks_fun offer_ack_neq(3) by blast
    show ?thesis
    proof (cases "my_ip w = INADDR_NONE")
      case False
      then show ?thesis using l discover na by (simp add: reply_outcome_def lease_ok_def next_client_def)
    next
      case True
      define v where "v = w\<lparr>my_ip := ls_addr l, serv_addr := ls_server l, dhcp_msg_type := DHCP_OFFER\<rparr>"
      have "reply_outcome mac d os w = Ok (taken d (opts_do bootp_effect (ls_offer l) v))"
        using l discover True a(1) by (simp add: reply_outcome_def lease_ok_def answers_def v_def)
      moreover have "client (taken d (opts_do bootp_effect (ls_offer l) v)) =
          (client (opts_do bootp_effect (ls_offer l) v))\<lparr>cl_ip := ls_addr l, cl_got := True\<rparr>"
        using l a(1) by (simp add: client_def taken_def answers_def lease_ok_def bootp_effect_sel v_def)
      moreover have "\<dots> = offered l (client w)" unfolding client_bootp offered_def by (simp add: v_def client_def)
      ultimately show ?thesis using discover True g by (simp add: next_client_def)
    qed
  next
    case request
    then have na: "\<not> asks L (xid w) DHCP_DISCOVER" using asks_fun offer_ack_neq(3) by blast
    define v where "v = w\<lparr>dhcp_msg_type := DHCP_ACK\<rparr>"
    have "reply_outcome mac d os w = Ok (taken d (opts_do bootp_effect (ls_ack l) v))"
      using l request a(1) by (cases "opts_do dhcp_effect (ls_ack l) (INADDR_NONE, None)")
        (simp add: reply_outcome_def lease_ok_def answers_def v_def)
    moreover have "client (taken d (opts_do bootp_effect (ls_ack l) v)) =
        (client (opts_do bootp_effect (ls_ack l) v))\<lparr>cl_ip := ls_addr l, cl_got := True\<rparr>"
      using s[OF request(1)] a(1) by (simp add: client_def taken_def answers_def bootp_effect_sel v_def)
    moreover have "\<dots> = acked l (client w)" unfolding client_bootp acked_def by (simp add: v_def client_def)
    ultimately show ?thesis using request na g by (simp add: next_client_def)
  qed
qed

lemma delivers_effect:
  fixes w w' :: "('h, 'w) dhcp_world_scheme"
  assumes P: "swaps_ok P" and l: "lease_ok l" and D: "delivers mac l L P ours w w'"
    and H: "eth_ip (recv_ops w) = Some H_dhcp_recv" and s: "asks L (xid w) DHCP_REQUEST \<Longrightarrow> serv_addr w \<noteq> INADDR_NONE"
  shows "client w' = client w \<or> \<not> got_reply w \<and> next_client l L (client w) = Some (client w')"
    and "ours \<Longrightarrow> \<not> got_reply w \<Longrightarrow> next_client l L (client w) \<noteq> None \<Longrightarrow> next_client l L (client w) = Some (client w')"
proof -
  obtain w0 w1 :: "('h, 'w) dhcp_world_scheme" and a b h d os x r n where c: "client w0 = client w" "nbs w0 a = Some b"
    "n = unat (nb_network_hdr_offset b)" "dhcp_at (nb_mem b) n h d" "opts_at (nb_mem b) n h os" "unat (dm_ulen d) < 62464"
    "load_dev w0 (nb_net_dev b) = Ok x" "nd_dev_addr x = mac" "length mac = 6" "answers mac l L d os"
    "ours \<longrightarrow> good_reply b h d (curr_net_dev w) (xid w)" "dhcp_recv P (NB a) w0 = Ok (r, w1)" "client w' = client w1"
  proof -
    from D obtain w0 w1 :: "('h, 'w) dhcp_world_scheme" and a b h d os x r n user xf where c: "client w0 = client w" "nbs w0 a = Some b"
      "n = unat (nb_network_hdr_offset b)" "dhcp_at (nb_mem b) n h d" "opts_at (nb_mem b) n h os" "unat (dm_ulen d) < 62464"
      "load_dev w0 (nb_net_dev b) = Ok x" "nd_dev_addr x = mac" "length mac = 6" "answers mac l L d os"
      "ours \<longrightarrow> good_reply b h d (curr_net_dev w) (xid w)" "client w' = client w1" "nb_protocol b = htons P ETH_P_IP"
      "recv_pkt_handler P (call_hdlr user P xf 1) (NB a) w0 = Ok (r, w1)"
      unfolding delivers_def by blast
    have "eth_ip (recv_ops w0) = Some H_dhcp_recv" using c(1) H by (metis client_sel(8))
    then have "dhcp_recv P (NB a) w0 = Ok (r, w1)" using c(2,13,14) by (simp add: recv_pkt_handler_def load_nb_NB)
    with that[OF c(1-11)] c(12) show thesis by blast
  qed
  note rc = dhcp_recv_opts[OF P c(2-5) dhcp_len_gap[OF c(6)] c(7), unfolded c(8), OF c(9)]
  have sel: "got_reply w0 = got_reply w" "xid w0 = xid w" "serv_addr w0 = serv_addr w" "curr_net_dev w0 = curr_net_dev w"
    using c(1) by (simp_all add: client_def)
  have o: "dhcp_ours b h d w0" if "ours" "\<not> got_reply w"
    using good_reply_ours[of b h d w0] c(6,11) that by (simp add: sel)
  have out: "client (freed a v) = client v" for v :: "('h, 'w) dhcp_world_scheme" by (simp add: client_def freed_def)
  have "if dhcp_ours b h d w0 then \<not> got_reply w \<and> client w' = (case next_client l L (client w) of None \<Rightarrow> client w | Some c \<Rightarrow> c)
      else client w' = client w"
  proof (cases "dhcp_ours b h d w0")
    case False
    then show ?thesis using rc c(1,12,13) by (simp add: out)
  next
    case True
    then have t: "dm_xid d = xid w0" "\<not> got_reply w0" by (simp_all add: dhcp_ours_def)
    have "asks L (xid w0) DHCP_REQUEST \<Longrightarrow> serv_addr w0 \<noteq> INADDR_NONE" using s sel by simp
    from reply_effect[OF l c(10) t this] show ?thesis using rc True c(1,12,13) t(2) sel(1) by (auto simp: out split: option.splits)
  qed
  then show "client w' = client w \<or> \<not> got_reply w \<and> next_client l L (client w) = Some (client w')"
    "ours \<Longrightarrow> \<not> got_reply w \<Longrightarrow> next_client l L (client w) \<noteq> None \<Longrightarrow> next_client l L (client w) = Some (client w')"
    using o by (auto split: if_splits option.splits)
qed

section \<open>Waiting for the answer\<close>

text \<open>The client is in the state \<open>u\<close>, which has no reply, or has taken the answer to the last request of \<open>L\<close>.\<close>

definition phase :: "dhcp_lease \<Rightarrow> net_buff list \<Rightarrow> dhcp_client \<Rightarrow> dhcp_client \<Rightarrow> bool" where
  "phase l L u c \<longleftrightarrow> \<not> cl_got u \<and> cl_hdlr u = Some H_dhcp_recv \<and>
     (asks L (cl_xid u) DHCP_REQUEST \<longrightarrow> cl_server u \<noteq> INADDR_NONE) \<and> (c = u \<or> next_client l L u = Some c)"

lemma next_client_got: "next_client l L u = Some c \<Longrightarrow> cl_got c"
  by (auto simp: next_client_def offered_def acked_def split: if_splits)

lemma phase_hdlr:
  fixes w :: "('h, 'w) dhcp_world_scheme"
  assumes l: "lease_ok l" and ph: "phase l L u (client w)"
  shows "eth_ip (recv_ops w) = Some H_dhcp_recv" "asks L (xid w) DHCP_REQUEST \<Longrightarrow> serv_addr w \<noteq> INADDR_NONE"
proof -
  have next_sel: "cl_hdlr c = cl_hdlr u" "cl_xid c = cl_xid u" "cl_server c \<in> {cl_server u, ls_server l}" if "next_client l L u = Some c" for c
    using that by (auto simp: next_client_def offered_def acked_def split: if_splits)
  have ls: "ls_server l \<noteq> INADDR_NONE" using l by (simp add: lease_ok_def)
  show "eth_ip (recv_ops w) = Some H_dhcp_recv" "asks L (xid w) DHCP_REQUEST \<Longrightarrow> serv_addr w \<noteq> INADDR_NONE"
    using ph next_sel[of "client w"] ls by (auto simp: phase_def)
qed

lemma phase_step:
  fixes w w' :: "('h, 'w) dhcp_world_scheme"
  assumes P: "swaps_ok P" and l: "lease_ok l" and ph: "phase l L u (client w)"
    and st: "client w' = client w \<or> (\<exists>ours. delivers mac l L P ours w w')"
  shows "phase l L u (client w')"
    and "delivers mac l L P True w w' \<Longrightarrow> next_client l L u = Some v \<Longrightarrow> client w' = v"
proof -
  note s = phase_hdlr[OF l ph]
  have eff: "client w' = client w \<or> \<not> got_reply w \<and> next_client l L (client w) = Some (client w')"
    "ours \<Longrightarrow> \<not> got_reply w \<Longrightarrow> next_client l L (client w) \<noteq> None \<Longrightarrow> next_client l L (client w) = Some (client w')"
    if "delivers mac l L P ours w w'" for ours
    by (rule delivers_effect[OF P l that s], assumption)+
  have got: "client w = u" if "\<not> got_reply w" using ph that next_client_got[of l L u "client w"] by (auto simp: phase_def)
  show "phase l L u (client w')" using st eff(1) got ph by (auto simp: phase_def)
  show "client w' = v" if D: "delivers mac l L P True w w'" and v: "next_client l L u = Some v"
  proof (cases "got_reply w")
    case True
    then have "client w = v" using ph v by (auto simp: phase_def)
    then show ?thesis using eff(1)[OF D] True by simp
  next
    case False
    then show ?thesis using eff(2)[OF D] got v by simp
  qed
qed

lemma dhcp_wait_answer:
  fixes w :: "('h, 'w) dhcp_world_scheme"
  assumes P: "swaps_ok P" and net: "dhcp_net P sent d k mac l m T S" and isr: "\<And>w. sent (hw (isr P w)) = sent (hw w)"
    and v: "next_client l L u = Some v"
  shows "S n w \<Longrightarrow> sent (hw w) = L \<Longrightarrow> phase l L u (client w) \<Longrightarrow> m (hw w) < t \<Longrightarrow>
    client (dhcp_wait P t w) = v \<and> S n (dhcp_wait P t w) \<and> sent (hw (dhcp_wait P t w)) = L"
proof (induction t arbitrary: w)
  case (Suc t)
  note N = dhcp_netD[OF net]
  show ?case
  proof (cases "got_reply w")
    case True
    then show ?thesis using Suc.prems v by (auto simp: phase_def)
  next
    case False
    have u: "client w = u" using Suc.prems(3) False next_client_got[of l L u "client w"] by (auto simp: phase_def)
    have "\<exists>t \<in> {DHCP_DISCOVER, DHCP_REQUEST}. asks L (xid w) t"
      using v by (auto simp: next_client_def u[symmetric] split: if_splits)
    moreover have "eth_ip (recv_ops w) = Some H_dhcp_recv" by (rule phase_hdlr(1)[OF N(1) Suc.prems(3)])
    ultimately have pr: "m (hw (isr P w)) < m (hw w) \<or> delivers mac l L P True w (isr P w)"
      using N(6)[OF Suc.prems(1) False] Suc.prems(2) by simp
    have st: "client (isr P w) = client w \<or> (\<exists>ours. delivers mac l L P ours w (isr P w))" using N(5)[OF Suc.prems(1)] Suc.prems(2) by simp
    note step = phase_step[OF P N(1) Suc.prems(3) st]
    have S': "S n (isr P w)" "sent (hw (isr P w)) = L" using N(4)[OF Suc.prems(1)] isr Suc.prems(2) by simp_all
    show ?thesis
    proof (cases "m (hw (isr P w)) < m (hw w)")
      case True
      then have "m (hw (isr P w)) < t" using Suc.prems(4) by simp
      from Suc.IH[OF S' step(1) this] False show ?thesis by simp
    next
      case no: False
      then have c: "client (isr P w) = v" using pr step(2) v by blast
      have "dhcp_wait P t (isr P w) = isr P w"
        using c next_client_got[OF v] by (cases t) auto
      then show ?thesis using c S' False by simp
    qed
  qed
qed simp

text \<open>An interrupt that can change nothing: no answer is possible, or the handler is not registered any more.\<close>

lemma isr_quiet:
  fixes w :: "('h, 'w) dhcp_world_scheme"
  assumes P: "swaps_ok P" and net: "dhcp_net P sent d k mac l m T S" and isr: "\<And>w. sent (hw (isr P w)) = sent (hw w)"
    and S: "S n w" and L: "sent (hw w) = L" and ph: "phase l L u (client w)"
    and q: "got_reply w \<or> next_client l L (client w) = None"
  shows "client (isr P w) = client w \<and> S n (isr P w) \<and> sent (hw (isr P w)) = L"
proof -
  note N = dhcp_netD[OF net]
  note H = phase_hdlr[OF N(1) ph]
  have "client (isr P w) = client w" using N(5)[OF S] delivers_effect(1)[OF P N(1) _ H] q unfolding L by fastforce
  then show ?thesis using N(4)[OF S] isr[of w] L by simp
qed

lemma isr_closed:
  fixes w :: "('h, 'w) dhcp_world_scheme"
  assumes net: "dhcp_net P sent d k mac l m T S" and S: "S n w" and H: "eth_ip (recv_ops w) = None"
  shows "client (isr P w) = client w"
proof -
  have "client w' = client w" if D: "delivers mac l L P ours w w'" for L ours w'
  proof -
    obtain w0 w1 :: "('h, 'w) dhcp_world_scheme" and a b r user xf where c: "client w0 = client w" "nbs w0 a = Some b"
      "nb_protocol b = htons P ETH_P_IP" "recv_pkt_handler P (call_hdlr user P xf 1) (NB a) w0 = Ok (r, w1)" "client w' = client w1"
      using D unfolding delivers_def by blast
    have "eth_ip (recv_ops w0) = None" using c(1) H by (metis client_sel(8))
    then have "w1 = w0\<lparr>nbs := (nbs w0)(a := None)\<rparr>"
      using c(2,3,4) by (simp add: recv_pkt_handler_def load_nb_NB drop_nb_Ok)
    then show ?thesis using c(1,5) by (simp add: client_def)
  qed
  then show ?thesis using dhcp_netD(5)[OF net S] by blast
qed

section \<open>One round of the exchange\<close>

lemma request_asks:
  assumes "nb_mem b = bc @ da @ be16 ETH_P_IP @ ip_bytes h @ request_bytes x s my mac" "length bc = 6" "length da = 6"
    and "ih_src h = le32 0" "ih_dst h = le32 0xFFFFFFFF"
    and "opt_scan (dhcp_opt (nb_mem b)) (nb_mem b) 590 282 (INADDR_NONE, None) = Ok (s, Some t)"
  shows "asks (L @ [b]) x t \<and> drop 34 (nb_mem b) = request_bytes x s my mac"
proof -
  have "drop 34 (nb_mem b) = request_bytes x s my mac" using assms(2-5) unfolding assms(1) by (simp add: ip_bytes_def)
  moreover from this have "bslice 46 4 (nb_mem b) = bslice 12 4 (request_bytes x s my mac)"
    by (simp add: bslice_def flip: \<open>drop 34 (nb_mem b) = request_bytes x s my mac\<close>)
  moreover have "bslice 12 4 (request_bytes x s my mac) = le32 x" by (simp add: request_bytes_def bslice_def)
  ultimately show ?thesis using assms(6) by (simp add: asks_def Let_def)
qed

text \<open>The request in its buffer, handed to the driver.\<close>

lemma request_made:
  fixes w :: "('h, 'w) dhcp_world_scheme"
  assumes P: "swaps_ok P" and room: "dhcp_room P d k mac S" and S: "S (Suc n) w"
  obtains a b w1 where "dhcp_send_request P xfuel w = bnd (netdev_list_xmit P xfuel (NB a) w1) (\<lambda>(_, w). Ok w)"
    "nbs w1 a = Some b" "nb_net_dev b = d" "nb_next b = NULLP" "S n w1" "tx_ready d k w1" "client w1 = client w" "hw w1 = hw w"
    "drop 34 (nb_mem b) = request_bytes (xid w) (serv_addr w) (my_ip w) mac"
    "\<And>L. asks (L @ [b]) (xid w) (if serv_addr w = INADDR_NONE then DHCP_DISCOVER else DHCP_REQUEST)"
proof -
  note R = dhcp_roomD[OF room]
  obtain x where x: "eth_dev d w x" "nd_dev_addr x = mac" using R(4)[OF S] by blast
  obtain a w1 where al: "net_buff_alloc 590 w = (NB a, w1)" and w1: "hw w1 = hw w" "client w1 = client w" "devs w1 = devs w"
  proof -
    obtain p w1 where al: "net_buff_alloc 590 w = (p, w1)" by fastforce
    then show thesis
    proof (cases rule: net_buff_alloc_cases)
      case (ok a ms j)
      from that[OF al[unfolded ok(1)]] ok(5) show thesis by (simp add: client_def)
    qed (use R(3)[OF S] in simp)
  qed
  obtain b h where b: "dhcp_send_request P xfuel w = bnd (netdev_list_xmit P xfuel (NB a) (w1\<lparr>nbs := (nbs w1)(a \<mapsto> b)\<rparr>)) (\<lambda>(_, w). Ok w)"
    "nb_net_dev b = d" "nb_next b = NULLP"
    "nb_mem b = nd_broadcast x @ nd_dev_addr x @ be16 ETH_P_IP @ ip_bytes h @ request_bytes (xid w) (serv_addr w) (my_ip w) (nd_dev_addr x)"
    "ih_src h = le32 0" "ih_dst h = le32 0xFFFFFFFF"
    "opt_scan (dhcp_opt (nb_mem b)) (nb_mem b) 590 282 (INADDR_NONE, None) =
      Ok (serv_addr w, Some (if serv_addr w = INADDR_NONE then DHCP_DISCOVER else DHCP_REQUEST))"
    using dhcp_request_handed[OF P R(1)[OF S] x(1) al, of xfuel] by blast
  have mac: "length (nd_broadcast x) = 6" "length (nd_dev_addr x) = 6" using x(1) by (simp_all add: eth_dev_def mac_ok_def)
  note ask = request_asks[OF b(4) mac b(5-7)]
  show thesis
  proof (rule that[OF b(1) _ b(2,3)])
    show "S n (w1\<lparr>nbs := (nbs w1)(a \<mapsto> b)\<rparr>)" by (rule R(5)[OF S al])
    show "drop 34 (nb_mem b) = request_bytes (xid w) (serv_addr w) (my_ip w) mac" using ask x(2) by simp
  qed (use ask w1 R(2)[OF S] in \<open>simp_all add: client_def tx_ready_def\<close>)
qed

text \<open>The frame goes out once, whatever the server does meanwhile.\<close>

lemma dhcp_sent_env:
  fixes w :: "('h, 'w) dhcp_world_scheme"
  assumes P: "swaps_ok P" and drv: "tx_driver P sent m K d k q" and net: "dhcp_net P sent d k mac l s T S"
    and xf: "Suc K < xfuel" and S: "S n w" and tx: "tx_ready d k w"
    and b: "nbs w a = Some b" "nb_next b = NULLP"
    and ph: "phase l (sent (hw w)) (client w) (client w)" "phase l (sent (hw w) @ [b]) (client w) (client w)"
    and old: "next_client l (sent (hw w)) (client w) = None"
  shows "\<exists>r w2. list_xmit_loop P xfuel d (NB a) NETDEV_TX_BUSY w = Ok (NULLP, r, w2) \<and> net_dev_xmit_complete r \<and> S n w2 \<and>
    phase l (sent (hw w) @ [b]) (client w) (client w2) \<and> sent (hw w2) = sent (hw w) @ [b]"
proof -
  note N = dhcp_netD[OF net] and R = dhcp_roomD[OF dhcp_netD(3)[OF net]] and I = tx_driver_isr[OF drv]
  let ?L = "sent (hw w)" and ?u = "client w"
  let ?Q = "\<lambda>w. S n w \<and> phase l ?L ?u (client w)" and ?R = "\<lambda>w. S n w \<and> phase l (?L @ [b]) ?u (client w)"
  have step: "S n (isr P w)" "phase l L ?u (client (isr P w))"
    if "S n w" "phase l L ?u (client w)" "sent (hw w) = L" for w :: "('h, 'w) dhcp_world_scheme" and L
    using N(4)[OF that(1)] phase_step(1)[OF P N(1) that(2)] N(5)[OF that(1)] that(3) by blast+
  obtain f where f: "op_start_tx (ops P k) = Some f" using drv unfolding tx_driver_def by blast
  have "\<exists>r w2. list_xmit_loop P xfuel d (NB a) NETDEV_TX_BUSY w = Ok (NULLP, r, w2) \<and> net_dev_xmit_complete r \<and> ?R w2 \<and> sent (hw w2) = ?L @ [b]"
  proof (rule list_xmit_env[OF drv f, where Q = ?Q])
    show "?Q (isr P v)" if "?Q v" "sent (hw v) = ?L" for v using step[of v ?L] that by blast
    show "?Q (snd (f (NB a) d v))" if "?Q v" for v using R(9,10)[OF _ f, of n v] that by simp
    show "?R (isr P v)" if "?Q v" "sent (hw v) = ?L @ [b]" for v
    proof -
      have "client v = ?u" using that(1) old by (auto simp: phase_def)
      then show ?thesis using step[of v "?L @ [b]"] that ph(2) by simp
    qed
    show "left m d w + 1 < xfuel" using I(7)[of w] xf by simp
  qed (use tx b ph(1) S in simp_all)
  then show ?thesis by blast
qed

text \<open>From the interrupts before the request to the second test after the wait.\<close>

definition dhcp_heard :: "('h, 'w) dhcp_world_scheme platform \<Rightarrow> nat \<Rightarrow> ('h, 'w) dhcp_world_scheme \<Rightarrow> ('h, 'w) dhcp_world_scheme" where
  "dhcp_heard P t w = isr P (isr P (dhcp_wait P t w))"

lemma dhcp_round:
  fixes w :: "('h, 'w) dhcp_world_scheme"
  assumes P: "swaps_ok P" and drv: "tx_driver P sent m K d k q" and net: "dhcp_net P sent d k mac l s T S"
    and xf: "Suc K < xfuel" and t: "T \<le> t" and S: "S (Suc n) w"
    and u: "\<not> got_reply w" "eth_ip (recv_ops w) = Some H_dhcp_recv" "serv_addr w = INADDR_NONE \<Longrightarrow> my_ip w = INADDR_NONE"
    and old: "next_client l (sent (hw w)) (client w) = None"
  defines "v \<equiv> (if serv_addr w = INADDR_NONE then offered l (client w) else acked l (client w))"
  shows "\<exists>w1 b. dhcp_send_request P xfuel (isr P w) = Ok w1 \<and> drop 34 (nb_mem b) = request_bytes (xid w) (serv_addr w) (my_ip w) mac \<and>
    asks (sent (hw w) @ [b]) (xid w) (if serv_addr w = INADDR_NONE then DHCP_DISCOVER else DHCP_REQUEST) \<and>
    got_reply (isr P (dhcp_wait P t w1)) \<and> client (dhcp_heard P t w1) = v \<and>
    S n (dhcp_heard P t w1) \<and> sent (hw (dhcp_heard P t w1)) = sent (hw w) @ [b] \<and> phase l (sent (hw w) @ [b]) (client w) v"
proof -
  note N = dhcp_netD[OF net] and I = tx_driver_isr[OF drv]
  let ?L = "sent (hw w)" and ?u = "client w" and ?w = "isr P w"
  have ph0: "phase l ?L ?u ?u" using old u(1,2) by (auto simp: phase_def next_client_def split: if_splits)
  have w: "client ?w = ?u" "S (Suc n) ?w" "sent (hw ?w) = ?L"
    using isr_quiet[OF P net I(2) S refl ph0] old by blast+
  have sel: "xid ?w = xid w" "serv_addr ?w = serv_addr w" "my_ip ?w = my_ip w" using w(1) by (metis client_sel)+
  from request_made[OF P N(3) w(2)] obtain a b w1 where
    b: "dhcp_send_request P xfuel ?w = bnd (netdev_list_xmit P xfuel (NB a) w1) (\<lambda>(_, w). Ok w)" "nbs w1 a = Some b" "nb_net_dev b = d"
      "nb_next b = NULLP" "S n w1" "tx_ready d k w1"
    and w1: "client w1 = client ?w" "hw w1 = hw ?w" and req: "drop 34 (nb_mem b) = request_bytes (xid ?w) (serv_addr ?w) (my_ip ?w) mac"
      "\<And>L. asks (L @ [b]) (xid ?w) (if serv_addr ?w = INADDR_NONE then DHCP_DISCOVER else DHCP_REQUEST)"
    by metis
  note ask = req(2)[of ?L, unfolded sel]
  have new: "next_client l (?L @ [b]) ?u = Some v"
    using ask u(3) asks_fun[of "?L @ [b]" "xid w" DHCP_REQUEST "xid w" DHCP_DISCOVER]
    by (auto simp: next_client_def v_def)
  have "serv_addr w \<noteq> INADDR_NONE" if "asks (?L @ [b]) (xid w) DHCP_REQUEST"
    using asks_fun[OF ask that] by (auto split: if_splits)
  then have ph: "phase l (?L @ [b]) ?u ?u" using u(1,2) by (auto simp: phase_def)
  obtain r w2 where w2: "list_xmit_loop P xfuel d (NB a) NETDEV_TX_BUSY w1 = Ok (NULLP, r, w2)" "net_dev_xmit_complete r"
    "S n w2" "phase l (?L @ [b]) ?u (client w2)" "sent (hw w2) = ?L @ [b]"
    using dhcp_sent_env[OF P drv net xf b(5,6,2,4)] w w1 ph0 ph old by auto
  have "dhcp_send_request P xfuel ?w = Ok w2" using b(1,2,3) w2(1,2) by (simp add: netdev_list_xmit_def load_nb_NB)
  moreover have "s (hw w2) < t" using N(2)[of "hw w2"] t by simp
  note wait = dhcp_wait_answer[OF P net I(2) new w2(3,5,4) this]
  have phv: "phase l (?L @ [b]) ?u v" using ph new by (simp add: phase_def)
  have g: "cl_got v" by (rule next_client_got[OF new])
  have quiet: "client (isr P x) = v \<and> S n (isr P x) \<and> sent (hw (isr P x)) = ?L @ [b]"
    if "client x = v \<and> S n x \<and> sent (hw x) = ?L @ [b]" for x
    using isr_quiet[OF P net I(2), of n x "?L @ [b]" ?u] that phv g by (metis client_sel(5))
  have got: "got_reply x" if "client x = v" for x :: "('h, 'w) dhcp_world_scheme" using g that by (metis client_sel(5))
  from quiet[OF wait] quiet[OF quiet[OF wait]] got
  have "got_reply (isr P (dhcp_wait P t w2)) \<and> client (dhcp_heard P t w2) = v \<and> S n (dhcp_heard P t w2) \<and>
      sent (hw (dhcp_heard P t w2)) = ?L @ [b]" unfolding dhcp_heard_def by blast
  ultimately show ?thesis using ask req(1)[unfolded sel] phv by blast
qed

section \<open>The whole exchange\<close>

lemma exchange_rounds:
  fixes w :: "('h, 'w) dhcp_world_scheme"
  assumes P: "swaps_ok P" and drv: "tx_driver P sent m K d k q" and net: "dhcp_net P sent d k mac l s T S"
    and f: "T \<le> f_cpu div 4" "2 \<le> fuel" "Suc K < xfuel" and S: "S 2 w"
    and u: "\<not> got_reply w" "eth_ip (recv_ops w) = Some H_dhcp_recv" "my_ip w = INADDR_NONE" "serv_addr w = INADDR_NONE"
    and old: "\<forall>t. \<not> asks (sent (hw w)) (xid w) t"
  shows "\<exists>e b c. dhcp_loop P f_cpu xfuel fuel 6 w = Ok e \<and> client (isr P e) = acked l ((offered l (client w))\<lparr>cl_got := False\<rparr>) \<and>
    S 0 (isr P e) \<and> sent (hw (isr P e)) = sent (hw w) @ [b, c] \<and> asks (sent (hw w) @ [b]) (xid w) DHCP_DISCOVER \<and>
    asks (sent (hw w) @ [b, c]) (xid w) DHCP_REQUEST \<and>
    drop 34 (nb_mem b) = request_bytes (xid w) INADDR_NONE INADDR_NONE mac \<and>
    drop 34 (nb_mem c) = request_bytes (xid w) (ls_server l) (ls_addr l) mac"
proof -
  note I = tx_driver_isr[OF drv]
  let ?L = "sent (hw w)" and ?heard = "dhcp_heard P (f_cpu div 4)"
  have "next_client l ?L (client w) = None" using old by (simp add: next_client_def)
  from dhcp_round[OF P drv net f(3,1) S[unfolded numeral_2_eq_2] u(1,2) u(3) this] u(3,4)
  obtain w1 b where 1: "dhcp_send_request P xfuel (isr P w) = Ok w1"
    "drop 34 (nb_mem b) = request_bytes (xid w) INADDR_NONE INADDR_NONE mac" "asks (?L @ [b]) (xid w) DHCP_DISCOVER"
    "got_reply (isr P (dhcp_wait P (f_cpu div 4) w1))"
    "client (?heard w1) = offered l (client w)" "S 1 (?heard w1)" "sent (hw (?heard w1)) = ?L @ [b]" "phase l (?L @ [b]) (client w) (offered l (client w))"
    by auto
  have first: "got_reply (?heard w1)" "dhcp_msg_type (?heard w1) = DHCP_OFFER"
    using arg_cong[OF 1(5), of cl_got] arg_cong[OF 1(5), of cl_type] by (simp_all add: offered_def)
  let ?a = "isr P (?heard w1)"
  have a: "client ?a = offered l (client w)" "S 1 ?a" "sent (hw ?a) = ?L @ [b]"
    using isr_quiet[OF P net I(2) 1(6,7) 1(8)[folded 1(5)]] first(1) 1(5) by simp_all
  let ?v = "?a\<lparr>got_reply := False\<rparr>"
  have vc: "client ?v = (offered l (client w))\<lparr>cl_got := False\<rparr>" unfolding client_reply a(1) ..
  have ls: "ls_server l \<noteq> INADDR_NONE" "ls_addr l \<noteq> INADDR_NONE" using dhcp_netD(1)[OF net] by (simp_all add: lease_ok_def)
  have "cl_xid (client ?v) = xid w" "cl_server (client ?v) = ls_server l" "cl_ip (client ?v) = ls_addr l" "\<not> cl_got (client ?v)"
    "cl_hdlr (client ?v) = Some H_dhcp_recv"
    unfolding vc using u(2) by (simp_all add: offered_def)
  note v = this[unfolded client_sel]
  have "\<not> asks (?L @ [b]) (xid w) DHCP_REQUEST" using asks_fun[OF 1(3)] offer_ack_neq(4) by blast
  then have old': "next_client l (sent (hw ?v)) (client ?v) = None" using v(1,3) ls(2) a(3) by (simp add: next_client_def)
  have "S (Suc 0) ?v" using dhcp_roomD(6)[OF dhcp_netD(3)[OF net] a(2)] by simp
  from dhcp_round[OF P drv net f(3,1) this v(4,5) _ old'] v(1,2,3) ls a(3)
  obtain w2 c where 2: "dhcp_send_request P xfuel (isr P ?v) = Ok w2"
    "drop 34 (nb_mem c) = request_bytes (xid w) (ls_server l) (ls_addr l) mac" "asks (?L @ [b, c]) (xid w) DHCP_REQUEST"
    "got_reply (isr P (dhcp_wait P (f_cpu div 4) w2))"
    "client (?heard w2) = acked l (client ?v)" "S 0 (?heard w2)" "sent (hw (?heard w2)) = ?L @ [b, c]"
    "phase l (?L @ [b, c]) (client ?v) (acked l (client ?v))"
    by auto
  have second: "got_reply (?heard w2)" "dhcp_msg_type (?heard w2) = DHCP_ACK"
    using arg_cong[OF 2(5), of cl_got] arg_cong[OF 2(5), of cl_type] by (simp_all add: acked_def)
  have e: "client (isr P (?heard w2)) = acked l (client ?v)" "S 0 (isr P (?heard w2))" "sent (hw (isr P (?heard w2))) = ?L @ [b, c]"
    using isr_quiet[OF P net I(2) 2(6,7) 2(8)[folded 2(5)]] second(1) 2(5) by simp_all
  obtain n where "fuel = 2 + n" using f(2) le_Suc_ex by blast
  then have "dhcp_loop P f_cpu xfuel fuel 6 w = Ok (?heard w2)"
    using 1(1,4) 2(1,4) first second by (simp add: Let_def dhcp_heard_def)
  then show ?thesis using e[unfolded vc] 1(2,3) 2(2,3) by blast
qed

section \<open>Without a server\<close>

text \<open>A request of a client with the address \<open>my\<close> for the server \<open>s\<close>, which are unset in a DISCOVER.\<close>

definition requests :: "uint32_t \<Rightarrow> uint32_t \<Rightarrow> bytes \<Rightarrow> net_buff \<Rightarrow> bool" where
  "requests s my mac b \<longleftrightarrow> (\<exists>x. drop 34 (nb_mem b) = request_bytes x s my mac \<and>
     asks [b] x (if s = INADDR_NONE then DHCP_DISCOVER else DHCP_REQUEST))"

lemma silent_isr:
  assumes "dhcp_silent P d k mac S" "tx_driver P sent m K d k q" "S n w"
  shows "S n (isr P w)" "client (isr P w) = client w" "sent (hw (isr P w)) = sent (hw w)"
  using assms(1,3) tx_driver_isr(2)[OF assms(2), of w] by (simp_all add: dhcp_silent_def)

lemma silent_request:
  fixes w :: "('h, 'w) dhcp_world_scheme"
  assumes P: "swaps_ok P" and drv: "tx_driver P sent m K d k q" and net: "dhcp_silent P d k mac S"
    and xf: "Suc K < xfuel" and S: "S (Suc n) w"
  shows "\<exists>w2 b. dhcp_send_request P xfuel w = Ok w2 \<and> S n w2 \<and> client w2 = client w \<and> sent (hw w2) = sent (hw w) @ [b] \<and>
    requests (serv_addr w) (my_ip w) mac b"
proof -
  have room: "dhcp_room P d k mac S" using net by (simp add: dhcp_silent_def)
  note N = silent_isr[OF net drv] and R = dhcp_roomD[OF room]
  from request_made[OF P room S] obtain a b w1 where
    b: "dhcp_send_request P xfuel w = bnd (netdev_list_xmit P xfuel (NB a) w1) (\<lambda>(_, w). Ok w)" "nbs w1 a = Some b" "nb_net_dev b = d"
      "nb_next b = NULLP" "S n w1" "tx_ready d k w1" "client w1 = client w" "hw w1 = hw w"
    and req: "drop 34 (nb_mem b) = request_bytes (xid w) (serv_addr w) (my_ip w) mac"
      "\<And>L. asks (L @ [b]) (xid w) (if serv_addr w = INADDR_NONE then DHCP_DISCOVER else DHCP_REQUEST)"
    by metis
  let ?Q = "\<lambda>v. S n v \<and> client v = client w" and ?L = "sent (hw w)"
  obtain f where f: "op_start_tx (ops P k) = Some f" using drv unfolding tx_driver_def by blast
  have "\<exists>r w2. list_xmit_loop P xfuel d (NB a) NETDEV_TX_BUSY w1 = Ok (NULLP, r, w2) \<and> net_dev_xmit_complete r \<and> ?Q w2 \<and> sent (hw w2) = ?L @ [b]"
  proof (rule list_xmit_env[OF drv f, where Q = ?Q])
    show "left m d w1 + 1 < xfuel" using tx_driver_isr(7)[OF drv, of w1] xf by simp
    show "?Q (snd (f (NB a) d v))" if "?Q v" for v using R(9,10)[OF _ f, of n v] that by simp
    show "?Q (isr P v)" if "?Q v" for v using N[of n v] that by simp
    show "?Q (isr P v)" if "?Q v" for v using N[of n v] that by simp
  qed (use b in simp_all)
  then obtain r w2 where "list_xmit_loop P xfuel d (NB a) NETDEV_TX_BUSY w1 = Ok (NULLP, r, w2)" "net_dev_xmit_complete r" "?Q w2"
    "sent (hw w2) = ?L @ [b]" by blast
  moreover have "requests (serv_addr w) (my_ip w) mac b" using req(1) req(2)[of "[]"] by (auto simp: requests_def)
  ultimately show ?thesis using b by (simp add: netdev_list_xmit_def load_nb_NB)
qed

lemma silent_wait:
  fixes w :: "('h, 'w) dhcp_world_scheme"
  assumes net: "dhcp_silent P d k mac S" and drv: "tx_driver P sent m K d k q"
  shows "S n w \<Longrightarrow> S n (dhcp_wait P t w) \<and> client (dhcp_wait P t w) = client w \<and> sent (hw (dhcp_wait P t w)) = sent (hw w)"
  using silent_isr[OF net drv] by (induction t arbitrary: w) auto

text \<open>One time-out.\<close>

lemma silent_round:
  fixes w :: "('h, 'w) dhcp_world_scheme"
  assumes P: "swaps_ok P" and drv: "tx_driver P sent m K d k q" and net: "dhcp_silent P d k mac S"
    and xf: "Suc K < xfuel" and S: "S (Suc n) w" and g: "\<not> got_reply w"
  shows "\<exists>w2 b. dhcp_loop P f_cpu xfuel (Suc fuel) r w =
      (if r - 1 = 0 then Ok w2 else dhcp_loop P f_cpu xfuel fuel (r - 1) (xid_gen (isr P w2))) \<and>
    S n w2 \<and> client w2 = client w \<and> sent (hw w2) = sent (hw w) @ [b] \<and> requests (serv_addr w) (my_ip w) mac b"
proof -
  note N = silent_isr[OF net drv] and W = silent_wait[OF net drv, of n _ "f_cpu div 4"]
  have sel: "serv_addr (isr P w) = serv_addr w" "my_ip (isr P w) = my_ip w" using N(2)[OF S] by (metis client_sel)+
  obtain w1 b where 1: "dhcp_send_request P xfuel (isr P w) = Ok w1" "S n w1" "client w1 = client w" "sent (hw w1) = sent (hw w) @ [b]"
    "requests (serv_addr w) (my_ip w) mac b"
    using silent_request[OF P drv net xf N(1)[OF S]] N(2,3)[OF S] sel by auto
  let ?w2 = "isr P (dhcp_wait P (f_cpu div 4) w1)"
  have 2: "S n ?w2" "client ?w2 = client w" "sent (hw ?w2) = sent (hw w) @ [b]" using N[of n "dhcp_wait P (f_cpu div 4) w1"] W[of w1] 1 by simp_all
  then have "\<not> got_reply ?w2" using g by (metis client_sel(5))
  then show ?thesis using 1 2 by (intro exI[of _ ?w2] exI[of _ b]) (simp add: Let_def)
qed

lemma silent_rounds:
  fixes w :: "('h, 'w) dhcp_world_scheme"
  assumes P: "swaps_ok P" and drv: "tx_driver P sent m K d k q" and net: "dhcp_silent P d k mac S" and xf: "Suc K < xfuel"
  shows "S (Suc j) w \<Longrightarrow> \<not> got_reply w \<Longrightarrow> j < 127 \<Longrightarrow>
    if j < fuel then \<exists>e bs. dhcp_loop P f_cpu xfuel fuel (of_nat (Suc j)) w = Ok e \<and> S 0 e \<and> \<not> got_reply e \<and>
        sent (hw e) = sent (hw w) @ bs \<and> length bs = Suc j \<and> (\<forall>b \<in> set bs. requests (serv_addr w) (my_ip w) mac b)
    else dhcp_loop P f_cpu xfuel fuel (of_nat (Suc j)) w = Fault Out_of_fuel"
proof (induction j arbitrary: w fuel)
  case 0
  show ?case
  proof (cases fuel)
    case (Suc f)
    obtain w2 b where 1: "dhcp_loop P f_cpu xfuel fuel 1 w = Ok w2" "S 0 w2" "client w2 = client w" "sent (hw w2) = sent (hw w) @ [b]"
      "requests (serv_addr w) (my_ip w) mac b"
      using silent_round[OF P drv net xf 0(1,2), of f_cpu f 1] unfolding Suc by auto
    moreover have "\<not> got_reply w2" using 1(3) 0(2) by (metis client_sel(5))
    ultimately have "dhcp_loop P f_cpu xfuel fuel (of_nat (Suc 0)) w = Ok w2 \<and> S 0 w2 \<and> \<not> got_reply w2 \<and>
        sent (hw w2) = sent (hw w) @ [b] \<and> length [b] = Suc 0 \<and> (\<forall>b \<in> set [b]. requests (serv_addr w) (my_ip w) mac b)" by simp
    then show ?thesis using Suc by (simp only: zero_less_Suc if_True) blast
  qed simp
next
  case (Suc j)
  show ?case
  proof (cases fuel)
    case f: (Suc f)
    let ?r = "of_nat (Suc (Suc j)) :: int8_t"
    have r: "?r - 1 = of_nat (Suc j)" by simp
    have "unat (of_nat (Suc j) :: int8_t) = Suc j" by (rule unat_of_nat8) (use Suc.prems(3) in simp)
    then have nz: "?r - 1 \<noteq> 0" unfolding r by (metis Zero_not_Suc unat_0)
    obtain w2 b where 1: "dhcp_loop P f_cpu xfuel fuel ?r w = dhcp_loop P f_cpu xfuel f (of_nat (Suc j)) (xid_gen (isr P w2))"
      "S (Suc j) w2" "client w2 = client w" "sent (hw w2) = sent (hw w) @ [b]" "requests (serv_addr w) (my_ip w) mac b"
      using silent_round[OF P drv net xf Suc.prems(1,2), of f_cpu f ?r] nz unfolding f r by (metis (no_types, lifting))
    let ?v = "xid_gen (isr P w2)"
    note N = silent_isr[OF net drv 1(2)]
    have "dhcp_room P d k mac S" using net by (simp add: dhcp_silent_def)
    from dhcp_roomD(7)[OF this N(1)] have S: "S (Suc j) ?v" .
    have cv: "client ?v = (client (isr P w2))\<lparr>cl_xid := xid ?v\<rparr>" "sent (hw ?v) = sent (hw (isr P w2))"
      by (simp_all add: client_def xid_gen_def rand_def Let_def)
    have "cl_got (client ?v) = got_reply w" "cl_server (client ?v) = serv_addr w" "cl_ip (client ?v) = my_ip w"
      unfolding cv(1) N(2) 1(3) by simp_all
    note v = this[unfolded client_sel]
    have IH: "if j < f then \<exists>e bs. dhcp_loop P f_cpu xfuel f (of_nat (Suc j)) ?v = Ok e \<and> S 0 e \<and> \<not> got_reply e \<and>
        sent (hw e) = (sent (hw w) @ [b]) @ bs \<and> length bs = Suc j \<and> (\<forall>b \<in> set bs. requests (serv_addr w) (my_ip w) mac b)
      else dhcp_loop P f_cpu xfuel f (of_nat (Suc j)) ?v = Fault Out_of_fuel"
      using Suc.IH[OF S, of f] Suc.prems(2,3) unfolding v cv(2) N(3) 1(4) by simp
    show ?thesis
    proof (cases "j < f")
      case True
      with IH obtain e bs where e: "dhcp_loop P f_cpu xfuel f (of_nat (Suc j)) ?v = Ok e" "S 0 e" "\<not> got_reply e"
        "sent (hw e) = (sent (hw w) @ [b]) @ bs" "length bs = Suc j" "\<forall>b \<in> set bs. requests (serv_addr w) (my_ip w) mac b" by auto
      have "dhcp_loop P f_cpu xfuel fuel ?r w = Ok e \<and> S 0 e \<and> \<not> got_reply e \<and> sent (hw e) = sent (hw w) @ b # bs \<and>
          length (b # bs) = Suc (Suc j) \<and> (\<forall>b \<in> set (b # bs). requests (serv_addr w) (my_ip w) mac b)"
        using 1(1,5) e by simp
      then have "\<exists>e bs. dhcp_loop P f_cpu xfuel fuel ?r w = Ok e \<and> S 0 e \<and> \<not> got_reply e \<and> sent (hw e) = sent (hw w) @ bs \<and>
          length bs = Suc (Suc j) \<and> (\<forall>b \<in> set bs. requests (serv_addr w) (my_ip w) mac b)" by blast
      then show ?thesis using True f by (simp only: Suc_less_eq if_True)
    next
      case False
      then show ?thesis using 1(1) IH f by (simp only: Suc_less_eq if_False)
    qed
  qed simp
qed

section \<open>Properties\<close>

text \<open>C4: with a DHCP server on the network the exchange succeeds: from an unconfigured host (no address, no server and
  no pending reply; nothing asked yet with the new transaction number), on a device that is up, with memory for two
  requests, \<open>dhcp\<close> returns 0 after exactly two frames, a DISCOVER and a REQUEST that
  names the server and the address of the offer, both with the transaction number of the exchange; the
  address and the server are the offered ones, and the mask, the gateway and the name server those of the options
  of the offer and then of the acknowledgement.  It is enough that a good reply (\<open>answers\<close>, \<open>opts_at\<close>, \<open>good_reply\<close>: for the hardware address
  of the host, without a relay, with well-formed options and correct headers; in particular the low
  byte of its UDP length is in \<open>1..128\<close>, since the client ignores the others) arrives within the \<open>F_CPU / 4\<close>
  polls of each time-out; more answers to the same request do no harm.  Two rounds of the loop suffice.\<close>

theorem dhcp_configures:
  fixes w :: "('h, 'w) dhcp_world_scheme"
  assumes "swaps_ok P" "tx_driver P sent m K d k q" "dhcp_net P sent d k mac l s T S"
    and "T \<le> f_cpu div 4" "2 \<le> fuel" "2 * Suc K \<le> xfuel" "S 2 (pkt_hdlr_add ETH_P_IP (Some H_dhcp_recv) (xid_gen w))"
    and "my_ip w = INADDR_NONE" "serv_addr w = INADDR_NONE" "\<not> got_reply w"
    and "\<forall>t. \<not> asks (sent (hw w)) (xid (xid_gen w)) t"
  shows "\<exists>w' b c. dhcp P f_cpu xfuel fuel w = Ok (0, w') \<and> my_ip w' = ls_addr l \<and> serv_addr w' = ls_server l \<and>
    (net_mask w', gateway w', dns_serv w') =
      opts_do net_effect (ls_ack l) (opts_do net_effect (ls_offer l) (net_mask w, gateway w, dns_serv w)) \<and>
    sent (hw w') = sent (hw w) @ [b, c] \<and> asks (sent (hw w) @ [b]) (xid w') DHCP_DISCOVER \<and>
    asks (sent (hw w) @ [b, c]) (xid w') DHCP_REQUEST \<and>
    drop 34 (nb_mem b) = request_bytes (xid w') INADDR_NONE INADDR_NONE mac \<and>
    drop 34 (nb_mem c) = request_bytes (xid w') (ls_server l) (ls_addr l) mac"
proof -
  let ?w = "pkt_hdlr_add ETH_P_IP (Some H_dhcp_recv) (xid_gen w)"
  have w: "client ?w = (client w)\<lparr>cl_xid := xid (xid_gen w), cl_hdlr := Some H_dhcp_recv\<rparr>" "hw ?w = hw w"
    by (simp_all add: client_def pkt_hdlr_add_def xid_gen_def rand_def Let_def)
  have "cl_ip (client ?w) = INADDR_NONE" "cl_server (client ?w) = INADDR_NONE" "\<not> cl_got (client ?w)"
    "cl_hdlr (client ?w) = Some H_dhcp_recv" "cl_xid (client ?w) = xid (xid_gen w)"
    unfolding w(1) using assms(8-10) by simp_all
  note u = this[unfolded client_sel]
  have "\<forall>t. \<not> asks (sent (hw ?w)) (xid ?w) t" "Suc K < xfuel" using assms(6,11) unfolding u(5) w(2) by simp_all
  from exchange_rounds[OF assms(1-5) this(2) assms(7) u(3,4,1,2) this(1)] obtain e b c where
    e: "dhcp_loop P f_cpu xfuel fuel 6 ?w = Ok e" "client (isr P e) = acked l ((offered l (client ?w))\<lparr>cl_got := False\<rparr>)" "S 0 (isr P e)"
    and bc: "sent (hw (isr P e)) = sent (hw w) @ [b, c]" "asks (sent (hw w) @ [b]) (xid ?w) DHCP_DISCOVER"
      "asks (sent (hw w) @ [b, c]) (xid ?w) DHCP_REQUEST"
      "drop 34 (nb_mem b) = request_bytes (xid ?w) INADDR_NONE INADDR_NONE mac"
      "drop 34 (nb_mem c) = request_bytes (xid ?w) (ls_server l) (ls_addr l) mac"
    unfolding w(2) by blast
  let ?d = "pkt_hdlr_del ETH_P_IP (isr P e)"
  let ?f = "isr P ?d"
  have "S 0 ?d" by (rule dhcp_roomD(8)[OF dhcp_netD(3)[OF assms(3)] e(3)])
  then have "client ?f = client ?d" by (rule isr_closed[OF assms(3)]) simp
  then have f: "client ?f = (client (isr P e))\<lparr>cl_hdlr := None\<rparr>" "sent (hw ?f) = sent (hw (isr P e))"
    using tx_driver_isr(2)[OF assms(2), of ?d] by (simp_all add: client_def pkt_hdlr_del_def)
  have "cl_got (client ?f)" "cl_ip (client ?f) = ls_addr l" "cl_server (client ?f) = ls_server l" "cl_xid (client ?f) = xid ?w"
    "cl_net (client ?f) = opts_do net_effect (ls_ack l) (opts_do net_effect (ls_offer l) (net_mask w, gateway w, dns_serv w))"
    unfolding f(1) e(2) w(1) by (simp_all add: acked_def offered_def u(5))
  note sel = this[unfolded client_sel]
  have "dhcp P f_cpu xfuel fuel w = Ok (0, ?f)" using e(1) sel(1) by (simp add: dhcp_def Let_def)
  then show ?thesis using sel(2,3,5) bc[folded sel(4) f(2)] by blast
qed

text \<open>A concrete network: the server 10.0.0.9 answers at the first interrupt after a request, in the buffer 5.\<close>

definition demo_lease :: dhcp_lease where
  "demo_lease = \<lparr>ls_server = un32 [10, 0, 0, 9], ls_addr = 0x0500000A,
     ls_offer = [Opt 53 [2], Opt 54 [10, 0, 0, 9], Opt 1 [255, 255, 255, 0]], ls_ack = [Opt 53 [5], Opt 3 [10, 0, 0, 1]]\<rparr>"

definition demo_msg :: "uint32_t \<Rightarrow> dhcp_msg" where
  "demo_msg x = demo_offer\<lparr>dm_xid := x\<rparr>"

definition demo_answer :: "uint32_t \<Rightarrow> dhcp_option list \<Rightarrow> net_buff" where
  "demo_answer x os = (demo_reply_nb (demo_msg x) os)\<lparr>nb_protocol := htons avr_swaps ETH_P_IP\<rparr>"

definition demo_answer_to :: "net_buff list \<Rightarrow> uint32_t \<Rightarrow> dhcp_option list option" where
  "demo_answer_to L x = (if asks L x DHCP_DISCOVER then Some (ls_offer demo_lease)
     else if asks L x DHCP_REQUEST then Some (ls_ack demo_lease) else None)"

definition demo_has_dev :: "('h, 'w) dev_world_scheme \<Rightarrow> bool" where
  "demo_has_dev w \<longleftrightarrow> (case devs w 1 of Some x \<Rightarrow> x\<lparr>nd_tx_allow := True\<rparr> = demo_dev | None \<Rightarrow> False)"

definition demo_serve :: "demo_hw dhcp_world \<Rightarrow> demo_hw dhcp_world" where
  "demo_serve w =
     (let v = demo_allow True 1 w in
      case demo_answer_to (demo_log (hw w)) (xid w) of None \<Rightarrow> v
      | Some os \<Rightarrow>
          if nbs v 5 = None \<and> demo_has_dev w \<and> eth_ip (recv_ops w) = Some H_dhcp_recv then
            (case dhcp_recv demo_P (NB 5) (v\<lparr>nbs := (nbs v)(5 \<mapsto> demo_answer (xid w) os)\<rparr>) of Ok (r, w1) \<Rightarrow> w1 | Fault e \<Rightarrow> v)
          else v)"

definition demo_server :: "demo_hw dhcp_world platform" where
  "demo_server = demo_P\<lparr>isr := demo_serve\<rparr>"

lemma demo_server_sel [simp]: "isr demo_server = demo_serve" "ops demo_server k = demo_ops" "swaps_ok demo_server"
  "bswap_16 demo_server = bswap_16 avr_swaps" "bswap_32 demo_server = bswap_32 avr_swaps"
  using swaps_ok_avr by (simp_all add: demo_server_def swaps_ok_def)

lemma demo_lease_ok: "lease_ok demo_lease"
proof -
  have "un32 [10, 0, 0, 9] \<noteq> INADDR_NONE" "(0x0500000A :: uint32_t) \<noteq> INADDR_NONE" by code_simp+
  then show ?thesis by (simp add: lease_ok_def demo_lease_def dhcp_consts)
qed

definition demo_hdr :: "dhcp_option list \<Rightarrow> ip_hdr" where
  "demo_hdr os = ip_out IPPROTO_UDP (of_nat (269 + length (encs os))) [10, 0, 0, 9] [10, 0, 0, 2]"

lemma demo_answer_at:
  assumes "demo_answer_to L x = Some os"
  shows "dhcp_at (nb_mem (demo_answer x os)) 14 (demo_hdr os) (demo_msg x)" "opts_at (nb_mem (demo_answer x os)) 14 (demo_hdr os) os"
    "nb_network_hdr_offset (demo_answer x os) = 14" "nb_net_dev (demo_answer x os) = 1" "nb_pkt_type (demo_answer x os) = 0"
    "answers [2, 0, 0, 0, 0, 1] demo_lease L (demo_msg x) os" "dhcp_opt_len (demo_msg x) = 3341"
    "\<exists>s t. opts_do dhcp_effect os (INADDR_NONE, None) = (s, Some t)"
proof -
  have os: "os = ls_offer demo_lease \<or> os = ls_ack demo_lease" using assms by (auto simp: demo_answer_to_def split: if_splits)
  then have o: "list_all opt_ok os" "list_all addr_opt_ok os" "length (encs os) < 1000"
    by (auto simp: demo_lease_def dhcp_consts)
  have m: "length (dm_chaddr (demo_msg x)) = 6" by (simp add: demo_msg_def demo_offer_def)
  show "dhcp_at (nb_mem (demo_answer x os)) 14 (demo_hdr os) (demo_msg x)" "opts_at (nb_mem (demo_answer x os)) 14 (demo_hdr os) os"
    using demo_reply_at[OF m o] by (simp_all add: demo_answer_def demo_hdr_def)
  show "nb_network_hdr_offset (demo_answer x os) = 14" "nb_net_dev (demo_answer x os) = 1" "nb_pkt_type (demo_answer x os) = 0"
    by (simp_all add: demo_answer_def demo_reply_nb_def demo_ip_nb_def)
  show "answers [2, 0, 0, 0, 0, 1] demo_lease L (demo_msg x) os"
    using assms by (auto simp: answers_def demo_answer_to_def demo_msg_def demo_offer_def demo_lease_def split: if_splits)
  have "dhcp_opt_len demo_offer = 3341" by code_simp
  then show "dhcp_opt_len (demo_msg x) = 3341" by (simp add: dhcp_opt_len_def demo_msg_def)
  show "\<exists>s t. opts_do dhcp_effect os (INADDR_NONE, None) = (s, Some t)"
    using os by (auto simp: demo_lease_def dhcp_consts)
qed

lemma demo_devE:
  assumes "demo_has_dev w"
  obtains t where "devs w 1 = Some (demo_dev\<lparr>nd_tx_allow := t\<rparr>)"
proof -
  obtain y where y: "devs w 1 = Some y" "y\<lparr>nd_tx_allow := True\<rparr> = demo_dev"
    using assms by (auto simp: demo_has_dev_def split: option.splits)
  have "y = y\<lparr>nd_tx_allow := True\<rparr>\<lparr>nd_tx_allow := nd_tx_allow y\<rparr>" by simp
  with y that show thesis by metis
qed

lemma demo_load:
  assumes "demo_has_dev w"
  shows "load_dev (demo_allow True 1 w) 1 = Ok (demo_dev\<lparr>nd_tx_allow := True\<rparr>)"
proof -
  obtain t where "devs w 1 = Some (demo_dev\<lparr>nd_tx_allow := t\<rparr>)" by (rule demo_devE[OF assms])
  then show ?thesis by (simp add: load_dev_def)
qed

lemma demo_serve_runs:
  assumes "demo_answer_to (demo_log (hw w)) (xid w) = Some os" "nbs w 5 = None" "demo_has_dev w" "eth_ip (recv_ops w) = Some H_dhcp_recv"
  defines "v \<equiv> (demo_allow True 1 w)\<lparr>nbs := (nbs w)(5 \<mapsto> demo_answer (xid w) os)\<rparr>"
  shows "\<exists>w1. still w1 = still v \<and> demo_serve w = freed 5 w1 \<and>
    dhcp_recv demo_server (NB 5) v = Ok (NETDEV_RX_SUCCESS, freed 5 w1)"
proof -
  let ?b = "demo_answer (xid w) os" and ?d = "demo_msg (xid w)" and ?mac = "[2, 0, 0, 0, 0, 1]"
  note A = demo_answer_at[OF assms(1)]
  obtain x where x: "load_dev v (nb_net_dev ?b) = Ok x" "nd_dev_addr x = ?mac"
    using demo_load[OF assms(3)] that A(4) by (simp add: v_def load_dev_def)
  define w1 where "w1 = (if dhcp_ours ?b (demo_hdr os) ?d v then (case reply_outcome ?mac ?d os v of Ok w \<Rightarrow> w | Fault e \<Rightarrow> v) else v)"
  obtain w2 where w2: "reply_outcome ?mac ?d os v = Ok w2" using A(8) by (auto simp: reply_outcome_def)
  have run: "dhcp_recv P (NB 5) v = Ok (NETDEV_RX_SUCCESS, freed 5 w1)" if "swaps_ok P" for P :: "'z swaps_scheme"
    using dhcp_recv_opts[OF that, of v 5 ?b 14 "demo_hdr os" ?d os x] A x w2 by (simp add: v_def w1_def)
  have "still w1 = still v" using still_reply[OF w2] w2 by (simp add: w1_def)
  moreover have "dhcp_recv demo_P (NB 5) v = Ok (NETDEV_RX_SUCCESS, freed 5 w1)" by (rule run) simp
  then have "demo_serve w = freed 5 w1" using assms by (simp add: demo_serve_def Let_def v_def)
  ultimately show ?thesis using run[OF demo_server_sel(3)] by blast
qed

lemma demo_serve_still: "still (demo_serve w) = still (demo_allow True 1 w)"
proof (cases "\<exists>os. demo_answer_to (demo_log (hw w)) (xid w) = Some os \<and> nbs w 5 = None \<and> demo_has_dev w \<and> eth_ip (recv_ops w) = Some H_dhcp_recv")
  case True
  then obtain os where os: "demo_answer_to (demo_log (hw w)) (xid w) = Some os" "nbs w 5 = None" "demo_has_dev w"
    "eth_ip (recv_ops w) = Some H_dhcp_recv" by blast
  let ?v = "(demo_allow True 1 w)\<lparr>nbs := (nbs w)(5 \<mapsto> demo_answer (xid w) os)\<rparr>"
  obtain w1 where "still w1 = still ?v" "demo_serve w = freed 5 w1" using demo_serve_runs[OF os] by blast
  then show ?thesis using os(2) by (auto simp: still_def freed_def)
next
  case False
  then show ?thesis by (auto simp: demo_serve_def Let_def split: option.split)
qed

lemma demo_serve_sel [simp]:
  "nbs (demo_serve w) = nbs w" "queues (demo_serve w) = queues w" "hw (demo_serve w) = hw w" "mallocs (demo_serve w) = mallocs w"
  "devs (demo_serve w) = devs (demo_allow True 1 w)" "curr_net_dev (demo_serve w) = curr_net_dev w" "recv_ops (demo_serve w) = recv_ops w"
  using demo_serve_still[of w] by (simp_all add: still_def) (simp_all add: demo_allow_def)

lemma demo_server_tx: "tx_driver demo_server demo_log demo_left 3 1 1 q"
proof -
  have "tx_kept 1 1 q w (demo_serve w)" "left demo_left 1 (demo_serve w) \<le> left demo_left 1 w"
    "tx_ready 1 1 w \<Longrightarrow> \<not> tx_allowed 1 w \<Longrightarrow> left demo_left 1 (demo_serve w) < left demo_left 1 w" for w
    using demo_isr_ok(1)[of 1 1 q w] demo_isr_ok(2)[of 1 w] demo_isr_ok(3)[of 1 1 w] by (simp_all add: tx_kept_def tx_ready_def tx_allowed_def left_def)
  then show ?thesis unfolding tx_driver_def demo_server_sel demo_ops_sel demo_serve_sel
    by (intro conjI exI[of _ demo_tx] allI impI refl) (assumption | rule demo_tx_ok demo_left_le | simp)+
qed

text \<open>The memory for \<open>n\<close> requests: two allocations for each.\<close>

fun demo_mem :: "nat \<Rightarrow> nat list" where
  "demo_mem 0 = []"
| "demo_mem (Suc n) = [2 * n + 21, 2 * n + 22] @ demo_mem n"

definition demo_stock :: "nat \<Rightarrow> demo_hw dhcp_world \<Rightarrow> bool" where
  "demo_stock n w \<longleftrightarrow> curr_net_dev w = 1 \<and> demo_has_dev w \<and> nbs w 5 = None \<and> mallocs w = demo_mem n \<and>
     (\<forall>i<n. nbs w (2 * i + 21) = None)"

lemma demo_serve_answers:
  assumes "demo_stock n w"
  shows "eth_ip (recv_ops w) = Some H_dhcp_recv \<Longrightarrow> (\<exists>t \<in> {DHCP_DISCOVER, DHCP_REQUEST}. asks (demo_log (hw w)) (xid w) t) \<Longrightarrow>
      delivers [2, 0, 0, 0, 0, 1] demo_lease (demo_log (hw w)) demo_server True w (demo_serve w)"
    and "\<not> (eth_ip (recv_ops w) = Some H_dhcp_recv \<and> (\<exists>t \<in> {DHCP_DISCOVER, DHCP_REQUEST}. asks (demo_log (hw w)) (xid w) t)) \<Longrightarrow>
      client (demo_serve w) = client w"
proof -
  note S = assms[unfolded demo_stock_def]
  let ?L = "demo_log (hw w)"
  show "client (demo_serve w) = client w" if "\<not> (eth_ip (recv_ops w) = Some H_dhcp_recv \<and> (\<exists>t \<in> {DHCP_DISCOVER, DHCP_REQUEST}. asks ?L (xid w) t))"
    using that by (auto simp: demo_serve_def demo_answer_to_def Let_def client_def demo_allow_def split: if_splits)
  show "delivers [2, 0, 0, 0, 0, 1] demo_lease ?L demo_server True w (demo_serve w)"
    if H: "eth_ip (recv_ops w) = Some H_dhcp_recv" and ask: "\<exists>t \<in> {DHCP_DISCOVER, DHCP_REQUEST}. asks ?L (xid w) t"
  proof -
    have "demo_answer_to ?L (xid w) \<noteq> None" using ask by (auto simp: demo_answer_to_def)
    then obtain os where os: "demo_answer_to ?L (xid w) = Some os" by blast
    let ?v = "(demo_allow True 1 w)\<lparr>nbs := (nbs w)(5 \<mapsto> demo_answer (xid w) os)\<rparr>" and ?b = "demo_answer (xid w) os"
    obtain w1 where w1: "demo_serve w = freed 5 w1" "dhcp_recv demo_server (NB 5) ?v = Ok (NETDEV_RX_SUCCESS, freed 5 w1)"
      using demo_serve_runs[OF os] S H by auto
    obtain x where x: "load_dev ?v 1 = Ok x" "nd_dev_addr x = [2, 0, 0, 0, 0, 1]"
      using demo_load[of w] S that by (simp add: load_dev_def)
    have v: "client ?v = client w" "nbs ?v 5 = Some ?b" "curr_net_dev ?v = 1" "xid ?v = xid w" "got_reply ?v = got_reply w"
      "eth_ip (recv_ops ?v) = Some H_dhcp_recv"
      using S H by (simp_all add: client_def demo_allow_def)
    note A = demo_answer_at[OF os]
    have f: "IP_DF AND (IP_MF OR IP_OFFSET) = 0" by code_simp
    have ours: "good_reply ?b (demo_hdr os) (demo_msg (xid w)) (curr_net_dev w) (xid w)"
      using S A f by (simp add: good_reply_def demo_hdr_def PKT_OTHERHOST_def) (simp add: demo_msg_def demo_offer_def BOOTP_REPLY_def)
    have ul: "unat (dm_ulen (demo_msg (xid w))) < 62464" by (simp add: demo_msg_def demo_offer_def)
    have p: "nb_protocol ?b = htons demo_server ETH_P_IP" by (simp add: demo_answer_def htons_def)
    have run: "recv_pkt_handler demo_server (call_hdlr user demo_server xf 1) (NB 5) ?v = Ok (NETDEV_RX_SUCCESS, freed 5 w1)" for user xf
      using w1(2) v(2,6) p by (simp add: recv_pkt_handler_def load_nb_NB)
    show ?thesis unfolding delivers_def
      using v(1,2) A p x run[of "\<lambda>i nb w. Fault Null_deref" 0] ours ul w1(1)
      by (intro exI[of _ ?v] exI[of _ "freed 5 w1"] exI[of _ 5] exI[of _ ?b] exI[of _ "demo_hdr os"] exI[of _ "demo_msg (xid w)"]
        exI[of _ os] exI[of _ x] exI[of _ NETDEV_RX_SUCCESS] exI[of _ 14] exI[of _ "\<lambda>i nb w. Fault Null_deref"] exI[of _ 0]) simp
  qed
qed

lemma demo_stock_cong:
  assumes "demo_stock n w" "curr_net_dev w' = curr_net_dev w" "demo_has_dev w' = demo_has_dev w"
    "mallocs w' = mallocs w" "\<And>a. nbs w a = None \<Longrightarrow> nbs w' a = None"
  shows "demo_stock n w'"
  using assms(1-4) assms(5) by (auto simp: demo_stock_def)

lemma demo_tx_stock:
  assumes "demo_stock n w"
  shows "demo_stock n (snd (demo_tx p 1 w))" "client (snd (demo_tx p 1 w)) = client w"
proof -
  have has: "demo_has_dev (demo_allow v 1 w) = demo_has_dev w" for v and w :: "demo_hw dhcp_world"
    by (simp add: demo_has_dev_def split: option.split)
  show "demo_stock n (snd (demo_tx p 1 w))"
    by (rule demo_stock_cong[OF assms])
      (simp_all add: demo_tx_def has demo_allow_def demo_has_dev_def split: nbp.split option.split)
  show "client (snd (demo_tx p 1 w)) = client w"
    by (simp add: demo_tx_def demo_allow_def client_def split: nbp.split option.split)
qed

lemma demo_stock_alloc:
  assumes "demo_stock (Suc n) w"
  shows "curr_net_dev w = 1 \<and> tx_ready 1 1 w \<and> alloc_ok w \<and> (\<exists>x. eth_dev 1 w x \<and> nd_dev_addr x = [2, 0, 0, 0, 0, 1])"
    and "net_buff_alloc 590 w = (NB a, w1) \<Longrightarrow> demo_stock n (w1\<lparr>nbs := (nbs w1)(a \<mapsto> b)\<rparr>)"
proof -
  note S = assms[unfolded demo_stock_def]
  obtain t where "devs w 1 = Some (demo_dev\<lparr>nd_tx_allow := t\<rparr>)" using S demo_devE[of w] by blast
  then show "curr_net_dev w = 1 \<and> tx_ready 1 1 w \<and> alloc_ok w \<and> (\<exists>x. eth_dev 1 w x \<and> nd_dev_addr x = [2, 0, 0, 0, 0, 1])"
    using S by (auto simp: tx_ready_def alloc_ok_def eth_dev_def mac_ok_def)
  show "demo_stock n (w1\<lparr>nbs := (nbs w1)(a \<mapsto> b)\<rparr>)" if "net_buff_alloc 590 w = (NB a, w1)"
    using S that by (auto simp: demo_stock_def net_buff_alloc_def malloc_def store_nb_NB demo_has_dev_def Let_def)
qed

lemma demo_room:
  assumes "\<And>k. ops P k = demo_ops"
  shows "dhcp_room P 1 1 [2, 0, 0, 0, 0, 1] demo_stock"
proof -
  have "demo_stock n (w\<lparr>got_reply := False\<rparr>) \<and> demo_stock n (xid_gen w) \<and> demo_stock n (pkt_hdlr_del ETH_P_IP w)"
    if "demo_stock n w" for n w
    by (intro conjI; rule demo_stock_cong[OF that]) (simp_all add: demo_has_dev_def xid_gen_def rand_def Let_def pkt_hdlr_del_def)
  then show ?thesis
    unfolding dhcp_room_def assms demo_ops_sel option.inject
    by (intro conjI allI impI) (use demo_stock_alloc demo_tx_stock in \<open>simp_all\<close>)
qed

lemma demo_dhcp_net: "dhcp_net demo_server demo_log 1 1 [2, 0, 0, 0, 0, 1] demo_lease (\<lambda>_. 0) 1 demo_stock"
proof -
  have "demo_stock n (demo_serve w)" if "demo_stock n w" for n w
    by (rule demo_stock_cong[OF that]) (simp_all add: demo_has_dev_def split: option.split)
  moreover have "client (demo_serve w) = client w \<or> (\<exists>ours. delivers [2, 0, 0, 0, 0, 1] demo_lease (demo_log (hw w)) demo_server ours w (demo_serve w))"
    if "demo_stock n w" for n w using demo_serve_answers[OF that] by blast
  ultimately show ?thesis
    unfolding dhcp_net_def demo_server_sel
    by (intro conjI allI impI) (use demo_lease_ok demo_room[of demo_server] demo_serve_answers in \<open>simp_all\<close>)
qed

lemma demo_dhcp_silent: "dhcp_silent (demo_platform 1) 1 1 [2, 0, 0, 0, 0, 1] demo_stock"
proof -
  have "demo_stock n (demo_allow True 1 w)" if "demo_stock n w" for n w
    by (rule demo_stock_cong[OF that]) (simp_all add: demo_has_dev_def demo_allow_def split: option.split)
  then show ?thesis using demo_room[of "demo_platform 1"] by (simp add: dhcp_silent_def client_def demo_allow_def)
qed

theorem dhcp_configures_witness:
  "\<exists>w' b c. dhcp demo_server 8 9 2 (demo_dhcp_world [23, 24, 21, 22] INADDR_NONE Map.empty) = Ok (0, w') \<and>
    my_ip w' = 0x0500000A \<and> serv_addr w' = un32 [10, 0, 0, 9] \<and> net_mask w' = un32 [255, 255, 255, 0] \<and>
    gateway w' = un32 [10, 0, 0, 1] \<and> demo_log (hw w') = [b, c]"
proof -
  let ?w = "demo_dhcp_world [23, 24, 21, 22] INADDR_NONE Map.empty"
  let ?w1 = "pkt_hdlr_add ETH_P_IP (Some H_dhcp_recv) (xid_gen ?w)"
  have "demo_mem 2 = [23, 24, 21, 22]" by (simp add: numeral_2_eq_2)
  then have s: "demo_stock 2 ?w1"
    by (simp add: demo_stock_def demo_has_dev_def xid_gen_def rand_def pkt_hdlr_add_def Let_def)
  have a: "\<forall>t. \<not> asks (demo_log (hw ?w)) (xid (xid_gen ?w)) t" by (simp add: asks_def)
  have n: "1 \<le> (8 :: nat) div 4" "(2 :: nat) \<le> 2" "2 * Suc 3 \<le> (9 :: nat)" by simp_all
  from dhcp_configures[OF demo_server_sel(3) demo_server_tx[of "QVAR 0"] demo_dhcp_net n s _ _ _ a]
  obtain w' b c where w': "dhcp demo_server 8 9 2 ?w = Ok (0, w')" "my_ip w' = ls_addr demo_lease" "serv_addr w' = ls_server demo_lease"
    "(net_mask w', gateway w', dns_serv w') =
      opts_do net_effect (ls_ack demo_lease) (opts_do net_effect (ls_offer demo_lease) (net_mask ?w, gateway ?w, dns_serv ?w))"
    "demo_log (hw w') = [b, c]" by auto
  then show ?thesis by (intro exI[of _ w'] exI[of _ b] exI[of _ c]) (simp add: demo_lease_def dhcp_consts)
qed

text \<open>C17: without a DHCP server \<open>dhcp\<close> gives up: when no interrupt takes a reply and none is pending, on a device that is up, with memory for
  six requests, it sends exactly six frames, each a request with the server and the address that are set (a DISCOVER when
  no server is set) and returns \<open>-1\<close> with no address set and the handler removed.  A bound of fewer than six rounds
  does not suffice.\<close>

theorem dhcp_gives_up:
  fixes w :: "('h, 'w) dhcp_world_scheme"
  assumes "swaps_ok P" "tx_driver P sent m K d k q" "dhcp_silent P d k mac S" "Suc K < xfuel"
    and "S 6 (pkt_hdlr_add ETH_P_IP (Some H_dhcp_recv) (xid_gen w))" "\<not> got_reply w"
  shows "if 6 \<le> fuel then \<exists>w' bs. dhcp P f_cpu xfuel fuel w = Ok (- 1, w') \<and> my_ip w' = INADDR_NONE \<and> eth_ip (recv_ops w') = None \<and>
      sent (hw w') = sent (hw w) @ bs \<and> length bs = 6 \<and> (\<forall>b \<in> set bs. requests (serv_addr w) (my_ip w) mac b)
    else dhcp P f_cpu xfuel fuel w = Fault Out_of_fuel"
proof -
  let ?w = "pkt_hdlr_add ETH_P_IP (Some H_dhcp_recv) (xid_gen w)"
  have w: "got_reply ?w = got_reply w" "serv_addr ?w = serv_addr w" "my_ip ?w = my_ip w" "hw ?w = hw w"
    by (simp_all add: pkt_hdlr_add_def xid_gen_def rand_def Let_def)
  note L = silent_rounds[OF assms(1-4), of 5 ?w fuel f_cpu]
  show ?thesis
  proof (cases "6 \<le> fuel")
    case True
    then obtain e bs where e: "dhcp_loop P f_cpu xfuel fuel 6 ?w = Ok e" "S 0 e" "\<not> got_reply e"
      "sent (hw e) = sent (hw w) @ bs" "length bs = 6" "\<forall>b \<in> set bs. requests (serv_addr w) (my_ip w) mac b"
      using L assms(5,6) w by auto
    note N = silent_isr[OF assms(3,2)]
    let ?d = "pkt_hdlr_del ETH_P_IP (isr P e)"
    have "dhcp_room P d k mac S" using assms(3) by (simp add: dhcp_silent_def)
    from dhcp_roomD(8)[OF this N(1)[OF e(2)]] have "S 0 ?d" .
    note D = N[OF this]
    have "client (isr P ?d) = (client (isr P e))\<lparr>cl_hdlr := None\<rparr>" unfolding D(2) by (simp add: client_def pkt_hdlr_del_def)
    then have "\<not> cl_got (client (isr P ?d))" "cl_hdlr (client (isr P ?d)) = None" using N(2)[OF e(2)] e(3) by simp_all
    note f = this[unfolded client_sel]
    have "hw ?d = hw (isr P e)" by (simp add: pkt_hdlr_del_def)
    then have "sent (hw (isr P ?d)) = sent (hw w) @ bs" using D(3) N(3)[OF e(2)] e(4) by simp
    then show ?thesis using True e(1,5,6) f none_same[OF assms(1)] by (auto simp: dhcp_def Let_def)
  next
    case False
    then show ?thesis using L assms(5,6) w by (simp add: dhcp_def Let_def)
  qed
qed

theorem dhcp_gives_up_witness:
  "\<exists>w' bs. dhcp (demo_platform 1) 8 9 6 (demo_dhcp_world (demo_mem 6) INADDR_NONE Map.empty) = Ok (- 1, w') \<and>
    demo_log (hw w') = bs \<and> length bs = 6 \<and> my_ip w' = INADDR_NONE \<and> eth_ip (recv_ops w') = None"
proof -
  let ?w = "demo_dhcp_world (demo_mem 6) INADDR_NONE Map.empty"
  have s: "demo_stock 6 (pkt_hdlr_add ETH_P_IP (Some H_dhcp_recv) (xid_gen ?w))"
    by (simp add: demo_stock_def demo_has_dev_def xid_gen_def rand_def pkt_hdlr_add_def Let_def)
  have n: "Suc 3 < (9 :: nat)" by simp
  show ?thesis
    using dhcp_gives_up[OF demo_swaps_ok demo_tx_driver[of 1 1 "QVAR 0"] demo_dhcp_silent n s, of 6 8] by auto
qed

end
