(* ===== verification/Host_Driver.thy ===== *)
theory Host_Driver
  imports Socket
begin

text \<open>
  Drivers in a host.  \<open>tx_driver\<close> says what sending one frame relies on; here a driver and its interrupts also leave the
  rest of the host alone, and from that follows that \<open>netdev_list_xmit\<close> and \<open>netdev_queue_xmit\<close> change nothing but
  the buffer that is sent and the flags of the device.
\<close>

section \<open>The contract\<close>

text \<open>The parts of a device that no driver function changes while the device is running.\<close>

definition dev_fixed :: "net_dev \<Rightarrow> net_dev" where
  "dev_fixed x = x\<lparr>nd_up_state := False, nd_link_status := False, nd_full_duplex := False, nd_tx_allow := False\<rparr>"

text \<open>The state around the buffers, the queues and the hardware.\<close>

definition outside :: "addr \<Rightarrow> ('h, 'w) dev_world_scheme \<Rightarrow> addr \<times> addr \<times> net_dev option \<times> 'w" where
  "outside d w = (curr_net_dev w, irq_net_dev w, map_option dev_fixed (devs w d), dev_world.more w)"

definition drv_local :: "addr \<Rightarrow> ('h, 'w) dev_world_scheme \<Rightarrow> ('h, 'w) dev_world_scheme \<Rightarrow> bool" where
  "drv_local d w w' \<longleftrightarrow> outside d w' = outside d w \<and> queues w' = queues w \<and> dom (nbs w') \<subseteq> dom (nbs w)"

text \<open>
  A driver of a host: it transmits, and neither \<open>start_tx\<close> nor the interrupts that run while a frame is being sent touch
  the rest of the host.  A frame that such an interrupt receives is delivered when the transmission is over.
\<close>

definition host_driver :: "('h, 'w) dev_world_scheme platform \<Rightarrow> ('h \<Rightarrow> net_buff list) \<Rightarrow>
    (net_dev option \<Rightarrow> 'h \<Rightarrow> nat) \<Rightarrow> nat \<Rightarrow> addr \<Rightarrow> addr \<Rightarrow> bool" where
  "host_driver P sent m K d k \<longleftrightarrow> (\<forall>q. tx_driver P sent m K d k q) \<and>
     (\<forall>f nb w. op_start_tx (ops P k) = Some f \<longrightarrow> drv_local d w (snd (f nb d w))) \<and> (\<forall>w. drv_local d w (isr P w))"

lemma host_driverD:
  assumes "host_driver P sent m K d k"
  shows "tx_driver P sent m K d k q" "drv_local d w (isr P w)"
    "op_start_tx (ops P k) = Some f \<Longrightarrow> f nb d w = (r, w') \<Longrightarrow> drv_local d w w'"
proof -
  show "tx_driver P sent m K d k q" "drv_local d w (isr P w)" using assms by (simp_all add: host_driver_def)
  assume "op_start_tx (ops P k) = Some f" "f nb d w = (r, w')"
  then have "drv_local d w (snd (f nb d w))" "snd (f nb d w) = w'" using assms unfolding host_driver_def by (blast, simp)
  then show "drv_local d w w'" by simp
qed

lemma drv_local_refl [simp]: "drv_local d w w"
  by (simp add: drv_local_def)

lemma drv_local_trans: "drv_local d w w1 \<Longrightarrow> drv_local d w1 w2 \<Longrightarrow> drv_local d w w2"
  unfolding drv_local_def by (metis subset_trans)

lemma drv_local_store: "nbs w a \<noteq> None \<Longrightarrow> drv_local d w (store_nb (NB a) b w)"
  by (auto simp: drv_local_def store_nb_def outside_def)

section \<open>Sending a list of one buffer\<close>

text \<open>The buffer is in the hands of the loop, or it is gone.\<close>

definition last_one :: "nbp \<Rightarrow> addr \<Rightarrow> ('h, 'w) dev_world_scheme \<Rightarrow> bool" where
  "last_one p a w \<longleftrightarrow> (p = NB a \<and> (\<exists>b. nbs w a = Some b \<and> nb_next b = NULLP)) \<or> (p = NULLP \<and> nbs w a = None)"

lemma last_one_kept: "tx_kept d k q w w' \<Longrightarrow> drv_local d w w' \<Longrightarrow> last_one p a w \<Longrightarrow> last_one p a w'"
  by (auto simp: last_one_def tx_kept_def drv_local_def)

lemma list_xmit_loop_local:
  assumes drv: "host_driver P sent m K d k"
  shows "tx_ready d k w \<Longrightarrow> last_one p a w \<Longrightarrow> list_xmit_loop P fuel d p err w = Ok (p', r, w') \<Longrightarrow>
    drv_local d w w' \<and> tx_ready d k w' \<and> last_one p' a w'"
proof (induction fuel arbitrary: w p err)
  case (Suc fuel)
  note isr = tx_driver_isr[OF host_driverD(1)[OF drv, of "QVAR 0"]]
  obtain x where x: "load_dev w d = Ok x" "nd_up_state x" "nd_link_status x"
    "dev_ops P w d = Ok (ops P k)" "nd_tx_allow x = tx_allowed d w"
    by (rule tx_readyE[OF Suc.prems(1) isr(5,6)])
  have again: "drv_local d w w' \<and> tx_ready d k w' \<and> last_one p' a w'"
    if "list_xmit_loop P fuel d p1 e w1 = Ok (p', r, w')" "drv_local d w w1" "tx_ready d k w1" "last_one p1 a w1" for p1 e w1
    using Suc.IH[OF that(3,4,1)] drv_local_trans[OF that(2)] by blast
  have isr': "drv_local d w (isr P w)" "tx_ready d k w \<Longrightarrow> tx_ready d k (isr P w)" "last_one p1 a w \<Longrightarrow> last_one p1 a (isr P w)" for w p1
    using host_driverD(2)[OF drv, of w] isr(1)[of w] last_one_kept by (simp_all add: tx_kept_def, blast)
  show ?case
  proof (cases "p = NULLP")
    case True
    then show ?thesis using Suc.prems x by simp
  next
    case False
    then obtain b where p: "p = NB a" and b: "nbs w a = Some b" "nb_next b = NULLP"
      using Suc.prems(2) by (auto simp: last_one_def)
    show ?thesis
    proof (cases "tx_allowed d w")
      case False
      then show ?thesis using Suc.prems x p again[of p err "isr P w"] isr' by simp
    next
      case True
      have w0: "store_nb (NB a) (b\<lparr>nb_next := NULLP\<rparr>) w = w" using b by (cases b) (simp add: store_nb_def fun_upd_idem)
      obtain f s w1 where f: "op_start_tx (ops P k) = Some f" "f (NB a) d w = (s, w1)" and
        res: "if net_dev_xmit_complete s then tx_consumed d k (QVAR 0) a w w1 \<and> sent (hw w1) = sent (hw w) @ [b]
          else tx_kept d k (QVAR 0) w w1 \<and> sent (hw w1) = sent (hw w) \<and> left m d w1 < left m d w"
        by (rule tx_driver_start[OF host_driverD(1)[OF drv] b(1)])
      have l2: "drv_local d w (isr P w1)" by (rule drv_local_trans[OF host_driverD(3)[OF drv f] isr'(1)])
      have start: "netdev_start_tx P (NB a) d w = Ok (s, w1)" by (simp add: netdev_start_tx_def x(4) f)
      show ?thesis
      proof (cases "net_dev_xmit_complete s")
        case fin: True
        then have w1: "nbs w1 a = None" "tx_ready d k w1" using res Suc.prems(1) by (simp_all add: tx_consumed_def)
        have "list_xmit_loop P fuel d NULLP s (isr P w1) = Ok (p', r, w')"
          using Suc.prems(3) True fin x p b start w0 by (simp add: load_nb_NB)
        then show ?thesis by (rule again) (use w1 l2 isr'(2) isr'(3)[of NULLP w1] in \<open>simp_all add: last_one_def\<close>)
      next
        case fin: False
        then have w1: "nbs w1 a = Some b" "tx_ready d k w1" using res b Suc.prems(1) by (simp_all add: tx_kept_def)
        then have "store_nb (NB a) (b\<lparr>nb_next := NULLP\<rparr>) w1 = w1" using b by (cases b) (simp add: store_nb_def fun_upd_idem)
        then have "list_xmit_loop P fuel d p s (isr P w1) = Ok (p', r, w')"
          using Suc.prems(3) True fin x p b start w0 w1 by (simp add: load_nb_NB)
        then show ?thesis by (rule again) (use w1 b p l2 isr'(2) isr'(3)[of p w1] in \<open>simp_all add: last_one_def\<close>)
      qed
    qed
  qed
qed simp

lemma netdev_list_xmit_host:
  assumes drv: "host_driver P sent m K d k" and w: "tx_ready d k w" and b: "nbs w a = Some b" "nb_net_dev b = d" "nb_next b = NULLP"
    and fuel: "2 * Suc K \<le> fuel"
  shows "\<exists>r w'. netdev_list_xmit P fuel (NB a) w = Ok (r, w') \<and> sent (hw w') = sent (hw w) @ [b] \<and>
    nbs w' = (nbs w)(a := None) \<and> queues w' = queues w \<and> outside d w' = outside d w \<and> tx_ready d k w'"
proof -
  note tx = host_driverD(1)[OF drv, of "QVAR 0"]
  have l: "left m d w + Suc K * length [a] < fuel" using fuel tx_driver_isr(7)[OF tx, of w] by simp
  have u: "unlinked (Some b) = b" using b(3) by (cases b) (simp add: unlinked_def)
  obtain r w' where w': "list_xmit_loop P fuel d (NB a) NETDEV_TX_BUSY w = Ok (NULLP, r, w')" "net_dev_xmit_complete r"
    "sent (hw w') = sent (hw w) @ [b]" "\<forall>a' c. a' \<noteq> a \<longrightarrow> nbs w a' = Some c \<longrightarrow> nbs w' a' = Some c"
    using list_xmit_loop_sends[OF tx w _ l, of "NB a" NETDEV_TX_BUSY] b u unfolding list_sent_def by auto
  have "last_one (NB a) a w" using b by (simp add: last_one_def)
  from list_xmit_loop_local[OF drv w this w'(1)] have loc: "drv_local d w w'" "tx_ready d k w'" "nbs w' a = None"
    by (simp_all add: last_one_def)
  have "nbs w' a' = ((nbs w)(a := None)) a'" for a'
    using w'(4) loc by (cases "nbs w a'") (auto simp: drv_local_def)
  then have "nbs w' = (nbs w)(a := None)" by blast
  then show ?thesis using w'(1-3) loc by (auto simp: netdev_list_xmit_def load_nb_NB b drv_local_def)
qed

section \<open>Sending a queue of one buffer\<close>

lemma queue_xmit_one_local:
  assumes drv: "host_driver P sent m K d k"
  shows "tx_ready d k w \<Longrightarrow> nbs w a = Some b \<Longrightarrow> queue_xmit_one P fuel (NB a) d err w = Ok (r, w') \<Longrightarrow> drv_local d w w'"
proof (induction fuel arbitrary: w err)
  case (Suc fuel)
  note isr = tx_driver_isr[OF host_driverD(1)[OF drv, of "QVAR 0"]]
  obtain x where x: "load_dev w d = Ok x" "nd_up_state x" "nd_link_status x"
    "dev_ops P w d = Ok (ops P k)" "nd_tx_allow x = tx_allowed d w"
    by (rule tx_readyE[OF Suc.prems(1) isr(5,6)])
  have again: "drv_local d w w'" if "queue_xmit_one P fuel (NB a) d e (isr P w1) = Ok (r, w')" "drv_local d w w1" "tx_kept d k (QVAR 0) w w1" for e w1
  proof -
    have "tx_ready d k (isr P w1)" "nbs (isr P w1) a = Some b"
      using that(3) isr(1)[of w1] Suc.prems(1,2) by (simp_all add: tx_kept_def)
    from Suc.IH[OF this that(1)] show ?thesis using drv_local_trans[OF that(2)] drv_local_trans[OF host_driverD(2)[OF drv, of w1]] by blast
  qed
  show ?case
  proof (cases "tx_allowed d w")
    case False
    then show ?thesis using Suc.prems x again[of err w] by simp
  next
    case True
    obtain f s w1 where f: "op_start_tx (ops P k) = Some f" "f (NB a) d w = (s, w1)" and
      res: "if net_dev_xmit_complete s then tx_consumed d k (QVAR 0) a w w1 \<and> sent (hw w1) = sent (hw w) @ [b]
        else tx_kept d k (QVAR 0) w w1 \<and> sent (hw w1) = sent (hw w) \<and> left m d w1 < left m d w"
      by (rule tx_driver_start[OF host_driverD(1)[OF drv] Suc.prems(2)])
    then show ?thesis using Suc.prems(3) True x again[of s w1] host_driverD(3)[OF drv f]
      by (auto simp: netdev_start_tx_def split: if_splits)
  qed
qed simp

text \<open>The queues that exist, and the other queues.\<close>

lemma set_link_queues:
  "set_next p x w = Ok w' \<Longrightarrow> dom (queues w') = dom (queues w)"
  "set_prev p x w = Ok w' \<Longrightarrow> dom (queues w') = dom (queues w)"
  "add_q_len q n w = Ok w' \<Longrightarrow> dom (queues w') = dom (queues w)"
  by (auto simp: set_next_def set_prev_def add_q_len_def load_q_def store_nb_def bnd_eq_Ok_iff
    split: nbp.splits option.splits if_splits)

lemma nb_enqueue_queues: "nb_enqueue p q w = Ok w' \<Longrightarrow> dom (queues w') = dom (queues w)"
  by (clarsimp simp: nb_enqueue_def Let_def bnd_eq_Ok_iff dest!: set_link_queues)

lemma nb_dequeue_queues: "nb_dequeue q w = Ok (p, w') \<Longrightarrow> dom (queues w') = dom (queues w)"
  unfolding nb_dequeue_def bnd_eq_Ok_iff
  by (elim exE conjE, simp only: split: if_split_asm) (clarsimp simp: bnd_eq_Ok_iff dest!: set_link_queues)+

definition other_queues :: "qref \<Rightarrow> 'w nb_world_scheme \<Rightarrow> 'w nb_world_scheme \<Rightarrow> bool" where
  "other_queues q w w' \<longleftrightarrow> dom (queues w') = dom (queues w) \<and> (\<forall>q'. q' \<noteq> q \<longrightarrow> queue_rep w q' [] \<longrightarrow> queue_rep w' q' [])"

lemma other_queues_trans: "other_queues q w w1 \<Longrightarrow> other_queues q w1 w2 \<Longrightarrow> other_queues q w w2"
  by (simp add: other_queues_def)

lemma other_queues_same: "queues w' = queues w \<Longrightarrow> other_queues q w w'"
  by (simp add: other_queues_def queue_rep_Nil)

text \<open>What \<open>netdev_queue_xmit\<close> leaves of the host: the other buffers up to their links, and the other queues.\<close>

lemma netdev_queue_xmit_host:
  assumes drv: "host_driver P sent m K d k" and w: "tx_ready d k w" and q: "queue_rep w q [a]"
    and b: "payload w a = Some b" "nb_net_dev b = d" and fuel: "K < fuel" "1 < fuel"
  shows "\<exists>r w'. netdev_queue_xmit P fuel q w = Ok (r, w') \<and> sent (hw w') = sent (hw w) @ [b] \<and>
    payload w' = (payload w)(a := None) \<and> queue_rep w' q [] \<and> other_queues q w w' \<and>
    outside d w' = outside d w \<and> tx_ready d k w'"
proof -
  note tx = host_driverD(1)[OF drv, of q]
  obtain w1 where w1: "nb_dequeue q w = Ok (NB a, w1)" "queue_rep w1 q []" "rest w1 = rest w"
    "links w1 (NB a) = Some (NULLP, NULLP)" "others_kept q {a} w w1"
    by (rule nb_dequeue_rep[OF q]) simp
  note m1 = more_dev_world[OF rest_more[OF w1(3)]] and p1 = rest_payload[OF w1(3)]
  have "payload w1 a = Some b" using b(1) p1 by simp
  then have b1: "nbs w1 a = Some b" using w1(4) by (auto simp: payload_def links_def)
  have t1: "tx_ready d k w1" using w m1 by (simp add: tx_ready_def)
  moreover have "left m d w1 < fuel" using fuel(1) tx_driver_isr(7)[OF tx, of w1] by simp
  ultimately obtain r w2 where w2: "queue_xmit_one P fuel (NB a) d (-1) w1 = Ok (r, w2)" "sent_code P k r"
    "tx_consumed d k q a w1 w2" "sent (hw w2) = sent (hw w1) @ [b]"
    using queue_xmit_one_sends[OF tx _ b1] by blast
  have l: "drv_local d w1 w2" by (rule queue_xmit_one_local[OF drv t1 b1 w2(1)])
  have n2: "nbs w2 = (nbs w1)(a := None)"
  proof
    fix a'
    show "nbs w2 a' = ((nbs w1)(a := None)) a'"
      using w2(3) l by (cases "nbs w1 a'") (auto simp: tx_consumed_def drv_local_def)
  qed
  have q2: "queue_rep w2 q []" using w1(2) l by (simp add: queue_rep_Nil drv_local_def)
  have "netdev_queue_xmit P fuel q w = Ok (r, w2)"
  proof -
    obtain f where "fuel = Suc (Suc f)" using less_imp_Suc_add[OF fuel(2)] by auto
    then show ?thesis using w1(1) w2(1,2) b1 b(2) nb_dequeue_empty[OF q2]
      by (simp add: netdev_queue_xmit_def load_nb_NB sent_code_def del: queue_xmit_one.simps)
  qed
  moreover have "payload w2 = (payload w)(a := None)" unfolding p1[symmetric] by (auto simp: payload_def n2)
  moreover have "other_queues q w w1"
    using nb_dequeue_queues[OF w1(1)] w1(5) by (simp add: other_queues_def others_kept_def)
  then have "other_queues q w w2"
    by (rule other_queues_trans) (rule other_queues_same, use l in \<open>simp add: drv_local_def\<close>)
  moreover have "outside d w1 = outside d w" using m1 by (simp add: outside_def)
  moreover have "tx_ready d k w2" using t1 w2(3) by (simp add: tx_consumed_def)
  moreover have "outside d w2 = outside d w1" "hw w1 = hw w" using l m1 by (simp_all add: drv_local_def)
  ultimately show ?thesis using w2(4) q2 by (intro exI[of _ r] exI[of _ w2]) simp
qed

end
