(* ===== verification/Recv_Safe.thy ===== *)
theory Recv_Safe
  imports Stack
begin

text \<open>
  Arbitrary received bytes.  The other theories describe packets by their fields; here every sequence of bytes that is
  long enough is shown to be such a packet, and from that follows what the initialised stack does with any frame that
  the driver delivers.
\<close>

section \<open>Bytes as headers\<close>

lemma be16_un16: "length bs = 2 \<Longrightarrow> be16 (swap16 (un16 bs)) = bs"
  by (cases bs; cases "tl bs") (auto simp: un16_def swap16_def be16_def)

lemma bslice_parts: "k + l \<le> length m \<Longrightarrow> length (bslice k l m) = l"
  by (simp add: bslice_def)

lemma bslice_0 [simp]: "bslice k 0 m = []"
  by (simp add: bslice_def)

lemma bslice_join: "bslice k l m @ bslice (k + l) l' m = bslice k (l + l') m"
  by (simp add: bslice_def take_add add.commute)

lemma eth_bytes_ex:
  assumes "length E = 14"
  shows "E = eth_bytes (bslice 0 6 E) (bslice 6 6 E) (swap16 (un16 (bslice 12 2 E)))"
proof -
  have "bslice 0 14 E = bslice 0 6 E @ bslice 6 6 E @ bslice 12 2 E"
    using bslice_join[of 0 6 E 8] bslice_join[of 6 6 E 2] by simp
  then show ?thesis using assms be16_un16[of "bslice 12 2 E"] by (simp add: eth_bytes_def bslice_all bslice_parts)
qed

lemma ver_ihl_ex: "v = ver_ihl (h\<lparr>ih_version := get_version v, ih_ihl := get_ihl v\<rparr>)"
proof (rule bit_word_eqI)
  fix n
  assume "n < LENGTH(8)"
  then show "bit v n = bit (ver_ihl (h\<lparr>ih_version := get_version v, ih_ihl := get_ihl v\<rparr>)) n"
    by (auto simp: ver_ihl_def get_version_def get_ihl_def bit_simps)
qed

text \<open>The header that the bytes are.\<close>

definition ip_of :: "bytes \<Rightarrow> ip_hdr" where
  "ip_of N = \<lparr>ih_ihl = get_ihl (N ! 0), ih_version = get_version (N ! 0), ih_tos = N ! 1, ih_tot_len = swap16 (un16 (bslice 2 2 N)),
     ih_id = swap16 (un16 (bslice 4 2 N)), ih_frag_off = swap16 (un16 (bslice 6 2 N)), ih_ttl = N ! 8, ih_protocol = N ! 9,
     ih_hdr_chks = un16 (bslice 10 2 N), ih_src = bslice 12 4 N, ih_dst = bslice 16 4 N\<rparr>"

definition arp_of :: "bytes \<Rightarrow> arp_pkt" where
  "arp_of N = \<lparr>ap_htype = swap16 (un16 (bslice 0 2 N)), ap_ptype = swap16 (un16 (bslice 2 2 N)), ap_hlen = N ! 4, ap_plen = N ! 5,
     ap_oper = swap16 (un16 (bslice 6 2 N)), ap_sha = bslice 8 6 N, ap_spa = bslice 14 4 N, ap_tha = bslice 18 6 N, ap_tpa = bslice 24 4 N\<rparr>"

lemma bslice_1: "k < length N \<Longrightarrow> [N ! k] = bslice k 1 N"
  by (simp add: bslice_def take_Suc_conv_app_nth hd_drop_conv_nth take_Suc)

lemma bslice_one: "bslice 1 1 N @ bslice 2 18 N = bslice 1 19 N"
  using bslice_join[of 1 1 N 18] by (simp add: numeral_2_eq_2)

lemma bslice_two: "bslice 0 2 N @ bslice 2 26 N = bslice 0 28 N"
  using bslice_join[of 0 2 N 26] by (simp add: numeral_2_eq_2)

lemma ip_of_bytes:
  assumes "length N = 20"
  shows "ip_ok (ip_of N)" "ip_bytes (ip_of N) = N"
proof -
  show "ip_ok (ip_of N)" using assms by (simp add: ip_ok_def ip_of_def bslice_parts del: ip_okD)
  have v: "ver_ihl (ip_of N) = N ! 0"
    using ver_ihl_ex[of "N ! 0" "ip_of N"] by (simp add: ver_ihl_def ip_of_def)
  have "ip_bytes (ip_of N) = bslice 0 1 N @ bslice 1 1 N @ bslice 2 2 N @ bslice 4 2 N @ bslice 6 2 N @ bslice 8 1 N @ bslice 9 1 N @
      bslice 10 2 N @ bslice 12 4 N @ bslice 16 4 N"
    unfolding ip_bytes_def v using assms by (simp add: ip_of_def be16_un16 le16_un16 bslice_parts bslice_1)
  also have "\<dots> = bslice 0 20 N"
    using bslice_join[of 12 4 N 4] bslice_join[of 10 2 N 8] bslice_join[of 9 1 N 10] bslice_join[of 8 1 N 11] bslice_join[of 6 2 N 12]
      bslice_join[of 4 2 N 14] bslice_join[of 2 2 N 16] bslice_one[of N] bslice_join[of 0 1 N 19] by simp
  finally show "ip_bytes (ip_of N) = N" using assms by (simp add: bslice_all)
qed

lemma arp_of_bytes:
  assumes "length N = 28"
  shows "arp_ok (arp_of N)" "arp_bytes (arp_of N) = N"
proof -
  show "arp_ok (arp_of N)" using assms by (simp add: arp_ok_def arp_of_def bslice_parts del: arp_okD)
  have "arp_bytes (arp_of N) = bslice 0 2 N @ bslice 2 2 N @ bslice 4 1 N @ bslice 5 1 N @ bslice 6 2 N @ bslice 8 6 N @ bslice 14 4 N @
      bslice 18 6 N @ bslice 24 4 N"
    unfolding arp_bytes_def using assms by (simp add: arp_of_def be16_un16 bslice_parts bslice_1)
  also have "\<dots> = bslice 0 28 N"
    using bslice_join[of 18 6 N 4] bslice_join[of 14 4 N 10] bslice_join[of 8 6 N 14] bslice_join[of 6 2 N 20] bslice_join[of 5 1 N 22]
      bslice_join[of 4 1 N 23] bslice_join[of 2 2 N 24] bslice_two[of N] by simp
  finally show "arp_bytes (arp_of N) = N" using assms by (simp add: bslice_all)
qed

section \<open>Frames in a buffer\<close>

text \<open>The offsets that \<open>net_buff_alloc\<close> sets and \<open>eth_type_proto\<close> leaves.\<close>

definition placed :: "net_buff \<Rightarrow> bool" where
  "placed b \<longleftrightarrow> nb_mac_hdr_offset b = 0 \<and> nb_network_hdr_offset b = 14"

abbreviation (input) "dst_at b \<equiv> bslice 0 6 (nb_mem b)"
abbreviation (input) "src_at b \<equiv> bslice 6 6 (nb_mem b)"
abbreviation (input) "type_at b \<equiv> swap16 (un16 (bslice 12 2 (nb_mem b)))"
abbreviation (input) "ip_hdr_at b \<equiv> ip_of (bslice 14 20 (nb_mem b))"

lemma eth_at:
  assumes "14 \<le> length m"
  shows "bslice 0 14 m = eth_bytes (bslice 0 6 m) (bslice 6 6 m) (swap16 (un16 (bslice 12 2 m)))"
  using eth_bytes_ex[of "bslice 0 14 m"] assms by (simp add: bslice_parts bslice_bslice)

lemma arp_frame_any:
  assumes "placed b" "42 \<le> length (nb_mem b)"
  shows "arp_frame b (dst_at b) (src_at b) (type_at b) (arp_of (bslice 14 28 (nb_mem b)))"
  using assms eth_at[of "nb_mem b"] arp_of_bytes[of "bslice 14 28 (nb_mem b)"]
  by (simp add: arp_frame_def placed_def view_def bslice_parts)

lemma ip_at_any:
  assumes "placed b" "34 \<le> length (nb_mem b)" "14 + 4 * unat (ih_ihl (ip_hdr_at b)) \<le> length (nb_mem b)"
  shows "ip_at b (ip_hdr_at b)"
  using assms ip_of_bytes[of "bslice 14 20 (nb_mem b)"]
  by (simp add: ip_at_def placed_def Let_def bslice_parts)

lemma ip_frame_any:
  assumes "placed b" "34 \<le> length (nb_mem b)" "ih_ihl (ip_hdr_at b) = 5"
    and "20 \<le> unat (ih_tot_len (ip_hdr_at b))" "14 + unat (ih_tot_len (ip_hdr_at b)) \<le> length (nb_mem b)"
  shows "ip_frame (b\<lparr>nb_transport_hdr_offset := 34\<rparr>) (dst_at b) (src_at b) (type_at b) (ip_hdr_at b)
    (bslice 34 (unat (ih_tot_len (ip_hdr_at b)) - 20) (nb_mem b))"
  using assms eth_at[of "nb_mem b"] ip_of_bytes[of "bslice 14 20 (nb_mem b)"]
  by (simp add: ip_frame_def placed_def view_def bslice_parts)

section \<open>What becomes of a frame\<close>

text \<open>
  How the handlers end with the received buffer \<open>a\<close>, which was \<open>b\<close>: it is freed, and the ARP entry may have been set,
  or it is transmitted with new contents \<open>c\<close>, or it is left as it is and lost.  The new state is given exactly, up to
  what the driver does.
\<close>

definition recv_end :: "('h, 'w) ip_world_scheme platform \<Rightarrow> nat \<Rightarrow> addr \<Rightarrow> net_buff \<Rightarrow> (net_buff \<Rightarrow> bool) \<Rightarrow> bool \<Rightarrow>
    ('h, 'w) ip_world_scheme \<Rightarrow> ('h, 'w) ip_world_scheme \<Rightarrow> bool" where
  "recv_end P fuel a b answer lost w w' \<longleftrightarrow>
     (if lost then w' = w\<lparr>nbs := (nbs w)(a \<mapsto> b\<lparr>nb_transport_hdr_offset := 34\<rparr>)\<rparr>
      else (\<exists>t. w' = freed a (w\<lparr>arp_tbl := t\<rparr>)) \<or>
        (\<exists>c r. answer c \<and> nb_net_dev c = nb_net_dev b \<and> nb_next c = NULLP \<and>
           netdev_list_xmit P fuel (NB a) (w\<lparr>nbs := (nbs w)(a \<mapsto> c)\<rparr>) = Ok (r, w')))"

lemma recv_end_freed: "\<not> lost \<Longrightarrow> recv_end P fuel a b answer lost w (freed a (w\<lparr>arp_tbl := t\<rparr>))"
  by (auto simp: recv_end_def)

lemma recv_end_freed_same: "\<not> lost \<Longrightarrow> recv_end P fuel a b answer lost w (freed a w)"
  using recv_end_freed[of lost P fuel a b answer w "arp_tbl w"] by simp

lemma recv_end_sent:
  assumes drv: "tx_driver P sent m K d k q" and fuel: "2 * Suc K \<le> fuel" and w: "tx_ready d k w"
    and c: "nb_net_dev b = d" "nb_net_dev c = d" "nb_next c = NULLP" "answer c" and l: "\<not> lost"
  shows "\<exists>r w'. netdev_list_xmit P fuel (NB a) (w\<lparr>nbs := (nbs w)(a \<mapsto> c)\<rparr>) = Ok (r, w') \<and> recv_end P fuel a b answer lost w w'"
proof -
  let ?w = "w\<lparr>nbs := (nbs w)(a \<mapsto> c)\<rparr>"
  have "tx_ready d k ?w" "nbs ?w a = Some c" using w by (simp_all add: tx_ready_def)
  from netdev_list_xmit_one[OF drv this c(2,3) fuel] show ?thesis
    using c l by (auto simp: recv_end_def)
qed

text \<open>A frame that goes back to the hardware address it came from.\<close>

definition sent_back :: "net_buff \<Rightarrow> bytes \<Rightarrow> net_buff \<Rightarrow> bool" where
  "sent_back b mac c \<longleftrightarrow> nb_net_dev c = nb_net_dev b \<and> bslice 0 14 (nb_mem c) = eth_bytes (src_at b) mac (type_at b)"

lemma arp_any:
  fixes w :: "('h, 'w) ip_world_scheme"
  assumes P: "swaps_ok P" and drv: "tx_driver P sent m K d k q" and w: "tx_ready d k w" and fuel: "2 * Suc K \<le> fuel"
    and b: "nbs w a = Some b" "nb_net_dev b = d" "nb_next b = NULLP" and dev: "eth_dev d w x"
    and p: "placed b" "42 \<le> length (nb_mem b)"
  shows "\<exists>r w'. arp_recv P fuel (NB a) w = Ok (r, w') \<and> recv_end P fuel a b (sent_back b (nd_dev_addr x)) False w w'"
proof -
  let ?p = "arp_of (bslice 14 28 (nb_mem b))"
  have x: "load_dev w (nb_net_dev b) = Ok x" "length (nd_dev_addr x) = 6"
    using dev b(2) by (simp_all add: eth_dev_def mac_ok_def load_dev_def)
  note f = arp_frame_any[OF p] 
  note proc = arp_proc_frame[OF P b(1) f x, of fuel] and recv = arp_recv_frame[OF b(1) f, of P fuel]
  have "\<exists>r w'. arp_proc P fuel (NB a) w = Ok (r, w') \<and> recv_end P fuel a b (sent_back b (nd_dev_addr x)) False w w'"
  proof (cases "arp_decide (le32 (my_ip w)) ?p")
    case Ignore
    then show ?thesis using proc recv_end_freed_same[of False P fuel a b _ w] by auto
  next
    case Learn
    then show ?thesis using proc recv_end_freed[of False P fuel a b _ w] by auto
  next
    case Answer
    then obtain v where v: "arp_proc P fuel (NB a) w = bnd (arp_xmit P fuel (NB a)
          (w\<lparr>nbs := (nbs w)(a \<mapsto> b\<lparr>nb_pkt_len := nb_pkt_len b - 4, nb_mem := v\<rparr>)\<rparr>)) (\<lambda>(_, w). Ok (NETDEV_RX_SUCCESS, w))"
        "arp_frame (b\<lparr>nb_pkt_len := nb_pkt_len b - 4, nb_mem := v\<rparr>) (src_at b) (nd_dev_addr x) (type_at b)
          (arp_answer (nd_dev_addr x) (le32 (my_ip w)) ?p)"
      using proc by auto
    let ?c = "b\<lparr>nb_pkt_len := nb_pkt_len b - 4, nb_mem := v\<rparr>"
    have "length (src_at b) = 6" using p(2) by (simp add: bslice_parts)
    then have "sent_back b (nd_dev_addr x) ?c" using v(2) p(1) x(2) by (simp add: sent_back_def arp_frame_def view_def placed_def)
    from recv_end_sent[OF drv fuel w, of b ?c "sent_back b (nd_dev_addr x)" False a] this b(2,3) v(1) show ?thesis
      by (auto simp: arp_xmit_def)
  qed
  then show ?thesis using recv recv_end_freed_same[of False P fuel a b _ w] by (auto split: if_splits)
qed

text \<open>An echo request that the stack accepts but that is for another host.\<close>

definition icmp_at :: "net_buff \<Rightarrow> bytes" where
  "icmp_at b = bslice 34 (unat (ih_tot_len (ip_hdr_at b)) - 20) (nb_mem b)"

definition echo_accepted :: "net_buff \<Rightarrow> bool" where
  "echo_accepted b \<longleftrightarrow> ip_valid b (ip_hdr_at b) \<and> \<not> len_refused (ih_tot_len (ip_hdr_at b)) \<and> ih_protocol (ip_hdr_at b) = IPPROTO_ICMP \<and>
     ip_unicast (ih_dst (ip_hdr_at b)) \<and> chk (icmp_at b) = 0 \<and> icmp_at b ! 0 = ICMP_ECHO_REQ"

lemma icmp_any:
  fixes w :: "('h, 'w) ip_world_scheme"
  assumes P: "swaps_ok P" and drv: "tx_driver P sent m K d k q" and w: "tx_ready d k w" and fuel: "2 * Suc K \<le> fuel"
    and b: "nbs w a = Some b" "nb_net_dev b = d" "nb_next b = NULLP" and dev: "eth_dev d w x"
    and p: "placed b" "34 \<le> length (nb_mem b)" "ih_ihl (ip_hdr_at b) = 5"
    and l: "24 \<le> unat (ih_tot_len (ip_hdr_at b))" "14 + unat (ih_tot_len (ip_hdr_at b)) \<le> length (nb_mem b)"
  defines "echo \<equiv> ip_unicast (ih_dst (ip_hdr_at b)) \<and> chk (icmp_at b) = 0 \<and> icmp_at b ! 0 = ICMP_ECHO_REQ"
  shows "\<exists>r w'. icmp_recv P fuel (NB a) (w\<lparr>nbs := (nbs w)(a \<mapsto> b\<lparr>nb_transport_hdr_offset := 34\<rparr>)\<rparr>) = Ok (r, w') \<and>
    recv_end P fuel a b (sent_back b (nd_dev_addr x)) (echo \<and> ih_dst (ip_hdr_at b) \<noteq> le32 (my_ip w)) w w'"
proof -
  let ?h = "ip_hdr_at b" and ?t = "icmp_at b" and ?b = "b\<lparr>nb_transport_hdr_offset := 34\<rparr>"
  let ?w = "w\<lparr>nbs := (nbs w)(a \<mapsto> ?b)\<rparr>"
  have l20: "20 \<le> unat (ih_tot_len ?h)" using l(1) by simp
  have f: "ip_frame ?b (dst_at b) (src_at b) (type_at b) ?h ?t"
    using ip_frame_any[OF p l20 l(2)] by (simp add: icmp_at_def)
  have t: "4 \<le> length ?t" using l by (simp add: icmp_at_def bslice_parts)
  have b': "nbs ?w a = Some ?b" by simp
  have t1: "1 \<le> length ?t" using t by simp
  note recv = icmp_recv_frame[OF P b' f t1, of fuel]
  show ?thesis
  proof (cases echo)
    case False
    have "freed a ?w = freed a w" by (simp add: freed_def)
    then show ?thesis using False recv recv_end_freed_same[of False P fuel a b _ w] by (auto simp: echo_def)
  next
    case e: True
    show ?thesis
    proof (cases "ih_dst ?h = le32 (my_ip w)")
      case False
      then have "icmp_recv P fuel (NB a) ?w = Ok (NETDEV_RX_SUCCESS, ?w)"
        using icmp_echo_not_ours_leaks[OF P b' f t1] e by (simp add: echo_def)
      moreover have "recv_end P fuel a b (sent_back b (nd_dev_addr x)) True w ?w" by (simp add: recv_end_def)
      ultimately show ?thesis using False e by simp
    next
      case True
      have x: "load_dev ?w (nb_net_dev ?b) = Ok x" "length (nd_dev_addr x) = 6" "ih_dst ?h = le32 (my_ip ?w)"
        using dev b(2) True by (simp_all add: eth_dev_def mac_ok_def load_dev_def)
      obtain v where v: "icmp_echo P fuel (NB a) ?w = bnd (netdev_list_xmit P fuel (NB a)
          (?w\<lparr>nbs := (nbs ?w)(a \<mapsto> ?b\<lparr>nb_pkt_len := nb_pkt_len ?b - 4, nb_mem := v\<rparr>)\<rparr>)) (\<lambda>(_, w). Ok (True, w))"
        "ip_frame (?b\<lparr>nb_pkt_len := nb_pkt_len ?b - 4, nb_mem := v\<rparr>) (src_at b) (nd_dev_addr x) (type_at b)
          (echo_hdr (my_ip ?w) ?h) (echo_data ?t)"
        using icmp_echo_frame[OF P b' f t x] by blast
      let ?c = "?b\<lparr>nb_pkt_len := nb_pkt_len ?b - 4, nb_mem := v\<rparr>"
      have "length (src_at b) = 6" using p(2) by (simp add: bslice_parts)
      then have "sent_back b (nd_dev_addr x) ?c" using v(2) p(1) x(2) by (simp add: sent_back_def ip_frame_def view_def placed_def)
      from recv_end_sent[OF drv fuel w, of b ?c "sent_back b (nd_dev_addr x)" False a] this b(2,3) v(1) recv e True show ?thesis
        by (auto simp: echo_def)
    qed
  qed
qed

text \<open>
  The sizes that the handlers rely on and do not check: room for the header that is read, and of a message of ICMP that
  the total length covers its header and lies in the buffer.
\<close>

definition recv_sized :: "'z swaps_scheme \<Rightarrow> net_buff \<Rightarrow> bool" where
  "recv_sized P b \<longleftrightarrow> placed b \<and> (nb_protocol b = htons P ETH_P_ARP \<longrightarrow> 42 \<le> length (nb_mem b)) \<and>
     (nb_protocol b = htons P ETH_P_IP \<longrightarrow> 34 \<le> length (nb_mem b) \<and> 14 + 4 * unat (ih_ihl (ip_hdr_at b)) \<le> length (nb_mem b) \<and>
       (ih_protocol (ip_hdr_at b) = IPPROTO_ICMP \<longrightarrow>
          24 \<le> unat (ih_tot_len (ip_hdr_at b)) \<and> 14 + unat (ih_tot_len (ip_hdr_at b)) \<le> length (nb_mem b)))"

lemma ip_any:
  fixes w :: "('h, 'w) dhcp_world_scheme"
  assumes "swaps_ok P" "tx_driver P sent m K d k q" "tx_ready d k w" "2 * Suc K \<le> fuel"
    and "nbs w a = Some b" "nb_net_dev b = d" "nb_next b = NULLP" "eth_dev d w x" "recv_sized P b" "nb_protocol b = htons P ETH_P_IP"
    and "inet_ready w" "ipp_tcp (ip_proto_ops w) = None" "ipp_udp (ip_proto_ops w) = None"
  shows "\<exists>r w'. ip_recv P (call_hdlr user P fuel 1) (NB a) w = Ok (r, w') \<and>
    recv_end P fuel a b (sent_back b (nd_dev_addr x)) (echo_accepted b \<and> ih_dst (ip_hdr_at b) \<noteq> le32 (my_ip w)) w w'"
proof -
  let ?h = "ip_hdr_at b" and ?w = "w\<lparr>nbs := (nbs w)(a \<mapsto> b\<lparr>nb_transport_hdr_offset := 34\<rparr>)\<rparr>"
  have s: "placed b" "34 \<le> length (nb_mem b)" "14 + 4 * unat (ih_ihl ?h) \<le> length (nb_mem b)"
    using assms(9,10) by (simp_all add: recv_sized_def)
  have "nb_network_hdr_offset b + 20 = 34" using s(1) by (simp add: placed_def)
  note run = ip_recv_cases[OF assms(1,5) ip_at_any[OF s], of "call_hdlr user P fuel 1", unfolded this]
  note fr = recv_end_freed_same[of False P fuel a b "sent_back b (nd_dev_addr x)" w]
  consider (refused) "\<not> (ip_valid b ?h \<and> \<not> len_refused (ih_tot_len ?h))"
    | (other) "ip_valid b ?h" "\<not> len_refused (ih_tot_len ?h)" "ih_protocol ?h \<noteq> IPPROTO_ICMP"
    | (icmp) "ip_valid b ?h" "\<not> len_refused (ih_tot_len ?h)" "ih_protocol ?h = IPPROTO_ICMP" by blast
  then show ?thesis
  proof cases
    case refused
    then show ?thesis using run fr by (auto simp: echo_accepted_def)
  next
    case other
    then have "ip_proto_handler (call_hdlr user P fuel 1) (ih_protocol ?h) (NB a) ?w = Ok (NETDEV_RX_DROP, freed a w)"
      using assms(12,13) by (simp add: ip_proto_handler_def drop_nb_Ok freed_def)
    then show ?thesis using run other fr by (auto simp: echo_accepted_def)
  next
    case icmp
    have "ih_ihl ?h = 5" using icmp by (simp add: ip_valid_def)
    moreover have "24 \<le> unat (ih_tot_len ?h)" "14 + unat (ih_tot_len ?h) \<le> length (nb_mem b)"
      using assms(9,10) icmp by (simp_all add: recv_sized_def)
    moreover have "ip_recv P (call_hdlr user P fuel 1) (NB a) w = icmp_recv P fuel (NB a) ?w"
      using run icmp assms(11) by (simp add: ip_proto_handler_def inet_ready_def)
    ultimately show ?thesis
      using icmp_any[OF assms(1-8) s(1,2)] icmp by (simp add: echo_accepted_def conj_assoc)
  qed
qed

text \<open>An echo request for another host that the stack accepts; it keeps the buffer.\<close>

definition lost_echo :: "'z swaps_scheme \<Rightarrow> uint32_t \<Rightarrow> net_buff \<Rightarrow> bool" where
  "lost_echo P my b \<longleftrightarrow> nb_protocol b = htons P ETH_P_IP \<and> echo_accepted b \<and> ih_dst (ip_hdr_at b) \<noteq> le32 my"

lemma recv_any:
  fixes w :: "('h, 'w) dhcp_world_scheme"
  assumes "swaps_ok P" "tx_driver P sent m K d k q" "tx_ready d k w" "2 * Suc K \<le> fuel" "inet_ready w"
    and "ipp_tcp (ip_proto_ops w) = None" "ipp_udp (ip_proto_ops w) = None"
    and "nbs w a = Some b" "nb_net_dev b = d" "nb_next b = NULLP" "eth_dev d w x" "recv_sized P b"
  shows "\<exists>r w'. recv_pkt_handler P (call_hdlr user P fuel 2) (NB a) w = Ok (r, w') \<and>
    recv_end P fuel a b (sent_back b (nd_dev_addr x)) (lost_echo P (my_ip w) b) w w'"
proof -
  let ?run = "recv_pkt_handler P (call_hdlr user P fuel 2) (NB a) w"
  have neq: "htons P ETH_P_IP \<noteq> htons P ETH_P_ARP" using assms(1) by (simp add: swap_simps)
  note dispatch = recv_pkt_handler_def load_nb_NB inet_ready_def numeral_2_eq_2
  consider (ip) "nb_protocol b = htons P ETH_P_IP" | (arp) "nb_protocol b = htons P ETH_P_ARP"
    | (other) "nb_protocol b \<notin> {htons P ETH_P_IP, htons P ETH_P_ARP}" by blast
  then show ?thesis
  proof cases
    case ip
    then have "?run = ip_recv P (call_hdlr user P fuel 1) (NB a) w" using assms(5,8) by (simp add: dispatch)
    then show ?thesis using ip_any[OF assms(1-4,8-12) ip assms(5-7)] ip by (simp add: lost_echo_def)
  next
    case arp
    then have "?run = arp_recv P fuel (NB a) w" using assms(5,8) neq by (simp add: dispatch)
    then show ?thesis using arp_any[OF assms(1-4,8-11)] assms(12) arp neq by (auto simp: recv_sized_def lost_echo_def)
  next
    case other
    then have "?run = Ok (NETDEV_RX_DROP, freed a w)" using assms(8) by (simp add: dispatch drop_nb_freed)
    then show ?thesis using other recv_end_freed_same[of False P fuel a b _ w] by (auto simp: lost_echo_def)
  qed
qed

section \<open>Properties\<close>

text \<open>C3: memory safety of the receive path.  Whatever bytes a received frame holds, if the headers and, of an ICMP
  packet, the message lie in the buffer, the initialised stack processes it without a fault, and every other
  buffer is kept.  The buffer itself is freed and nothing is sent, or exactly one frame goes out, on the same device
  and back to the hardware address the frame came from; only a valid echo request for another host is neither
  answered nor freed.\<close>

theorem recv_memory_safe:
  fixes w :: "('h, 'w) dhcp_world_scheme"
  assumes "swaps_ok P" "tx_driver P sent m K d k q" "tx_ready d k w" "2 * Suc K \<le> fuel" "inet_ready w"
    and "ipp_tcp (ip_proto_ops w) = None" "ipp_udp (ip_proto_ops w) = None"
    and "nbs w a = Some b" "nb_net_dev b = d" "nb_next b = NULLP" "eth_dev d w x" "recv_sized P b"
  shows "\<exists>r w'. recv_pkt_handler P (call_hdlr user P fuel 2) (NB a) w = Ok (r, w') \<and>
    (\<forall>a' c. a' \<noteq> a \<longrightarrow> nbs w a' = Some c \<longrightarrow> nbs w' a' = Some c) \<and>
    (if nb_protocol b = htons P ETH_P_IP \<and> echo_accepted b \<and> ih_dst (ip_hdr_at b) \<noteq> le32 (my_ip w)
     then nbs w' a \<noteq> None \<and> hw w' = hw w
     else hw w' = hw w \<and> nbs w' a = None \<or>
       (\<exists>c. sent (hw w') = sent (hw w) @ [c] \<and> nb_net_dev c = d \<and>
          bslice 0 14 (nb_mem c) = eth_bytes (src_at b) (nd_dev_addr x) (type_at b)))"
proof -
  obtain r w' where w': "recv_pkt_handler P (call_hdlr user P fuel 2) (NB a) w = Ok (r, w')"
    "recv_end P fuel a b (sent_back b (nd_dev_addr x)) (lost_echo P (my_ip w) b) w w'"
    using recv_any[OF assms, of user] by blast
  have sent: "sent (hw w') = sent (hw w) @ [c]" "\<forall>a' e. a' \<noteq> a \<longrightarrow> nbs w a' = Some e \<longrightarrow> nbs w' a' = Some e"
    if "nb_net_dev c = d" "nb_next c = NULLP" "netdev_list_xmit P fuel (NB a) (w\<lparr>nbs := (nbs w)(a \<mapsto> c)\<rparr>) = Ok (s, w')" for c s
    using netdev_list_xmit_one[OF assms(2) _ _ that(1,2) assms(4), of "w\<lparr>nbs := (nbs w)(a \<mapsto> c)\<rparr>" a] assms(3) that(3)
    by (simp_all add: tx_ready_def)
  show ?thesis
  proof (cases "lost_echo P (my_ip w) b")
    case True
    then show ?thesis using w' by (auto simp: recv_end_def lost_echo_def)
  next
    case False
    then consider t where "w' = freed a (w\<lparr>arp_tbl := t\<rparr>)"
      | c s where "sent_back b (nd_dev_addr x) c" "nb_net_dev c = d" "nb_next c = NULLP"
        "netdev_list_xmit P fuel (NB a) (w\<lparr>nbs := (nbs w)(a \<mapsto> c)\<rparr>) = Ok (s, w')"
      using w'(2) assms(9) by (auto simp: recv_end_def)
    then show ?thesis
    proof cases
      case 1
      then show ?thesis using w'(1) False by (auto simp: lost_echo_def freed_def)
    next
      case 2
      then show ?thesis using w'(1) False sent[OF 2(2-4)] by (auto simp: lost_echo_def sent_back_def)
    qed
  qed
qed

text \<open>A frame of 80 bytes, all of them 255, that the driver took for an IP packet.\<close>

definition demo_noise :: net_buff where
  "demo_noise = (demo_nb (replicate 80 255))\<lparr>nb_protocol := htons avr_swaps ETH_P_IP\<rparr>"

theorem recv_memory_safe_witness:
  "\<exists>r w'. recv_pkt_handler demo_P (call_hdlr (\<lambda>i nb w. Fault Null_deref) demo_P 8 2) (NB 5)
      (inet_init (demo_dhcp_world [] 0x0200000A [5 \<mapsto> demo_noise, 7 \<mapsto> demo_ping_nb])) = Ok (r, w') \<and>
    nbs w' 7 = Some demo_ping_nb"
proof -
  let ?w = "inet_init (demo_dhcp_world [] 0x0200000A [5 \<mapsto> demo_noise, 7 \<mapsto> demo_ping_nb])"
  have w: "tx_ready 1 1 ?w" "inet_ready ?w" "ipp_tcp (ip_proto_ops ?w) = None" "ipp_udp (ip_proto_ops ?w) = None"
    "nbs ?w 5 = Some demo_noise" "eth_dev 1 ?w demo_dev" "(2 :: nat) * Suc 3 \<le> 8"
    by (simp_all add: inet_init_ready tx_ready_def eth_dev_def)
      (simp_all add: inet_init_def ip_init_def arp_init_def icmp_init_def tcp_init_def udp_init_def pkt_hdlr_add_def
        ip_proto_handler_add_def ETH_P_IP_def ETH_P_ARP_def IPPROTO_ICMP_def IPPROTO_TCP_def IPPROTO_UDP_def)
  have b: "nb_net_dev demo_noise = 1" "nb_next demo_noise = NULLP" by (simp_all add: demo_noise_def)
  have "bslice 14 20 (nb_mem demo_noise) = replicate 20 255" by (simp add: demo_noise_def bslice_def)
  moreover have "ih_protocol (ip_of (replicate 20 255)) \<noteq> IPPROTO_ICMP" "14 + 4 * unat (ih_ihl (ip_of (replicate 20 255))) \<le> 80"
    by (simp_all add: ip_of_def IPPROTO_ICMP_def get_ihl_def)
  moreover have "length (nb_mem demo_noise) = 80" "placed demo_noise" by (simp_all add: demo_noise_def placed_def)
  ultimately have s: "recv_sized demo_P demo_noise" by (simp add: recv_sized_def)
  note R = recv_memory_safe[OF demo_swaps_ok demo_tx_driver[of 1 1 "QVAR 0"] w(1,7,2-5) b w(6) s, of "\<lambda>i nb w. Fault Null_deref"]
  have "nbs ?w 7 = Some demo_ping_nb" "(7 :: nat) \<noteq> 5" by simp_all
  with R show ?thesis by blast
qed

end
