(* ===== verification/Datagram.thy ===== *)
theory Datagram
  imports Stack
begin

text \<open>
  A datagram from one application to another: \<open>sendto\<close> on one host, the frame on the wire, and on the other host the
  decoding of the link header, the two tables of handlers, and the handler that the application has registered for UDP.
\<close>

section \<open>Delivery of a frame\<close>

text \<open>
  What a driver does with a frame that it has put in a buffer: it lets \<open>eth_type_proto\<close> decode the link header, stores
  the type in \<open>protocol\<close>, and hands the buffer to \<open>recv_pkt_handler\<close>.  The drivers are not part of the sources;
  these two functions are what the sources offer them.
\<close>

definition deliver :: "('h, 'w) dhcp_world_scheme platform \<Rightarrow> ('h, 'w) dhcp_world_scheme hdlr_call \<Rightarrow> nbp \<Rightarrow> addr \<Rightarrow>
    ('h, 'w) dhcp_world_scheme \<Rightarrow> (int8_t \<times> ('h, 'w) dhcp_world_scheme) res" where
  "deliver P call nb d w = bnd (eth_type_proto P nb d w) (\<lambda>(type, w).
     bnd (nb_upd nb (\<lambda>b. b\<lparr>nb_protocol := type\<rparr>) w) (recv_pkt_handler P call nb))"

lemma deliver_ip:
  assumes P: "swaps_ok P" and v: "inet_ready v" and b: "nbs v a = Some b" "nb_data b = 0" "14 \<le> length (nb_mem b)"
    and hdr: "bslice 0 6 (nb_mem b) = replicate 6 0xFF" "bslice 12 2 (nb_mem b) = be16 ETH_P_IP"
    and d: "d \<noteq> 0" "devs v d = Some x" "mac_ok x"
  shows "deliver P (call_hdlr user P fuel 2) (NB a) d v = ip_recv P (call_hdlr user P fuel 1) (NB a)
    (v\<lparr>nbs := (nbs v)(a \<mapsto> b\<lparr>nb_net_dev := d, nb_mac_hdr_offset := 0, nb_pkt_type := of_nat (pkt_kind x (replicate 6 0xFF)),
       nb_protocol := htons P ETH_P_IP\<rparr>)\<rparr>)"
proof -
  have t: "be16 ETH_P_IP = [byte_of 1 ETH_P_IP, byte_of 0 ETH_P_IP]" "1500 < sint (ETH_P_IP :: uint16_t)"
    by (simp_all add: be16_def ETH_P_IP_def)
  have "eth_type_proto P (NB a) d v = Ok (htons P ETH_P_IP, v\<lparr>nbs := (nbs v)(a \<mapsto>
      b\<lparr>nb_net_dev := d, nb_mac_hdr_offset := 0, nb_pkt_type := of_nat (pkt_kind x (replicate 6 0xFF))\<rparr>)\<rparr>)"
    using eth_type_proto_Ok[OF P b(1) d, of "replicate 6 0xFF", unfolded b(2) add_0, OF b(3) hdr(1) hdr(2)[unfolded t(1)]]
      frame_proto_type[OF P t(2)] by simp
  then show ?thesis
    using v by (simp add: deliver_def nb_upd_NB recv_pkt_handler_def load_nb_NB inet_ready_def numeral_2_eq_2)
qed

lemma broadcast_not_other: "unat (of_nat (pkt_kind x (replicate 6 0xFF)) :: 2 word) \<noteq> PKT_OTHERHOST"
  by (simp add: pkt_kind_def PKT_HOST_def PKT_OTHERHOST_def PKT_BROADCAST_def PKT_MULTICAST_def)

section \<open>Properties\<close>

text \<open>C13: a datagram goes from one application to another through all layers.  The frame that \<open>sendto\<close> transmits on one
  host, in a buffer of another whose stack is initialised and where a handler for UDP is registered, is a broadcast
  frame for the receiver, passes \<open>eth_type_proto\<close>, \<open>recv_pkt_handler\<close>, \<open>ip_recv\<close> and \<open>ip_proto_handler\<close>, and reaches that
  handler with the transport header located, the address and the port of the sender, the port it was sent to, and the
  data.  Only when the length of the data plus 28 is a multiple of 256 below 5120 does the receiver drop it.\<close>

theorem datagram_delivered:
  fixes w :: "('h, 'w) sock_world_scheme" and v :: "('g, 'v) dhcp_world_scheme"
  assumes "swaps_ok P" "tx_driver P sent m K d c (TXQ sk)" "tx_ready d c w" "K < fuel" "1 < fuel" "curr_net_dev w = d"
      "eth_dev d w x" "sk \<noteq> 0" "socks w sk = Some k" "queue_rep w (TXQ sk) []" "alloc_ok w" "unat n \<le> length data"
      "unat n + 42 < 65536" "sin_family to \<in> {AF_INET, AF_UNSPEC}" "sin_port to \<noteq> 0" "SOCKADDR_IN_SIZE \<le> tolen"
      "flags AND MSG_OOB = 0" "tx_exact P c" "sk_p_ops k = Some t" "sk_protocol k = IPPROTO_UDP"
    and "nd_broadcast x = replicate 6 0xFF" "sendto P fuel sk data n flags (Some to) tolen w = Ok (r, w')"
      "sent (hw w') = sent (hw w) @ [f]"
    and "swaps_ok P'" "inet_ready v" "ipp_udp (ip_proto_ops v) = Some (H_user i)" "nbs v a = Some b" "nb_mem b = nb_mem f"
      "nb_data b = 0" "nb_network_hdr_offset b = 14" "unat n + 42 \<le> unat (nb_pkt_len b)"
      "d' \<noteq> 0" "devs v d' = Some x'" "mac_ok x'"
  shows "r = n \<and> (\<exists>e. deliver P' (call_hdlr user P' fuel' 2) (NB a) d' v =
      (if (unat n + 28) mod 256 = 0 \<and> unat n + 28 < 5120 then Ok (NETDEV_RX_DROP, freed a v)
       else user i (NB a) (v\<lparr>nbs := (nbs v)(a \<mapsto> e)\<rparr>)) \<and>
    nb_net_dev e = d' \<and> nb_protocol e = htons P' ETH_P_IP \<and> nb_transport_hdr_offset e = 34 \<and>
    bslice 26 4 (nb_mem e) = le32 (my_ip w) \<and> bslice 34 2 (nb_mem e) = le16 (send_port P w k) \<and>
    bslice 36 2 (nb_mem e) = le16 (sin_port to) \<and> bslice 38 2 (nb_mem e) = be16 (n + 8) \<and>
    drop 42 (nb_mem e) = take (unat n) data)"
proof -
  have f: "r = n" "nb_mem b = udp_frame x IPPROTO_UDP (my_ip w) (send_port P w k) to n (take (unat n) data)"
    using sendto_frame[OF assms(1-20)] assms(22,23,28) by auto
  have mac: "mac_ok x" using assms(7) by (simp add: eth_dev_def)
  let ?e = "b\<lparr>nb_net_dev := d', nb_mac_hdr_offset := 0, nb_pkt_type := of_nat (pkt_kind x' (replicate 6 0xFF)),
       nb_protocol := htons P' ETH_P_IP\<rparr>" and ?E = "eth_bytes (nd_broadcast x) (nd_dev_addr x) ETH_P_IP"
  have E: "length ?E = 14" "bslice 0 6 ?E = replicate 6 0xFF" "bslice 12 2 ?E = be16 ETH_P_IP"
    using mac assms(21) by (simp_all add: mac_ok_def eth_bytes_def bslice_def)
  have m: "14 \<le> length (nb_mem b)" "bslice 0 6 (nb_mem b) = replicate 6 0xFF" "bslice 12 2 (nb_mem b) = be16 ETH_P_IP"
    "bslice 26 4 (nb_mem b) = le32 (my_ip w)"
    using E by (simp_all add: f(2) udp_frame_def bslice_def ip_bytes_def)
  note dl = deliver_ip[OF assms(24,25,27,29) m(1-3) assms(32-34), of user fuel']
  have "nbs (v\<lparr>nbs := (nbs v)(a \<mapsto> ?e)\<rparr>) a = Some ?e" "nb_mem ?e = udp_frame x IPPROTO_UDP (my_ip w) (send_port P w k) to n (take (unat n) data)"
    "nb_network_hdr_offset ?e = 14" "unat (nb_pkt_type ?e) \<noteq> PKT_OTHERHOST" "unat n + 42 \<le> unat (nb_pkt_len ?e)"
    using f(2) assms(30,31) broadcast_not_other by simp_all
  note rc = udp_frame_received[OF assms(24) this mac assms(13)]
  have u: "bslice 34 8 (nb_mem b) = udp_bytes (send_port P w k) (sin_port to) (n + 8)" "drop 42 (nb_mem b) = take (unat n) data"
    using rc(2,3) by simp_all
  have "deliver P' (call_hdlr user P' fuel' 2) (NB a) d' v =
      (if (unat n + 28) mod 256 = 0 \<and> unat n + 28 < 5120 then Ok (NETDEV_RX_DROP, freed a v)
       else user i (NB a) (v\<lparr>nbs := (nbs v)(a \<mapsto> ?e\<lparr>nb_transport_hdr_offset := 34\<rparr>)\<rparr>))"
    unfolding dl rc(1) using assms(26) by (simp add: freed_def ip_proto_handler_def IPPROTO_UDP_def IPPROTO_ICMP_def IPPROTO_TCP_def)
  moreover have "bslice 34 2 (nb_mem b) = bslice 0 2 (bslice 34 8 (nb_mem b))" "bslice 36 2 (nb_mem b) = bslice 2 2 (bslice 34 8 (nb_mem b))"
    "bslice 38 2 (nb_mem b) = bslice 4 2 (bslice 34 8 (nb_mem b))" by (simp_all add: bslice_bslice)
  ultimately show ?thesis using f(1) u m(4) unfolding u(1)
    by (intro conjI exI[of _ "?e\<lparr>nb_transport_hdr_offset := 34\<rparr>"]) (simp_all add: udp_bytes_def bslice_def)
qed

text \<open>Three bytes from the host 10.0.0.1 to a handler of the host 10.0.0.2.\<close>

definition demo_udp_world :: "bytes \<Rightarrow> demo_hw dhcp_world" where
  "demo_udp_world m = ip_proto_handler_add IPPROTO_UDP (Some (H_user 0)) (inet_init (demo_dhcp_world [] 0x0200000A [5 \<mapsto> demo_nb m]))"

lemma demo_udp_world_sel:
  "inet_ready (demo_udp_world m)" "ipp_udp (ip_proto_ops (demo_udp_world m)) = Some (H_user 0)"
  "nbs (demo_udp_world m) 5 = Some (demo_nb m)" "devs (demo_udp_world m) 1 = Some demo_dev"
  using inet_init_ready[of "demo_dhcp_world [] 0x0200000A [5 \<mapsto> demo_nb m]"]
  by (simp_all add: demo_udp_world_def ip_proto_handler_add_def inet_ready_def IPPROTO_UDP_def IPPROTO_ICMP_def IPPROTO_TCP_def)

theorem datagram_delivered_witness:
  "\<exists>w' f e. sendto (demo_platform 1) 9 3 [1, 2, 3] 3 0 (Some \<lparr>sin_family = 1, sin_port = 0x0700, sin_addr = 0x0200000A\<rparr>) 7
      ((demo_sock_world 0x0100000A Map.empty)\<lparr>socks := [3 \<mapsto> (demo_sock 17)\<lparr>sk_src_port := 0\<rparr>]\<rparr>) = Ok (3, w') \<and>
    demo_log (hw w') = [f] \<and>
    deliver demo_P (call_hdlr (\<lambda>i nb w. Ok (42, w)) demo_P 8 2) (NB 5) 1 (demo_udp_world (nb_mem f)) =
      Ok (42, (demo_udp_world (nb_mem f))\<lparr>nbs := (nbs (demo_udp_world (nb_mem f)))(5 \<mapsto> e)\<rparr>) \<and>
    bslice 26 4 (nb_mem e) = [10, 0, 0, 1] \<and> drop 42 (nb_mem e) = [1, 2, 3]"
proof -
  let ?w = "(demo_sock_world 0x0100000A Map.empty)\<lparr>socks := [3 \<mapsto> (demo_sock 17)\<lparr>sk_src_port := 0\<rparr>]\<rparr>"
    and ?d = "[1, 2, 3] :: bytes" and ?to = "\<lparr>sin_family = 1, sin_port = 0x0700, sin_addr = 0x0200000A\<rparr>"
  have w: "tx_ready 1 1 ?w" "curr_net_dev ?w = 1" "eth_dev 1 ?w demo_dev"
    "socks ?w 3 = Some ((demo_sock 17)\<lparr>sk_src_port := 0\<rparr>)" "queue_rep ?w (TXQ 3) []" "alloc_ok ?w"
    by (simp_all add: tx_ready_def eth_dev_def queue_rep_Nil demo_queue_def empty_queue_def)
  have c: "unat (3 :: uint16_t) \<le> length ?d" "unat (3 :: uint16_t) + 42 < 65536" "sin_family ?to \<in> {AF_INET, AF_UNSPEC}"
    "sin_port ?to \<noteq> 0" "SOCKADDR_IN_SIZE \<le> 7" "0 AND MSG_OOB = 0" "sk_p_ops ((demo_sock 17)\<lparr>sk_src_port := 0\<rparr>) = Some Inet_dgram_ops"
    "sk_protocol ((demo_sock 17)\<lparr>sk_src_port := 0\<rparr>) = IPPROTO_UDP" "(3::nat) < 9" "(1::nat) < 9" "(3::addr) \<noteq> 0"
    by (auto simp: AF_INET_def SOCKADDR_IN_SIZE_def IPPROTO_UDP_def demo_sock_def)
  have drv: "tx_driver (demo_platform 1 :: (demo_hw, unit) sock_world_scheme platform) demo_log demo_left 3 1 1 (TXQ 3)"
    by (rule demo_tx_driver) simp_all
  note send = demo_swaps_ok drv w(1) c(9,10) w(2,3) c(11) w(4-6) c(1-6) demo_tx_exact c(7,8)
  obtain w' f where s: "sendto (demo_platform 1) 9 3 ?d 3 0 (Some ?to) 7 ?w = Ok (3, w')" "demo_log (hw w') = demo_log (hw ?w) @ [f]"
    and l: "length (nb_mem f) = 45"
    using sendto_frame[OF send] by (auto simp: udp_frame_def)
  show ?thesis
    using datagram_delivered[OF send _ s, of demo_P "demo_udp_world (nb_mem f)" 0 5 "demo_nb (nb_mem f)" 1 demo_dev "\<lambda>i nb w. Ok (42, w)" 8]
      demo_udp_world_sel[of "nb_mem f"] s l demo_swaps_ok by (auto simp: mac_ok_def le32_demo)
qed

end
