(* ===== verification/Host.thy ===== *)
theory Host
  imports Host_Driver Recv_Safe Datagram
begin

text \<open>
  A whole host in operation: frames arrive, applications open, bind, use and close sockets, ARP requests go out, in any
  order.  The theory states the invariant of the host, and that each operation succeeds under it and keeps it.
\<close>

section \<open>What an operation leaves of the host\<close>

text \<open>The fields of a socket that sending does not change.\<close>

definition sk_core :: "socket \<Rightarrow> sock_ops option \<times> uint8_t \<times> addr \<times> addr" where
  "sk_core k = (sk_p_ops k, sk_protocol k, sk_prev k, sk_next k)"

definition from_host :: "bytes \<Rightarrow> net_buff \<Rightarrow> bool" where
  "from_host mac c \<longleftrightarrow> bslice 6 6 (nb_mem c) = mac"

definition host_kept :: "('h \<Rightarrow> net_buff list) \<Rightarrow> bytes \<Rightarrow> addr \<Rightarrow> addr \<Rightarrow> ('h, 'w) sock_world_scheme \<Rightarrow>
    ('h, 'w) sock_world_scheme \<Rightarrow> bool" where
  "host_kept sent mac d k w w' \<longleftrightarrow> payload w' = payload w \<and> dom (queues w') = dom (queues w) \<and>
     (\<forall>q. queue_rep w q [] \<longrightarrow> queue_rep w' q []) \<and> (tx_ready d k w \<longrightarrow> tx_ready d k w') \<and>
     (\<exists>p ss t. outside d w' = outside d (w\<lparr>inet_port := p, socks := ss, arp_tbl := t\<rparr>) \<and>
        (\<forall>s. map_option sk_core (ss s) = map_option sk_core (socks w s))) \<and>
     (\<exists>cs. sent (hw w') = sent (hw w) @ cs \<and> (\<forall>c \<in> set cs. from_host mac c))"

lemma outside_more:
  assumes "outside d w' = outside d (w :: ('h, 'w) dev_world_scheme)"
  shows "curr_net_dev w' = curr_net_dev w" "map_option dev_fixed (devs w' d) = map_option dev_fixed (devs w d)"
    "dev_world.more w' = dev_world.more w"
  using assms by (simp_all add: outside_def)

lemmas outside_ip = ip_world_more[OF outside_more(3)]
lemmas outside_sock = sock_world_more[OF outside_ip(8)]

lemma host_kept_refl [simp]: "host_kept sent mac d k w w"
proof -
  have "\<exists>p ss t. outside d w = outside d (w\<lparr>inet_port := p, socks := ss, arp_tbl := t\<rparr>) \<and>
      (\<forall>s. map_option sk_core (ss s) = map_option sk_core (socks w s))"
    by (intro exI[of _ "inet_port w"] exI[of _ "socks w"] exI[of _ "arp_tbl w"]) simp
  then show ?thesis by (simp add: host_kept_def)
qed

lemma outside_upd:
  assumes "outside d w1 = outside d (w :: ('h, 'w) sock_world_scheme)"
  shows "outside d (w1\<lparr>inet_port := p, socks := ss, arp_tbl := t\<rparr>) = outside d (w\<lparr>inet_port := p, socks := ss, arp_tbl := t\<rparr>)"
  using assms by (cases w; cases w1) (auto simp: outside_def)

lemma host_kept_trans:
  assumes "host_kept sent mac d k w w1" "host_kept sent mac d k w1 w2"
  shows "host_kept sent mac d k w w2"
proof -
  obtain p ss t where 1: "outside d w1 = outside d (w\<lparr>inet_port := p, socks := ss, arp_tbl := t\<rparr>)"
    "\<forall>s. map_option sk_core (ss s) = map_option sk_core (socks w s)" using assms(1) unfolding host_kept_def by blast
  obtain p' ss' t' where 2: "outside d w2 = outside d (w1\<lparr>inet_port := p', socks := ss', arp_tbl := t'\<rparr>)"
    "\<forall>s. map_option sk_core (ss' s) = map_option sk_core (socks w1 s)" using assms(2) unfolding host_kept_def by blast
  have "socks w1 = ss" using outside_sock(1)[OF 1(1)] by simp
  then have "outside d w2 = outside d (w\<lparr>inet_port := p', socks := ss', arp_tbl := t'\<rparr>) \<and>
      (\<forall>s. map_option sk_core (ss' s) = map_option sk_core (socks w s))"
    using 1(2) 2 outside_upd[OF 1(1), where p = p' and ss = ss' and t = t'] by simp
  then have "\<exists>p ss t. outside d w2 = outside d (w\<lparr>inet_port := p, socks := ss, arp_tbl := t\<rparr>) \<and>
      (\<forall>s. map_option sk_core (ss s) = map_option sk_core (socks w s))" by blast
  moreover have "\<exists>cs. sent (hw w2) = sent (hw w) @ cs \<and> (\<forall>c \<in> set cs. from_host mac c)"
  proof -
    obtain cs cs' where "sent (hw w1) = sent (hw w) @ cs" "\<forall>c \<in> set cs. from_host mac c"
      "sent (hw w2) = sent (hw w1) @ cs'" "\<forall>c \<in> set cs'. from_host mac c"
      using assms unfolding host_kept_def by blast
    then show ?thesis by (intro exI[of _ "cs @ cs'"]) auto
  qed
  ultimately show ?thesis using assms unfolding host_kept_def by simp
qed

lemma host_keptI:
  assumes "payload w' = payload w" "dom (queues w') = dom (queues w)" "\<And>q. queue_rep w q [] \<Longrightarrow> queue_rep w' q []"
    and "tx_ready d k w \<Longrightarrow> tx_ready d k w'" "outside d w' = outside d (w\<lparr>inet_port := p, socks := ss, arp_tbl := t\<rparr>)"
    and "\<And>s. map_option sk_core (ss s) = map_option sk_core (socks w s)"
    and "sent (hw w') = sent (hw w) @ cs" "\<And>c. c \<in> set cs \<Longrightarrow> from_host mac c"
  shows "host_kept sent mac d k w w'"
  using assms unfolding host_kept_def by metis

text \<open>A step of the code itself, which sends nothing.\<close>

lemma host_kept_step:
  assumes "nbs w' = nbs w" "queues w' = queues w" "hw w' = hw w" "devs w' = devs w"
    and "outside d w' = outside d (w\<lparr>inet_port := p, socks := ss, arp_tbl := t\<rparr>)"
    and "\<And>s. map_option sk_core (ss s) = map_option sk_core (socks w s)"
  shows "host_kept sent mac d k w w'"
proof -
  have "payload w' = payload w" "tx_ready d k w' = tx_ready d k w" "queue_rep w' q [] = queue_rep w q []" for q
    using assms(1-4) by (simp_all add: payload_def tx_ready_def queue_rep_Nil fun_eq_iff)
  moreover have "\<exists>p ss t. outside d w' = outside d (w\<lparr>inet_port := p, socks := ss, arp_tbl := t\<rparr>) \<and>
      (\<forall>s. map_option sk_core (ss s) = map_option sk_core (socks w s))" using assms(5,6) by blast
  ultimately show ?thesis using assms(2,3) by (simp add: host_kept_def)
qed

text \<open>A frame that is sent from a buffer of its own.\<close>

lemma host_kept_sent:
  assumes drv: "host_driver P sent m K d k" and fuel: "2 * Suc K \<le> fuel" and w: "tx_ready d k w" "nbs w a = None"
    and w1: "nbs w1 = (nbs w)(a \<mapsto> c)" "queues w1 = queues w" "hw w1 = hw w" "devs w1 = devs w"
      "outside d w1 = outside d (w\<lparr>inet_port := p, socks := ss, arp_tbl := t\<rparr>)"
      "\<And>s. map_option sk_core (ss s) = map_option sk_core (socks w s)"
    and c: "nb_net_dev c = d" "nb_next c = NULLP" "from_host mac c"
  shows "\<exists>r w'. netdev_list_xmit P fuel (NB a) w1 = Ok (r, w') \<and> host_kept sent mac d k w w'"
proof -
  have "tx_ready d k w1" using w(1) w1(4) by (simp add: tx_ready_def)
  then obtain r w' where w': "netdev_list_xmit P fuel (NB a) w1 = Ok (r, w')" "sent (hw w') = sent (hw w1) @ [c]"
    "nbs w' = (nbs w1)(a := None)" "queues w' = queues w1" "outside d w' = outside d w1" "tx_ready d k w'"
    using netdev_list_xmit_host[OF drv _ _ c(1,2) fuel, of w1 a] w1(1) by auto
  have n: "nbs w' = nbs w" using w'(3) w1(1) w(2) by (simp add: fun_upd_idem)
  then have "payload w' = payload w" by (simp add: payload_def fun_eq_iff)
  moreover have "queue_rep w' q [] = queue_rep w q []" for q using w'(4) w1(2) by (simp add: queue_rep_Nil)
  moreover have "\<exists>p ss t. outside d w' = outside d (w\<lparr>inet_port := p, socks := ss, arp_tbl := t\<rparr>) \<and>
      (\<forall>s. map_option sk_core (ss s) = map_option sk_core (socks w s))" using w'(5) w1(5,6) by metis
  ultimately have "host_kept sent mac d k w w'"
    using w' w1(2,3) c(3) by (simp add: host_kept_def)
  then show ?thesis using w'(1) by blast
qed

section \<open>Requests for addresses\<close>

lemma arp_send_host:
  fixes w :: "('h, 'w) sock_world_scheme"
  assumes P: "swaps_ok P" and drv: "host_driver P sent m K d k" and fuel: "2 * Suc K \<le> fuel" and w: "tx_ready d k w"
    and x: "eth_dev d w x" and len: "opt_len 6 dest" "opt_len 4 spa" "opt_len 6 tha" "length tpa = 4"
  shows "\<exists>r w'. arp_send P fuel d oper ptype dest None spa tha tpa w = Ok (r, w') \<and> host_kept sent (nd_dev_addr x) d k w w'"
proof (cases rule: arp_create_cases[OF P x len(1) opt_len_simps(1) len(2-4), of oper ptype, case_names fail ok])
  case (fail ms)
  have "host_kept sent (nd_dev_addr x) d k w (w\<lparr>mallocs := ms\<rparr>)"
    by (rule host_kept_step[where p = "inet_port w" and ss = "socks w" and t = "arp_tbl w"]) (simp_all add: outside_def)
  then show ?thesis using fail by (simp add: arp_send_def)
next
  case (ok a ms)
  let ?c = "arp_buff P d (dst_of dest x) (arp_out x (my_ip w) oper ptype None spa tha tpa)"
  let ?w1 = "w\<lparr>mallocs := ms, nbs := (nbs w)(a \<mapsto> ?c)\<rparr>"
  have "length (dst_of dest x) = 6" "length (nd_dev_addr x) = 6"
    using x len(1) by (simp_all add: dst_of_def eth_dev_def mac_ok_def opt_len_def split: option.split)
  then have c: "nb_net_dev ?c = d" "nb_next ?c = NULLP" "from_host (nd_dev_addr x) ?c"
    by (simp_all add: arp_buff_def nb_fresh_def from_host_def arp_out_def eth_bytes_def bslice_def)
  have "\<exists>r w'. netdev_list_xmit P fuel (NB a) ?w1 = Ok (r, w') \<and> host_kept sent (nd_dev_addr x) d k w w'"
    by (rule host_kept_sent[OF drv fuel w ok(1), where p = "inet_port w" and ss = "socks w" and t = "arp_tbl w"])
      (use c in \<open>simp_all add: outside_def\<close>)
  then show ?thesis using ok(4) by (simp add: arp_send_def arp_xmit_def)
qed

section \<open>Datagrams\<close>

lemma sk_core_upds [simp]: "sk_core (k\<lparr>sk_src_addr := i\<rparr>) = sk_core k" "sk_core (k\<lparr>sk_src_port := p\<rparr>) = sk_core k"
  "sk_core (addressed msg k) = sk_core k"
  by (simp_all add: sk_core_def addressed_def split: option.split)

lemma addressed_sel [simp]: "sk_protocol (addressed msg k) = sk_protocol k" "sk_src_port (addressed msg k) = sk_src_port k"
  by (simp_all add: addressed_def split: option.split)

lemma sk_core_same: "socks w s = Some k \<Longrightarrow> sk_core k' = sk_core k \<Longrightarrow>
    map_option sk_core (((socks w)(s \<mapsto> k')) x) = map_option sk_core (socks w x)"
  by simp

lemma more_mallocs: "dev_world.more (w\<lparr>mallocs := ms, socks := ss\<rparr>) = dev_world.more (w\<lparr>socks := ss\<rparr>)"
  by (cases w) simp

text \<open>\<open>ip_create_nb\<close> in a host: the frame is alone in the queue of the socket, and the other queues are kept.\<close>

lemma ip_create_nb_host:
  fixes w :: "('h, 'w) sock_world_scheme"
  assumes P: "swaps_ok P" and dev: "eth_dev (curr_net_dev w) w x" and sk: "sk \<noteq> 0" "socks w sk = Some k"
    and msg: "msg_iov msg = Some iov" "unat (iov_len iov) \<le> length (iov_base iov)" "unat (iov_len iov) + 42 < 65536"
    and q: "queue_rep w (TXQ sk) []"
  obtains (fail) ms where "ip_create_nb P sk msg 8 (iov_len iov + 8) w =
      Ok (NULLP, w\<lparr>mallocs := ms, socks := (socks w)(sk \<mapsto> k\<lparr>sk_src_addr := my_ip w\<rparr>)\<rparr>)"
  | (ok) a w' b N D where "ip_create_nb P sk msg 8 (iov_len iov + 8) w = Ok (NB a, w')" "nbs w a = None" "nbs w' a = Some b"
      "queue_rep w' (TXQ sk) [a]" "other_queues (TXQ sk) w w'" "\<And>c. (payload w')(a := c) = (payload w)(a := c)"
      "outside (curr_net_dev w) w' = outside (curr_net_dev w) (w\<lparr>socks := (socks w)(sk \<mapsto> k\<lparr>sk_src_addr := my_ip w\<rparr>)\<rparr>)"
      "devs w' = devs w" "hw w' = hw w" "nb_net_dev b = curr_net_dev w" "unat (nb_transport_hdr_offset b) = 34"
      "nb_mem b = eth_bytes (nd_broadcast x) (nd_dev_addr x) ETH_P_IP @ N @ D" "length N = 20" "8 \<le> length D"
proof -
  have len: "unat (iov_len iov + 8) = unat (iov_len iov) + 8" using msg(3) by (simp add: unat_word_ariths)
  have fits: "unat (8 :: uint8_t) + unat (iov_len iov) \<le> unat (iov_len iov + 8)" "unat (iov_len iov + 8) + 34 < 65536"
    using len msg(3) by simp_all
  show ?thesis
  proof (cases rule: ip_create_nb_cases[OF P dev sk msg(1,2) fits, case_names fail ok])
    case (fail ms)
    then show ?thesis using that(1) by simp
  next
    case (ok a ms D)
    let ?B = "ip_buff (curr_net_dev w) (ip_msg x (my_ip w) k (iov_len iov + 8) D) (iov_len iov + 8)"
    let ?w1 = "w\<lparr>mallocs := ms, socks := (socks w)(sk \<mapsto> k\<lparr>sk_src_addr := my_ip w\<rparr>), nbs := (nbs w)(a \<mapsto> ?B)\<rparr>"
    have "queue_rep ?w1 (TXQ sk) []" using q by (simp add: queue_rep_Nil)
    then obtain w2 where w2: "nb_enqueue (NB a) (TXQ sk) ?w1 = Ok w2" "queue_rep w2 (TXQ sk) [a]" "rest w2 = rest ?w1"
      "others_kept (TXQ sk) {a} ?w1 w2"
      using nb_enqueue_rep[of ?w1 "TXQ sk" "[]" a] by auto
    note m = more_dev_world[OF rest_more[OF w2(3)]] and pay = rest_payload[OF w2(3)]
    have "payload w2 a = Some ?B" unfolding pay by (simp add: payload_def ip_buff_def nb_fresh_def)
    then obtain b where b: "nbs w2 a = Some b" "b\<lparr>nb_next := NULLP, nb_prev := NULLP\<rparr> = ?B" by (auto simp: payload_def)
    let ?b = "b\<lparr>nb_sock := sk\<rparr>" and ?w3 = "w2\<lparr>nbs := (nbs w2)(a \<mapsto> b\<lparr>nb_sock := sk\<rparr>)\<rparr>"
    have f: "f b = f ?B" if "\<And>c p q. f (c\<lparr>nb_next := p, nb_prev := q\<rparr>) = f c" for f :: "net_buff \<Rightarrow> 'c"
      using that b(2) by metis
    show ?thesis
    proof (rule that(2)[where a = a and w' = ?w3 and b = ?b and D = D and
        N = "ip_bytes (ip_out (sk_protocol k) (iov_len iov + 8 + 20) (le32 (my_ip w)) (le32 (sk_dst_addr k)))"])
      show "ip_create_nb P sk msg 8 (iov_len iov + 8) w = Ok (NB a, ?w3)" using ok(6) w2(1) b(1) by (simp add: nb_upd_NB)
      show "queue_rep ?w3 (TXQ sk) [a]" using w2(2) queue_rep_same_links[OF b(1), of ?b] by simp
      have "other_queues (TXQ sk) ?w1 w2" using nb_enqueue_queues[OF w2(1)] w2(4) by (simp add: other_queues_def others_kept_def)
      then show "other_queues (TXQ sk) w ?w3" by (simp add: other_queues_def queue_rep_Nil)
      show "(payload ?w3)(a := c) = (payload w)(a := c)" for c
      proof
        fix y
        have "payload w2 y = payload w y" if "y \<noteq> a" using that by (simp add: pay payload_def)
        then show "((payload ?w3)(a := c)) y = ((payload w)(a := c)) y" by (simp add: payload_def)
      qed
      show "outside (curr_net_dev w) ?w3 = outside (curr_net_dev w) (w\<lparr>socks := (socks w)(sk \<mapsto> k\<lparr>sk_src_addr := my_ip w\<rparr>)\<rparr>)"
        using m by (simp add: outside_def more_mallocs)
      show "nb_mem ?b = eth_bytes (nd_broadcast x) (nd_dev_addr x) ETH_P_IP @
          ip_bytes (ip_out (sk_protocol k) (iov_len iov + 8 + 20) (le32 (my_ip w)) (le32 (sk_dst_addr k))) @ D"
        using f[of nb_mem] by (simp add: ip_buff_def ip_msg_def)
      show "nb_net_dev ?b = curr_net_dev w" using f[of nb_net_dev] by (simp add: ip_buff_def)
      show "unat (nb_transport_hdr_offset ?b) = 34" using f[of nb_transport_hdr_offset] by (simp add: ip_buff_def)
    qed (use ok m len in simp_all)
  qed
qed

text \<open>A frame that was put on an empty queue and has been sent.\<close>

lemma host_kept_queued:
  fixes w :: "('h, 'w) sock_world_scheme"
  assumes put: "nbs w a = None" "other_queues q w w1" "\<And>c. (payload w1)(a := c) = (payload w)(a := c)"
      "outside d w1 = outside d (w\<lparr>socks := ss\<rparr>)" "hw w1 = hw w"
    and core: "\<And>s. map_option sk_core (ss s) = map_option sk_core (socks w s)"
    and sent: "sent (hw w2) = sent (hw w1) @ [c]" "payload w2 = (payload w1)(a := None)" "queue_rep w2 q []" "other_queues q w1 w2"
      "outside d w2 = outside d w1" "tx_ready d k w2"
    and mac: "from_host mac c"
  shows "host_kept sent mac d k w w2"
proof (intro host_keptI[where p = "inet_port w" and t = "arp_tbl w" and ss = ss and cs = "[c]", OF _ _ _ _ _ core])
  have "payload w a = None" using put(1) by (simp add: payload_def)
  then show "payload w2 = payload w" using sent(2) put(3)[of None] by (simp add: fun_upd_idem)
  have oq: "other_queues q w w2" by (rule other_queues_trans[OF put(2) sent(4)])
  then show "dom (queues w2) = dom (queues w)" by (simp add: other_queues_def)
  show "queue_rep w2 q' []" if "queue_rep w q' []" for q'
    using that oq sent(3) by (cases "q' = q") (simp_all add: other_queues_def)
  show "outside d w2 = outside d (w\<lparr>inet_port := inet_port w, socks := ss, arp_tbl := arp_tbl w\<rparr>)"
    using sent(5) put(4) by simp
qed (use sent(1,6) put(5) mac in auto)

lemma udp_send_msg_host:
  fixes w :: "('h, 'w) sock_world_scheme"
  assumes P: "swaps_ok P" and drv: "host_driver P sent m K d c" and w: "tx_ready d c w" and fuel: "K < fuel" "1 < fuel"
    and dev: "curr_net_dev w = d" "eth_dev d w x" and sk: "sk \<noteq> 0" "socks w sk = Some k" "queue_rep w (TXQ sk) []"
    and msg: "msg_iov msg = Some iov" "unat (iov_len iov) \<le> length (iov_base iov)" "unat (iov_len iov) + 42 < 65536"
  shows "\<exists>r w'. udp_send_msg P fuel sk msg w = Ok (r, w') \<and> host_kept sent (nd_dev_addr x) d c w w'"
proof (cases "udp_msg_ok msg")
  case False
  then show ?thesis by (simp add: udp_send_msg_start[OF sk(1,2) msg(1)])
next
  case True
  let ?w = "w\<lparr>socks := (socks w)(sk \<mapsto> addressed msg k)\<rparr>" and ?k = "(addressed msg k)\<lparr>sk_src_addr := my_ip w\<rparr>"
  let ?ss = "(socks w)(sk \<mapsto> ?k)" and ?d = "curr_net_dev ?w"
  have w0: "eth_dev ?d ?w x" "socks ?w sk = Some (addressed msg k)" "queue_rep ?w (TXQ sk) []"
    using dev sk(3) by (simp_all add: eth_dev_def queue_rep_Nil)
  have core: "map_option sk_core (?ss s) = map_option sk_core (socks w s)" for s
    using sk_core_same[OF sk(2), of ?k] by simp
  note run = udp_send_msg_start[OF sk(1,2) msg(1), of P fuel]
  show ?thesis
  proof (cases rule: ip_create_nb_host[OF P w0(1) sk(1) w0(2) msg w0(3), case_names fail ok])
    case (fail ms)
    have "host_kept sent (nd_dev_addr x) d c w (w\<lparr>mallocs := ms, socks := ?ss\<rparr>)"
      by (rule host_kept_step[where p = "inet_port w" and ss = ?ss and t = "arp_tbl w", OF _ _ _ _ _ core])
        (simp_all add: outside_def more_mallocs)
    then show ?thesis using fail True by (simp add: run)
  next
    case (ok a w1 b N D)
    have E: "length (eth_bytes (nd_broadcast x) (nd_dev_addr x) ETH_P_IP) = 14"
      using dev(2) by (simp add: eth_dev_def mac_ok_def)
    have k1: "socks w1 sk = Some ?k" using outside_sock(1)[OF ok(7)] by simp
    let ?b = "b\<lparr>nb_mem := eth_bytes (nd_broadcast x) (nd_dev_addr x) ETH_P_IP @ N @
      udp_bytes (sk_src_port ?k) (sk_dst_port ?k) (nb_pkt_len b - 34) @ drop 8 D\<rparr>"
    let ?w2 = "w1\<lparr>nbs := (nbs w1)(a \<mapsto> ?b)\<rparr>" and ?c = "?b\<lparr>nb_next := NULLP, nb_prev := NULLP\<rparr>"
    have send: "udp_send P fuel sk w1 = netdev_queue_xmit P fuel (TXQ sk) ?w2"
      by (rule udp_send_head[OF P ok(4,3,11,12) E ok(13,14) sk(1) k1])
    have w2: "tx_ready d c ?w2" "queue_rep ?w2 (TXQ sk) [a]" "payload ?w2 a = Some ?c" "nb_net_dev ?c = d"
      using w ok(4,8,10) dev(1) queue_rep_same_links[OF ok(3), of ?b] by (simp_all add: tx_ready_def payload_def)
    obtain r w3 where w3: "netdev_queue_xmit P fuel (TXQ sk) ?w2 = Ok (r, w3)" "sent (hw w3) = sent (hw ?w2) @ [?c]"
      "payload w3 = (payload ?w2)(a := None)" "queue_rep w3 (TXQ sk) []" "other_queues (TXQ sk) ?w2 w3"
      "outside d w3 = outside d ?w2" "tx_ready d c w3"
      using netdev_queue_xmit_host[OF drv w2 fuel] by blast
    have "host_kept sent (nd_dev_addr x) d c w w3"
    proof (rule host_kept_queued[where a = a and q = "TXQ sk" and c = ?c and ss = ?ss and ?w1.0 = w1, OF _ _ _ _ _ core])
      have oq: "other_queues (TXQ sk) w1 ?w2" by (rule other_queues_same) simp_all
      show "other_queues (TXQ sk) w w1" using ok(5) by (simp add: other_queues_def queue_rep_Nil)
      show "other_queues (TXQ sk) w1 w3" by (rule other_queues_trans[OF oq w3(5)])
      show "from_host (nd_dev_addr x) ?c"
        using dev(2) by (simp add: from_host_def eth_bytes_def bslice_def eth_dev_def mac_ok_def)
      show "payload w3 = (payload w1)(a := None)" using w3(3) by (auto simp: payload_def)
      show "(payload w1)(a := e) = (payload w)(a := e)" for e using ok(6)[of e] by (simp add: payload_def fun_eq_iff)
    qed (use w3 ok(2,7,9) dev(1) in \<open>simp_all add: outside_def\<close>)
    moreover have "\<exists>r'. udp_send_msg P fuel sk msg w = Ok (r', w3)"
      using True ok(1) send w3(1) by (simp add: run)
    ultimately show ?thesis by blast
  qed
qed

text \<open>What \<open>sendto\<close> relies on: a socket that \<open>socket\<close> has made.\<close>

definition sk_ok :: "socket \<Rightarrow> bool" where
  "sk_ok k \<longleftrightarrow> sk_p_ops k \<noteq> None"

lemma sendto_host:
  fixes w :: "('h, 'w) sock_world_scheme"
  assumes P: "swaps_ok P" and drv: "host_driver P sent m K d c" and w: "tx_ready d c w" and fuel: "K < fuel" "1 < fuel"
    and dev: "curr_net_dev w = d" "eth_dev d w x" and sk: "sk \<noteq> 0" "socks w sk = Some k" "queue_rep w (TXQ sk) []" "sk_ok k"
    and data: "unat n \<le> length data" "unat n + 42 < 65536"
  shows "\<exists>r w'. sendto P fuel sk data n flags addr len w = Ok (r, w') \<and> host_kept sent (nd_dev_addr x) d c w w'"
proof -
  obtain t where t: "sk_p_ops k = Some t" using sk(4) by (auto simp: sk_ok_def)
  let ?k = "k\<lparr>sk_src_port := send_port P w k\<rparr>"
  define w1 where "w1 = (if sk_src_port k = 0 then
      w\<lparr>inet_port := (if inet_port w + 1 = 0 then 49152 else inet_port w + 1), socks := (socks w)(sk \<mapsto> ?k)\<rparr> else w)"
  have step: "(if sk_src_port k = 0 then
            let (port, w) = inet_get_port P w in upd_sk sk (\<lambda>k. k\<lparr>sk_src_port := port\<rparr>) w
          else Ok w) = Ok w1"
    using sk by (simp add: w1_def inet_get_port_def upd_sk_Some Let_def send_port_def)
  define p ss where "p = inet_port w1" and "ss = socks w1"
  have w1': "w1 = w\<lparr>inet_port := p, socks := ss\<rparr>" "map_option sk_core (ss s) = map_option sk_core (socks w s)"
    "ss sk = Some ?k" for s
    using sk(2) by (simp_all add: w1_def p_def ss_def send_port_def)
  have kept: "host_kept sent (nd_dev_addr x) d c w w1"
    by (rule host_kept_step[where p = p and ss = ss and t = "arp_tbl w"]) (use w1' in simp_all)
  have pre: "tx_ready d c w1" "curr_net_dev w1 = d" "eth_dev d w1 x" "socks w1 sk = Some ?k" "queue_rep w1 (TXQ sk) []"
    using w dev sk(3) w1' by (simp_all add: tx_ready_def eth_dev_def queue_rep_Nil)
  let ?msg = "\<lparr>msg_name = addr, msg_namelen = (if addr = None then 0 else len), msg_iov = Some \<lparr>iov_base = data, iov_len = n\<rparr>, msg_flags = flags\<rparr>"
  have "po_sendmsg (proto_ops P fuel t) = Some (inet_sendmsg P fuel)"
    by (cases t) (simp_all add: proto_ops_def inet_stream_ops_def inet_dgram_ops_def)
  then have run: "sendto P fuel sk data n flags addr len w =
      (if sk_protocol k = IPPROTO_TCP then tcp_send_msg sk ?msg w1
       else if sk_protocol k = IPPROTO_UDP then udp_send_msg P fuel sk ?msg w1 else Ok (- 1, w1))"
    using sk t step by (auto simp: sendto_def p_ops_def load_sk_Some iovec_import_def Let_def inet_sendmsg_def)
  obtain r w' where "udp_send_msg P fuel sk ?msg w1 = Ok (r, w')" "host_kept sent (nd_dev_addr x) d c w1 w'"
    using udp_send_msg_host[OF P drv pre(1) fuel pre(2,3) sk(1) pre(4,5), of ?msg "\<lparr>iov_base = data, iov_len = n\<rparr>"] data by auto
  then show ?thesis using run kept host_kept_trans[OF kept] by (auto simp: tcp_send_msg_def)
qed

section \<open>Arriving frames\<close>

text \<open>
  A frame arrives in a buffer that the driver has allocated with \<open>ndev_alloc_net_buff\<close> and filled.  \<open>decoded\<close> is the
  buffer after \<open>eth_type_proto\<close> and the store of the protocol.
\<close>

definition arrived :: "addr \<Rightarrow> net_buff \<Rightarrow> bool" where
  "arrived d b \<longleftrightarrow> nb_net_dev b = d \<and> nb_next b = NULLP \<and> nb_data b = 0 \<and> nb_network_hdr_offset b = 14"

definition decoded :: "net_dev \<Rightarrow> net_buff \<Rightarrow> net_buff" where
  "decoded x b = b\<lparr>nb_mac_hdr_offset := 0, nb_pkt_type := of_nat (pkt_kind x (dst_at b)),
     nb_protocol := frame_proto (nb_mem b ! 12) (nb_mem b ! 13)\<rparr>"

lemma from_host_eth:
  assumes "bslice 0 14 (nb_mem c) = eth_bytes dst mac type" "length dst = 6" "length mac = 6"
  shows "from_host mac c"
proof -
  have "bslice 6 6 (nb_mem c) = bslice 6 6 (bslice 0 14 (nb_mem c))" by (simp add: bslice_bslice)
  also have "\<dots> = mac" unfolding assms(1) using assms(2,3) by (simp add: eth_bytes_def bslice_def)
  finally show ?thesis by (simp add: from_host_def)
qed

lemma deliver_decoded:
  assumes P: "swaps_ok P" and b: "nbs w a = Some b" "arrived d b" "14 \<le> length (nb_mem b)" and x: "d \<noteq> 0" "devs w d = Some x" "mac_ok x"
  shows "deliver P call (NB a) d w = recv_pkt_handler P call (NB a) (w\<lparr>nbs := (nbs w)(a \<mapsto> decoded x b)\<rparr>)"
proof -
  note ar = b(2)[unfolded arrived_def]
  have "bslice 12 2 (nb_mem b) = [nb_mem b ! 12, nb_mem b ! 13]"
    by (rule nth_equalityI) (use b(3) in \<open>auto simp: nth_bslice less_2_cases_iff\<close>)
  then have "eth_type_proto P (NB a) d w = Ok (frame_proto (nb_mem b ! 12) (nb_mem b ! 13), w\<lparr>nbs := (nbs w)(a \<mapsto>
      b\<lparr>nb_net_dev := d, nb_mac_hdr_offset := 0, nb_pkt_type := of_nat (pkt_kind x (dst_at b))\<rparr>)\<rparr>)"
    using eth_type_proto_Ok[OF P b(1) x, of "dst_at b"] ar b(3) by simp
  moreover have "b\<lparr>nb_net_dev := d\<rparr> = b" using ar by (cases b) simp
  ultimately show ?thesis by (simp add: deliver_def nb_upd_NB decoded_def)
qed

lemma deliver_host:
  fixes w :: "('h, 'w) dhcp_world_scheme"
  assumes P: "swaps_ok P" and drv: "host_driver P sent m K d k" and w: "tx_ready d k w" and fuel: "2 * Suc K \<le> fuel"
    and tabs: "inet_ready w" "ipp_tcp (ip_proto_ops w) = None" "ipp_udp (ip_proto_ops w) = None" and x: "eth_dev d w x"
    and b: "nbs w a = None" "arrived d b" "14 \<le> length (nb_mem b)" "recv_sized P (decoded x b)"
  defines "w0 \<equiv> w\<lparr>nbs := (nbs w)(a \<mapsto> b)\<rparr>"
  shows "\<exists>r w'. deliver P (call_hdlr user P fuel 2) (NB a) d w0 = Ok (r, w') \<and>
    (if lost_echo P (my_ip w) (decoded x b) then w' = w\<lparr>nbs := (nbs w)(a \<mapsto> (decoded x b)\<lparr>nb_transport_hdr_offset := 34\<rparr>)\<rparr>
     else host_kept sent (nd_dev_addr x) d k w w')"
proof -
  let ?b = "decoded x b" and ?w = "w\<lparr>nbs := (nbs w)(a \<mapsto> decoded x b)\<rparr>"
  note ar = b(2)[unfolded arrived_def] and D = x[unfolded eth_dev_def mac_ok_def]
  have dec: "nb_net_dev ?b = d" "nb_next ?b = NULLP" "nb_mem ?b = nb_mem b" using ar by (simp_all add: decoded_def)
  have "deliver P (call_hdlr user P fuel 2) (NB a) d w0 = recv_pkt_handler P (call_hdlr user P fuel 2) (NB a) ?w"
    using deliver_decoded[OF P, of w0 a b d x] b(2,3) x by (simp add: w0_def eth_dev_def)
  moreover have "tx_ready d k ?w" "inet_ready ?w" "eth_dev d ?w x" using w tabs x by (simp_all add: tx_ready_def inet_ready_def eth_dev_def)
  then obtain r w' where w': "recv_pkt_handler P (call_hdlr user P fuel 2) (NB a) ?w = Ok (r, w')"
    "recv_end P fuel a ?b (sent_back ?b (nd_dev_addr x)) (lost_echo P (my_ip w) ?b) ?w w'"
    using recv_any[OF P host_driverD(1)[OF drv] _ fuel, of ?w a ?b x user] tabs dec(1,2) b(4) by auto
  moreover have "host_kept sent (nd_dev_addr x) d k w w'" if nl: "\<not> lost_echo P (my_ip w) ?b"
  proof -
    consider (freed) t where "w' = freed a (?w\<lparr>arp_tbl := t\<rparr>)"
      | (sent) c s where "sent_back ?b (nd_dev_addr x) c" "nb_net_dev c = nb_net_dev ?b" "nb_next c = NULLP"
        "netdev_list_xmit P fuel (NB a) (w\<lparr>nbs := (nbs w)(a \<mapsto> c)\<rparr>) = Ok (s, w')"
      using w'(2) nl by (auto simp: recv_end_def)
    then show ?thesis
    proof cases
      case freed
      then show ?thesis
        by (intro host_kept_step[where p = "inet_port w" and ss = "socks w" and t = t])
          (simp_all add: freed_def b(1) fun_upd_idem outside_def)
    next
      case sent
      have "length (src_at ?b) = 6" using b(3) dec(3) by (simp add: bslice_parts)
      then have "from_host (nd_dev_addr x) c" using sent(1) D from_host_eth[of c "src_at ?b"] by (simp add: sent_back_def)
      with host_kept_sent[OF drv fuel w b(1), of "w\<lparr>nbs := (nbs w)(a \<mapsto> c)\<rparr>" c, where p = "inet_port w" and ss = "socks w" and t = "arp_tbl w" and mac = "nd_dev_addr x"]
        sent dec(1) show ?thesis by (simp add: outside_def)
    qed
  qed
  ultimately show ?thesis by (auto simp: recv_end_def)
qed

end
