(* ===== verification/Host_Run.thy ===== *)
theory Host_Run
  imports Host
begin

text \<open>
  The invariant of a host and its operations: what an application, the network and the interrupts can do to it, in any
  order.  Every operation that is used as its contract says succeeds and keeps the invariant.
\<close>

section \<open>The invariant\<close>

text \<open>
  The handlers are registered, the device runs, the sockets are in their list with empty queues, and the only buffers are
  those of accepted echo requests for other hosts, which the code loses.
\<close>

definition host_inv :: "('h, 'w) dhcp_world_scheme platform \<Rightarrow> addr \<Rightarrow> addr \<Rightarrow> net_dev \<Rightarrow> uint32_t \<Rightarrow>
    ('h, 'w) dhcp_world_scheme \<Rightarrow> bool" where
  "host_inv P d k x my w \<longleftrightarrow> inet_ready w \<and> ipp_tcp (ip_proto_ops w) = None \<and> ipp_udp (ip_proto_ops w) = None \<and> my_ip w = my \<and>
     curr_net_dev w = d \<and> tx_ready d k w \<and> map_option dev_fixed (devs w d) = Some (dev_fixed x) \<and> (\<exists>xs. socks_inv xs w) \<and>
     (\<forall>s k. socks w s = Some k \<longrightarrow> sk_ok k) \<and> (\<forall>a b. payload w a = Some b \<longrightarrow> lost_echo P my b)"

lemma lost_echo_links [simp]: "lost_echo P my (b\<lparr>nb_next := p, nb_prev := q\<rparr>) = lost_echo P my b"
  "lost_echo P my (b\<lparr>nb_transport_hdr_offset := t\<rparr>) = lost_echo P my b"
  by (simp_all add: lost_echo_def echo_accepted_def ip_valid_def icmp_at_def)

lemma lost_payload: "(\<forall>a b. payload w a = Some b \<longrightarrow> lost_echo P my b) \<longleftrightarrow> (\<forall>a b. nbs w a = Some b \<longrightarrow> lost_echo P my b)"
proof (intro iffI allI impI)
  fix a b
  assume *: "\<forall>a b. payload w a = Some b \<longrightarrow> lost_echo P my b" "nbs w a = Some b"
  from *(2) have "payload w a = Some (b\<lparr>nb_next := NULLP, nb_prev := NULLP\<rparr>)" by (simp add: payload_def)
  with *(1) have "lost_echo P my (b\<lparr>nb_next := NULLP, nb_prev := NULLP\<rparr>)" by blast
  then show "lost_echo P my b" by simp
qed (auto simp: payload_def)

lemma dev_fixed_eth: "dev_fixed y = dev_fixed x \<Longrightarrow> nd_dev_addr y = nd_dev_addr x \<and> nd_broadcast y = nd_broadcast x \<and> nd_header_ops y = nd_header_ops x"
  by (cases x; cases y) (simp add: dev_fixed_def)

lemma host_inv_dev:
  assumes inv: "host_inv P d k x my w" and x: "d \<noteq> 0" "mac_ok x" "nd_header_ops x = Some (Some Eth_header_create)"
  obtains y where "eth_dev d w y" "nd_dev_addr y = nd_dev_addr x"
proof -
  obtain y where y: "devs w d = Some y" "dev_fixed y = dev_fixed x" using inv by (auto simp: host_inv_def)
  with x dev_fixed_eth[OF y(2)] that[of y] show thesis by (simp add: eth_dev_def mac_ok_def)
qed

lemma host_inv_kept:
  assumes inv: "host_inv P d k x my w" and kept: "host_kept sent mac d k w w'"
  shows "host_inv P d k x my w'"
proof -
  obtain p ss t where out: "outside d w' = outside d (w\<lparr>inet_port := p, socks := ss, arp_tbl := t\<rparr>)"
    and core: "\<And>s. map_option sk_core (ss s) = map_option sk_core (socks w s)"
    using kept unfolding host_kept_def by blast
  note o = outside_more(1,2)[OF out] outside_ip(1,6,7)[OF out] and s = outside_sock(1,2)[OF out]
  have sk: "map_option sk_core (socks w' s) = map_option sk_core (socks w s)" for s using s(1) core by simp
  have "socks_inv xs w'" if "socks_inv xs w" for xs
  proof -
    have "slinks w' = slinks w"
    proof
      fix a
      have v: "slinks v a = map_option (\<lambda>(_, _, p, n). (n, p)) (map_option sk_core (socks v a))" for v :: "('h, 'w) dhcp_world_scheme"
        by (cases "socks v a") (simp_all add: slinks_def sk_core_def)
      show "slinks w' a = slinks w a" unfolding v sk ..
    qed
    then have "list_rep w' xs = list_rep w xs" using s(2) by (intro list_rep_cong) simp_all
    moreover have "socks w' s = None \<longleftrightarrow> socks w s = None" for s using sk[of s] by (cases "socks w' s"; cases "socks w s") simp_all
    then have "dom (socks w') = dom (socks w)" by (auto simp: dom_def)
    moreover have "queues w q = None \<Longrightarrow> queues w' q = None" "queue_rep w q [] \<Longrightarrow> queue_rep w' q []" for q
      using kept by (auto simp: host_kept_def)
    ultimately show ?thesis using that by (simp add: socks_inv_def queue_rep_Nil)
  qed
  moreover have "sk_ok k'" if "socks w' a = Some k'" for a k'
  proof -
    have "map_option sk_core (socks w a) = Some (sk_core k')" using sk[of a] that by simp
    then obtain k0 where "socks w a = Some k0" "sk_core k0 = sk_core k'" by auto
    then have "sk_ok k0" "sk_p_ops k0 = sk_p_ops k'" using inv by (auto simp only: host_inv_def sk_core_def prod.inject)
    then show ?thesis by (simp add: sk_ok_def)
  qed
  moreover have "payload w' = payload w" "tx_ready d k w'" using kept inv by (simp_all add: host_kept_def host_inv_def)
  ultimately have "\<exists>xs. socks_inv xs w'" "\<forall>s k. socks w' s = Some k \<longrightarrow> sk_ok k" "payload w' = payload w" "tx_ready d k w'"
    using inv by (auto simp only: host_inv_def)
  then show ?thesis using inv o by (simp add: host_inv_def inet_ready_def)
qed

text \<open>Changes to the sockets.\<close>

lemma host_inv_socks:
  assumes inv: "host_inv P d k x my w" and w': "nbs w' = nbs w" "around w' = around w" "socks_inv xs w'"
    and ok: "\<And>s k. socks w' s = Some k \<Longrightarrow> sk_ok k"
  shows "host_inv P d k x my w'"
proof -
  have "payload w' = payload w" "tx_ready d k w' = tx_ready d k w"
    using w'(1) around_sel(1)[OF w'(2)] by (simp_all add: payload_def tx_ready_def fun_eq_iff)
  moreover have "\<exists>xs. socks_inv xs w'" "\<forall>s k. socks w' s = Some k \<longrightarrow> sk_ok k" using w'(3) ok by blast+
  ultimately show ?thesis using inv around_sel[OF w'(2)] by (simp add: host_inv_def inet_ready_def)
qed

lemma sk_ok_same_bare:
  assumes "bare w' a = bare w a" "\<And>s k. socks w s = Some k \<Longrightarrow> sk_ok k" "socks w' a = Some k"
  shows "sk_ok k"
proof -
  obtain k0 where "socks w a = Some k0" "k0\<lparr>sk_prev := 0, sk_next := 0\<rparr> = k\<lparr>sk_prev := 0, sk_next := 0\<rparr>"
    using assms(1,3) by (cases "socks w a") (auto simp: bare_def)
  then have "sk_ok k0" "sk_p_ops k0 = sk_p_ops k" using assms(2) by (auto dest: arg_cong[of _ _ sk_p_ops])
  then show ?thesis by (simp add: sk_ok_def)
qed

section \<open>The operations\<close>

datatype host_op =
    Op_frame addr net_buff  \<comment> \<open>a frame arrives in a new buffer\<close>
  | Op_irq  \<comment> \<open>an interrupt that receives nothing\<close>
  | Op_socket uint8_t uint8_t uint8_t
  | Op_bind addr sockaddr_in uint8_t
  | Op_sendto addr bytes uint16_t uint8_t "sockaddr_in option" uint8_t
  | Op_close addr
  | Op_arp uint16_t uint16_t "bytes option" "bytes option" "bytes option" bytes

primrec host_run :: "(nat \<Rightarrow> nbp \<Rightarrow> ('h, 'w) dhcp_world_scheme \<Rightarrow> (int8_t \<times> ('h, 'w) dhcp_world_scheme) res) \<Rightarrow>
    ('h, 'w) dhcp_world_scheme platform \<Rightarrow> nat \<Rightarrow> addr \<Rightarrow> host_op \<Rightarrow> ('h, 'w) dhcp_world_scheme \<Rightarrow> ('h, 'w) dhcp_world_scheme res" where
  "host_run user P fuel d (Op_frame a b) w =
     bnd (deliver P (call_hdlr user P fuel 2) (NB a) d (w\<lparr>nbs := (nbs w)(a \<mapsto> b)\<rparr>)) (\<lambda>(_, w). Ok w)"
| "host_run user P fuel d Op_irq w = Ok (isr P w)"
| "host_run user P fuel d (Op_socket f t p) w = bnd (sock_socket f t p w) (\<lambda>(_, w). Ok w)"
| "host_run user P fuel d (Op_bind s ad len) w = bnd (sock_bind P fuel s (Some ad) len w) (\<lambda>(_, w). Ok w)"
| "host_run user P fuel d (Op_sendto s data n flags ad len) w = bnd (sendto P fuel s data n flags ad len w) (\<lambda>(_, w). Ok w)"
| "host_run user P fuel d (Op_close s) w = bnd (sock_close P fuel s w) (\<lambda>(_, w). Ok w)"
| "host_run user P fuel d (Op_arp oper ptype dest spa tha tpa) w =
     bnd (arp_send P fuel d oper ptype dest None spa tha tpa w) (\<lambda>(_, w). Ok w)"

text \<open>
  The contract: a frame is long enough for the headers that are read, a socket is live, a protocol suits its type, data
  have the length given, and the pointers to addresses point to addresses.
\<close>

primrec op_ok :: "('h, 'w) dhcp_world_scheme platform \<Rightarrow> addr \<Rightarrow> net_dev \<Rightarrow> ('h, 'w) dhcp_world_scheme \<Rightarrow> host_op \<Rightarrow> bool" where
  "op_ok P d x w (Op_frame a b) \<longleftrightarrow> nbs w a = None \<and> arrived d b \<and> 14 \<le> length (nb_mem b) \<and> recv_sized P (decoded x b)"
| "op_ok P d x w Op_irq \<longleftrightarrow> True"
| "op_ok P d x w (Op_socket f t p) \<longleftrightarrow> sock_kind f t p \<noteq> Undefined"
| "op_ok P d x w (Op_bind s ad len) \<longleftrightarrow> socks w s \<noteq> None"
| "op_ok P d x w (Op_sendto s data n flags ad len) \<longleftrightarrow> socks w s \<noteq> None \<and> unat n \<le> length data \<and> unat n + 42 < 65536"
| "op_ok P d x w (Op_close s) \<longleftrightarrow> socks w s \<noteq> None"
| "op_ok P d x w (Op_arp oper ptype dest spa tha tpa) \<longleftrightarrow> opt_len 6 dest \<and> opt_len 4 spa \<and> opt_len 6 tha \<and> length tpa = 4"

section \<open>Every operation succeeds\<close>

lemma irq_kept:
  assumes "host_driver P sent m K d k"
  shows "host_kept sent mac d k w (isr P (w :: ('h, 'w) sock_world_scheme))"
proof -
  note kept = tx_driver_isr(1,2)[OF host_driverD(1)[OF assms, of "QVAR 0"], where w = w] and loc = host_driverD(2)[OF assms, of w]
  have "nbs (isr P w) a = nbs w a" for a
    using kept(1) loc by (cases "nbs w a") (auto simp: tx_kept_def drv_local_def)
  then have "payload (isr P w) = payload w" by (simp add: payload_def fun_eq_iff)
  then show ?thesis
    by (intro host_keptI[where p = "inet_port w" and ss = "socks w" and t = "arp_tbl w" and cs = "[]"])
      (use kept loc in \<open>simp_all add: drv_local_def queue_rep_Nil tx_kept_def\<close>)
qed

definition host_next :: "('h, 'w) dhcp_world_scheme platform \<Rightarrow> ('h \<Rightarrow> net_buff list) \<Rightarrow> addr \<Rightarrow> addr \<Rightarrow> net_dev \<Rightarrow> uint32_t \<Rightarrow>
    ('h, 'w) dhcp_world_scheme \<Rightarrow> ('h, 'w) dhcp_world_scheme \<Rightarrow> bool" where
  "host_next P sent d k x my w w' \<longleftrightarrow> host_inv P d k x my w' \<and>
     (\<exists>cs. sent (hw w') = sent (hw w) @ cs \<and> (\<forall>c \<in> set cs. from_host (nd_dev_addr x) c))"

lemma host_next_kept:
  "host_inv P d k x my w \<Longrightarrow> host_kept sent (nd_dev_addr x) d k w w' \<Longrightarrow> host_next P sent d k x my w w'"
  using host_inv_kept unfolding host_next_def host_kept_def by blast

lemma host_next_silent: "host_inv P d k x my w' \<Longrightarrow> hw w' = hw w \<Longrightarrow> host_next P sent d k x my w w'"
  by (simp add: host_next_def)

text \<open>The machine that the host runs on: byte swaps, driver, enough fuel for it, and an Ethernet device.\<close>

definition machine :: "('h, 'w) dhcp_world_scheme platform \<Rightarrow> ('h \<Rightarrow> net_buff list) \<Rightarrow> (net_dev option \<Rightarrow> 'h \<Rightarrow> nat) \<Rightarrow> nat \<Rightarrow>
    addr \<Rightarrow> addr \<Rightarrow> net_dev \<Rightarrow> nat \<Rightarrow> bool" where
  "machine P sent m K d k x fuel \<longleftrightarrow> swaps_ok P \<and> host_driver P sent m K d k \<and> 2 * Suc K \<le> fuel \<and>
     d \<noteq> 0 \<and> mac_ok x \<and> nd_header_ops x = Some (Some Eth_header_create)"

lemma machineD:
  assumes "machine P sent m K d k x fuel"
  shows "swaps_ok P" "host_driver P sent m K d k" "2 * Suc K \<le> fuel" "K < fuel" "1 < fuel" "0 < fuel"
    "d \<noteq> 0" "mac_ok x" "nd_header_ops x = Some (Some Eth_header_create)"
  using assms by (simp_all add: machine_def)

lemma frame_next:
  assumes mach: "machine P sent m K d k x fuel" and inv: "host_inv P d k x my w" and ok: "op_ok P d x w (Op_frame a b)"
  shows "\<exists>w'. host_run user P fuel d (Op_frame a b) w = Ok w' \<and> host_next P sent d k x my w w'"
proof -
  note M = machineD[OF mach]
  obtain y where y: "devs w d = Some y" "dev_fixed y = dev_fixed x" using inv by (auto simp: host_inv_def)
  note yx = dev_fixed_eth[OF y(2)]
  have dec: "decoded y b = decoded x b" using yx by (simp add: decoded_def pkt_kind_def)
  have w: "tx_ready d k w" "inet_ready w" "ipp_tcp (ip_proto_ops w) = None" "ipp_udp (ip_proto_ops w) = None" "my_ip w = my"
    using inv by (simp_all add: host_inv_def)
  have ey: "eth_dev d w y" using M(7-9) y(1) yx by (simp add: eth_dev_def mac_ok_def)
  have b: "nbs w a = None" "arrived d b" "14 \<le> length (nb_mem b)" "recv_sized P (decoded y b)" using ok dec by simp_all
  obtain r w' where w': "deliver P (call_hdlr user P fuel 2) (NB a) d (w\<lparr>nbs := (nbs w)(a \<mapsto> b)\<rparr>) = Ok (r, w')"
    "if lost_echo P my (decoded y b) then w' = w\<lparr>nbs := (nbs w)(a \<mapsto> (decoded y b)\<lparr>nb_transport_hdr_offset := 34\<rparr>)\<rparr>
     else host_kept sent (nd_dev_addr y) d k w w'"
    using deliver_host[OF M(1,2) w(1) M(3) w(2-4) ey b, of user] w(5) by auto
  have "host_next P sent d k x my w w'"
  proof (cases "lost_echo P my (decoded y b)")
    case False
    then show ?thesis using w'(2) host_next_kept[OF inv] yx by simp
  next
    case True
    let ?c = "(decoded y b)\<lparr>nb_transport_hdr_offset := 34\<rparr>"
    have eq: "w' = w\<lparr>nbs := (nbs w)(a \<mapsto> ?c)\<rparr>" using w'(2) True by simp
    have "socks_inv xs w' = socks_inv xs w" for xs
    proof -
      have "slinks w' = slinks w" by (simp add: eq slinks_def fun_eq_iff)
      then show ?thesis by (simp add: eq socks_inv_def list_rep_def)
    qed
    moreover have "\<forall>a b. nbs w' a = Some b \<longrightarrow> lost_echo P my b"
      using inv True unfolding host_inv_def lost_payload by (auto simp: eq)
    then have "\<forall>a b. payload w' a = Some b \<longrightarrow> lost_echo P my b" unfolding lost_payload .
    ultimately have "host_inv P d k x my w'" using inv by (simp add: host_inv_def eq inet_ready_def tx_ready_def)
    then show ?thesis by (rule host_next_silent) (simp add: eq)
  qed
  then show ?thesis using w'(1) by simp
qed

text \<open>The calls of an application.\<close>

lemma calls_next:
  assumes mach: "machine P sent m K d k x fuel" and inv: "host_inv P d k x my w" and ok: "op_ok P d x w op"
    and op: "op = Op_irq \<or> op = Op_sendto s data n flags ad len \<or> op = Op_arp oper ptype dest spa tha tpa"
  shows "\<exists>w'. host_run user P fuel d op w = Ok w' \<and> host_next P sent d k x my w w'"
proof -
  note M = machineD[OF mach] and nx = host_next_kept[OF inv, of sent]
  obtain y where y: "eth_dev d w y" "nd_dev_addr y = nd_dev_addr x" by (rule host_inv_dev[OF inv M(7-9)])
  have w: "tx_ready d k w" "curr_net_dev w = d" using inv by (simp_all add: host_inv_def)
  from op show ?thesis
  proof (elim disjE)
    assume "op = Op_irq"
    then show ?thesis using nx[OF irq_kept[OF M(2)]] by simp
  next
    assume o: "op = Op_sendto s data n flags ad len"
    then obtain sk xs where sk: "socks w s = Some sk" "sk_ok sk" "socks_inv xs w" using ok inv by (auto simp: host_inv_def)
    then have "s \<in> set xs" by (auto simp: socks_inv_def)
    then have "s \<noteq> 0" "queue_rep w (TXQ s) []" using socks_invD[OF sk(3)] by simp_all
    then show ?thesis
      using sendto_host[OF M(1,2) w(1) M(4,5) w(2) y(1) _ sk(1) _ sk(2), of n data flags ad len] o ok y(2) nx by fastforce
  next
    assume o: "op = Op_arp oper ptype dest spa tha tpa"
    then show ?thesis
      using arp_send_host[OF M(1-3) w(1) y(1), of dest spa tha tpa oper ptype] ok y(2) nx by fastforce
  qed
qed

text \<open>Opening, binding and closing sockets.\<close>

lemma sock_socket_returns:
  assumes inv: "socks_inv xs w" and kind: "sock_kind family type protocol \<noteq> Undefined"
  shows "\<exists>s w'. sock_socket family type protocol w = Ok (s, w')"
proof (cases "mallocs w = [] \<or> hd (mallocs w) = 0 \<or> socks w (hd (mallocs w)) \<noteq> None \<or> AF_MAX \<le> family \<or> SOCK_MAX \<le> type")
  case True
  from sock_socket_null[OF this] show ?thesis by blast
next
  case False
  then obtain a ms where a: "mallocs w = a # ms" "a \<noteq> 0" "socks w a = None" "family < AF_MAX" by (cases "mallocs w") auto
  have "\<exists>w'. socket_list_add a (with_sock a k (w\<lparr>mallocs := ms\<rparr>)) = Ok w'" for k
    by (rule with_sock_inv[OF inv a(2,3), of "w\<lparr>mallocs := ms\<rparr>" k]) auto
  then show ?thesis
  proof (cases "sock_kind family type protocol")
    case (Created proto t)
    obtain w' where "socket_list_add a (with_sock a (made type proto t) (w\<lparr>mallocs := ms\<rparr>)) = Ok w'"
      using \<open>\<And>k. \<exists>w'. socket_list_add a (with_sock a k (w\<lparr>mallocs := ms\<rparr>)) = Ok w'\<close> by blast
    then show ?thesis using Created by (simp add: sock_socket_unfold[OF a])
  qed (use kind in \<open>simp_all add: sock_socket_unfold[OF a]\<close>)
qed

lemma sockets_kept:
  assumes "host_inv P d k x my w" "nbs w' = nbs w" "around w' = around w" "socks_inv ys w'" "\<And>s k. socks w' s = Some k \<Longrightarrow> sk_ok k"
  shows "host_next P sent d k x my w w'"
  by (rule host_next_silent[OF host_inv_socks[OF assms] around_sel(2)[OF assms(3)]])

lemma host_inv_sk_ok: "host_inv P d k x my w \<Longrightarrow> socks w s = Some e \<Longrightarrow> sk_ok e"
  by (auto simp: host_inv_def)

lemma socket_next:
  assumes inv: "host_inv P d k x my w" and ok: "op_ok P d x w (Op_socket f t p)"
  shows "\<exists>w'. host_run user P fuel d (Op_socket f t p) w = Ok w' \<and> host_next P sent d k x my w w'"
proof -
  obtain xs where xs: "socks_inv xs w" using inv by (auto simp: host_inv_def)
  obtain a w' where w': "sock_socket f t p w = Ok (a, w')" using sock_socket_returns[OF xs] ok by fastforce
  note si = socket_inv[OF xs w']
  have "sk_ok k" if k: "socks w' b = Some k" for b k
  proof (cases "a = 0 \<or> a \<noteq> b")
    case True
    then have "bare w' b = bare w b" using si by (metis fun_upd_apply)
    then show ?thesis by (rule sk_ok_same_bare[OF _ host_inv_sk_ok[OF inv] k])
  next
    case False
    then show ?thesis using si k by (auto simp: sk_ok_def)
  qed
  then have "host_next P sent d k x my w w'" using si by (intro sockets_kept[OF inv, of w' "if a = 0 then xs else a # xs"]) simp_all
  then show ?thesis using w' by simp
qed

lemma bind_next:
  assumes inv: "host_inv P d k x my w" and ok: "op_ok P d x w (Op_bind s ad len)"
  shows "\<exists>w'. host_run user P fuel d (Op_bind s ad len) w = Ok w' \<and> host_next P sent d k x my w w'"
proof -
  obtain xs where xs: "socks_inv xs w" using inv by (auto simp: host_inv_def)
  obtain sk where "socks w s = Some sk" using ok by auto
  with host_inv_sk_ok[OF inv this] obtain t where sk: "socks w s = Some sk" "sk_p_ops sk = Some t" by (auto simp: sk_ok_def)
  have s: "s \<noteq> 0" using socks_invD(3)[OF xs] sk(1) xs by (auto simp: socks_inv_def)
  have "\<exists>r w'. sock_bind P fuel s (Some ad) len w = Ok (r, w') \<and> (w' = w \<or> w' = w\<lparr>socks := (socks w)(s \<mapsto> bound P ad sk)\<rparr>)"
    unfolding sock_bind_eq[OF s sk] by simp
  then obtain r w' where w': "sock_bind P fuel s (Some ad) len w = Ok (r, w')"
    "w' = w \<or> w' = w\<lparr>socks := (socks w)(s \<mapsto> bound P ad sk)\<rparr>" by blast
  have "sk_ok (bound P ad sk)" using sk(2) by (simp add: sk_ok_def bound_def)
  then have "host_next P sent d k x my w w'"
    using w'(2) host_inv_sk_ok[OF inv] by (intro sockets_kept[OF inv _ _ bind_inv[OF xs w'(1)]]) (auto split: if_splits)
  then show ?thesis using w'(1) by simp
qed

lemma close_next:
  assumes inv: "host_inv P d k x my w" and ok: "op_ok P d x w (Op_close s)" and fuel: "0 < fuel"
  shows "\<exists>w'. host_run user P fuel d (Op_close s) w = Ok w' \<and> host_next P sent d k x my w w'"
proof -
  obtain xs where xs: "socks_inv xs w" using inv by (auto simp: host_inv_def)
  have "s \<in> set xs" using ok xs by (auto simp: socks_inv_def)
  then obtain w' where w': "sock_close P fuel s w = Ok (0, w')" "socks_inv (remove1 s xs) w'" "bare w' = (bare w)(s := None)"
    "nbs w' = nbs w" "around w' = around w" using close_inv[OF xs _ fuel] by blast
  have "sk_ok k" if k: "socks w' b = Some k" for b k
  proof (cases "b = s")
    case True
    have "bare w' s = None" using w'(3) by simp
    then show ?thesis using k True by (simp add: bare_def)
  next
    case False
    then have "bare w' b = bare w b" using w'(3) by simp
    then show ?thesis by (rule sk_ok_same_bare[OF _ host_inv_sk_ok[OF inv] k])
  qed
  then have "host_next P sent d k x my w w'" using w' by (intro sockets_kept[OF inv]) auto
  then show ?thesis using w' by simp
qed

lemma host_run_next:
  assumes "machine P sent m K d k x fuel" "host_inv P d k x my w" "op_ok P d x w op"
  shows "\<exists>w'. host_run user P fuel d op w = Ok w' \<and> host_next P sent d k x my w w'"
proof (cases op)
  case (Op_frame a b)
  then show ?thesis using frame_next[OF assms(1,2)] assms(3) by simp
next
  case (Op_socket f t p)
  then show ?thesis using socket_next[OF assms(2)] assms(3) by simp
next
  case (Op_bind s ad len)
  then show ?thesis using bind_next[OF assms(2)] assms(3) by simp
next
  case (Op_close s)
  then show ?thesis using close_next[OF assms(2) _ machineD(6)[OF assms(1)]] assms(3) by simp
next
  case (Op_sendto s data n flags ad len)
  then show ?thesis by (intro calls_next[OF assms, of s data n flags ad len]) simp
next
  case (Op_arp oper ptype dest spa tha tpa)
  then show ?thesis
    by (intro calls_next[OF assms, where oper = oper and ptype = ptype and dest = dest and spa = spa and tha = tha and tpa = tpa]) simp
qed (intro calls_next[OF assms], simp)

section \<open>All histories\<close>

text \<open>One operation, used as its contract says.\<close>

inductive host_step :: "(nat \<Rightarrow> nbp \<Rightarrow> ('h, 'w) dhcp_world_scheme \<Rightarrow> (int8_t \<times> ('h, 'w) dhcp_world_scheme) res) \<Rightarrow>
    ('h, 'w) dhcp_world_scheme platform \<Rightarrow> nat \<Rightarrow> addr \<Rightarrow> net_dev \<Rightarrow> ('h, 'w) dhcp_world_scheme \<Rightarrow> ('h, 'w) dhcp_world_scheme \<Rightarrow> bool"
  for user P fuel d x where
  host_op: "op_ok P d x w op \<Longrightarrow> host_run user P fuel d op w = Ok w' \<Longrightarrow> host_step user P fuel d x w w'"

lemma host_steps_next:
  assumes mach: "machine P sent m K d k x fuel" and inv: "host_inv P d k x my w"
    and steps: "(host_step user P fuel d x)\<^sup>*\<^sup>* w w'"
  shows "host_next P sent d k x my w w'"
  using steps
proof (induction rule: rtranclp_induct)
  case base
  show ?case by (rule host_next_silent[OF inv refl])
next
  case (step w1 w2)
  then have inv1: "host_inv P d k x my w1" by (simp add: host_next_def)
  from step.hyps(2) obtain op where op: "op_ok P d x w1 op" "host_run user P fuel d op w1 = Ok w2" by (auto elim: host_step.cases)
  then have "host_next P sent d k x my w1 w2" using host_run_next[OF mach inv1 op(1), of user] by simp
  moreover obtain cs where "sent (hw w1) = sent (hw w) @ cs" "\<forall>c \<in> set cs. from_host (nd_dev_addr x) c"
    using step.IH by (auto simp: host_next_def)
  ultimately show ?case unfolding host_next_def by (metis append.assoc set_append UnE)
qed

section \<open>A host for the concrete instances\<close>

lemma demo_drv_local:
  fixes w :: "(demo_hw, 'w) dev_world_scheme"
  shows "drv_local d w (demo_allow v d w)" "drv_local d w (snd (demo_tx nb d w))"
  by (cases "devs w d"; auto simp: drv_local_def outside_def demo_tx_def demo_allow_def dev_fixed_def split: nbp.split option.split)+

lemma demo_host_driver: "d \<noteq> 0 \<Longrightarrow> k \<noteq> 0 \<Longrightarrow> host_driver (demo_platform d) demo_log demo_left 3 d k"
  unfolding host_driver_def demo_platform_sel demo_ops_sel option.inject
  by (intro conjI allI impI) (rule demo_tx_driver demo_drv_local | assumption | hypsubst)+

lemma demo_machine: "machine demo_P demo_log demo_left 3 1 1 demo_dev 8"
  by (simp add: machine_def demo_host_driver mac_ok_def)

definition demo_host :: "demo_hw dhcp_world" where
  "demo_host = (inet_init (demo_dhcp_world [21, 22] 0x0200000A Map.empty))\<lparr>socks := Map.empty, socket_list := 0, queues := Map.empty\<rparr>"

lemma demo_host_ok:
  "inet_ready demo_host" "ipp_tcp (ip_proto_ops demo_host) = None" "ipp_udp (ip_proto_ops demo_host) = None"
  "curr_net_dev demo_host = 1" "tx_ready 1 1 demo_host" "devs demo_host 1 = Some demo_dev" "nbs demo_host = Map.empty"
  "socks demo_host = Map.empty" "socket_list demo_host = 0" "queues demo_host = Map.empty"
  using inet_init_ready[of "demo_dhcp_world [21, 22] 0x0200000A Map.empty"]
  by (simp_all add: demo_host_def inet_ready_def tx_ready_def)
    (simp_all add: inet_init_def ip_init_def arp_init_def icmp_init_def tcp_init_def udp_init_def pkt_hdlr_add_def
      ip_proto_handler_add_def ETH_P_IP_def ETH_P_ARP_def IPPROTO_ICMP_def IPPROTO_TCP_def IPPROTO_UDP_def)

section \<open>Properties\<close>

lemma host_inv_start:
  assumes "inet_ready w" "ipp_tcp (ip_proto_ops w) = None" "ipp_udp (ip_proto_ops w) = None" "curr_net_dev w = d" "tx_ready d k w"
    and "devs w d = Some x" "nbs w = Map.empty" "socks w = Map.empty" "socket_list w = 0" "queues w = Map.empty"
  shows "host_inv P d k x (my_ip w) w"
proof -
  have "socks_inv [] w" using assms(8-10) by (simp add: socks_inv_def list_rep_def)
  then show ?thesis using assms by (auto simp: host_inv_def payload_def)
qed

text \<open>C1: a host never faults, whatever its history: after the initialisation, let frames with arbitrary contents arrive,
  interrupts happen, and the application open, bind, use and close sockets, send datagrams and ARP packets, in any order and
  number, each of them used as its contract \<open>op_ok\<close> says: a frame holds the headers that are read of it and its ICMP
  message, with a total length of at least 24; \<open>socket\<close> is not called with a protocol that does not suit its type, for which the code branches on an uninitialised
  variable (\<open>sock_socket_outcome\<close>); pointers to sockets are live; data have the length given, and with the 42 bytes of the headers it fits in 16 bits;
  ARP addresses have 6 and 4 bytes.  The application registers no protocol handlers of its own, and no \<open>dhcp\<close> runs.
  Then every next operation succeeds; the sockets are still in their list,
  without duplicates and with empty queues; the only buffers left in memory are those of accepted echo requests for other
  addresses, which the code loses; and every frame sent carries the address of the device as its source.\<close>

theorem host_runs:
  assumes "machine P sent m K d k x fuel"
    and "inet_ready w" "ipp_tcp (ip_proto_ops w) = None" "ipp_udp (ip_proto_ops w) = None" "curr_net_dev w = d" "tx_ready d k w"
    and "devs w d = Some x" "nbs w = Map.empty" "socks w = Map.empty" "socket_list w = 0" "queues w = Map.empty"
    and "(host_step user P fuel d x)\<^sup>*\<^sup>* w w'"
  shows "(\<forall>op. op_ok P d x w' op \<longrightarrow> (\<exists>w''. host_run user P fuel d op w' = Ok w'')) \<and> (\<exists>xs. socks_inv xs w') \<and>
    (\<forall>a b. nbs w' a = Some b \<longrightarrow> nb_protocol b = htons P ETH_P_IP \<and> echo_accepted b \<and> ih_dst (ip_hdr_at b) \<noteq> le32 (my_ip w)) \<and>
    (\<exists>cs. sent (hw w') = sent (hw w) @ cs \<and> (\<forall>c \<in> set cs. bslice 6 6 (nb_mem c) = nd_dev_addr x))"
proof -
  have nx: "host_next P sent d k x (my_ip w) w w'" by (rule host_steps_next[OF assms(1) host_inv_start[OF assms(2-11)] assms(12)])
  then have inv: "host_inv P d k x (my_ip w) w'" by (simp add: host_next_def)
  then have "\<forall>a b. nbs w' a = Some b \<longrightarrow> lost_echo P (my_ip w) b" "\<exists>xs. socks_inv xs w'" by (simp_all add: host_inv_def flip: lost_payload)
  moreover have "\<exists>w''. host_run user P fuel d op w' = Ok w''" if "op_ok P d x w' op" for op
    using host_run_next[OF assms(1) inv that, of user] by blast
  ultimately show ?thesis using nx by (auto simp: host_next_def lost_echo_def from_host_def)
qed

theorem host_runs_witness:
  "\<exists>w1 w2. host_run (\<lambda>i nb w. Fault Null_deref) demo_P 8 1 (Op_frame 5 demo_noise) demo_host = Ok w1 \<and>
     host_run (\<lambda>i nb w. Fault Null_deref) demo_P 8 1 (Op_socket 1 2 0) w1 = Ok w2 \<and> (\<exists>xs. socks_inv xs w2)"
proof -
  let ?u = "\<lambda>i nb w. Fault Null_deref" and ?P = "demo_P"
  note R = host_runs[OF demo_machine demo_host_ok, where user = ?u]
  have "op_ok ?P 1 demo_dev demo_host (Op_frame 5 demo_noise)"
  proof -
    have "mk16 255 255 \<noteq> swap16 0x800" "mk16 255 255 \<noteq> swap16 0x806" by code_simp+
    then show ?thesis by (simp add: demo_host_ok demo_noise_def arrived_def decoded_def recv_sized_def placed_def frame_proto_def
      ETH_P_IP_def ETH_P_ARP_def swap_simps)
  qed
  then obtain w1 where w1: "host_run ?u ?P 8 1 (Op_frame 5 demo_noise) demo_host = Ok w1" "host_step ?u ?P 8 1 demo_dev demo_host w1"
    using R[of demo_host] host_op by blast
  have "op_ok ?P 1 demo_dev w1 (Op_socket 1 2 0)"
    by (simp add: sock_kind_def AF_INET_def SOCK_MAX_def SOCK_STREAM_def SOCK_DGRAM_def)
  then obtain w2 where w2: "host_run ?u ?P 8 1 (Op_socket 1 2 0) w1 = Ok w2" "host_step ?u ?P 8 1 demo_dev w1 w2"
    using R[of w1] w1(2) host_op by blast
  have "(host_step ?u ?P 8 1 demo_dev)\<^sup>*\<^sup>* demo_host w2" using w1(2) w2(2) by simp
  from R[OF this] show ?thesis using w1(1) w2(1) by blast
qed

end
