(* ===== verification/Spec2Isabelle.thy ===== *)
theory Spec2Isabelle
  imports Nb_Dump Nb_Heap Dhcp_Exchange Host_Run
begin

text \<open>
  A verified model of network-avr, a network stack in C for AVR microcontrollers (\<open>src/src\<close>): Ethernet, ARP,
  IPv4, ICMP echo, UDP sending, BSD-like sockets and address configuration with DHCP.

  \<^bold>\<open>How the program works.\<close>  A driver registers a device (\<open>net/net_dev.c\<close>).  A received frame is put in a network
  buffer (\<open>net/net.c\<close>), its Ethernet header is decoded (\<open>net/eth.c\<close>), and \<open>recv_pkt_handler\<close>
  (\<open>net/pkt_hdlr.c\<close>) calls the handler registered for its type: \<open>arp_recv\<close>, \<open>ip_recv\<close> or, while the address is
  being configured, \<open>dhcp_recv\<close>.  \<open>ip_recv\<close> calls \<open>ip_proto_handler\<close> (\<open>net/ip_proto.c\<close>), which
  finds the handler of the IP protocol.  Towards the network, \<open>sendto\<close> (\<open>net/socket.c\<close>) goes through the
  table of operations of the socket to \<open>inet_sendmsg\<close> (\<open>netinet/af_inet.c\<close>), \<open>udp_send_msg\<close>
  (\<open>netinet/udp.c\<close>) and \<open>ip_create_nb\<close> (\<open>netinet/ip.c\<close>), which puts the frame on the queue of the socket;
  \<open>netdev_queue_xmit\<close> hands it to the driver.

  \<^bold>\<open>Theories and sources\<close>, in the order of import.
  \<^item> \<open>Net_Prelude\<close>: results of fallible code, memory accesses with bounds, bytes of words, shared lemmas.
  \<^item> \<open>Checksum\<close>: \<open>net/checksum.c\<close>.  \<open>Inet\<close>: \<open>arpa/inet.c\<close>, \<open>arpa/inet.h\<close>, \<open>netinet/in.h\<close>.
  \<^item> \<open>Net_Buff\<close>: \<open>struct net_buff_s\<close>, \<open>net/net.c\<close>.  \<open>Nb_Queue\<close>, \<open>Nb_Dump\<close>: the queues of \<open>net/net.h\<close>.
  \<^item> \<open>Nb_Heap\<close>: who owns the buffers, over all sequences of operations of the two theories before.
  \<^item> \<open>Net_Dev\<close>: \<open>net/net_dev.c\<close>, \<open>net/net_dev.h\<close>, \<open>net/interrupt.c\<close>.  \<open>Ether\<close>: \<open>net/eth.c\<close>.
  \<^item> \<open>Proto_Table\<close>: \<open>net/pkt_hdlr.c\<close>, \<open>net/ip_proto.c\<close>.
  \<^item> \<open>Frame_View\<close>: a frame as link header, network header and data, and rules that run a handler
    on these windows.  \<open>Arp\<close>: \<open>netinet/arp.c\<close>.
  \<^item> \<open>Ip\<close>, \<open>Ip_Send\<close>: \<open>netinet/ip.c\<close>, \<open>netinet/ip.h\<close>.  \<open>Icmp\<close>: \<open>netinet/icmp.c\<close>.
  \<^item> \<open>Sock_State\<close>: the structs of \<open>net/socket.h\<close> and \<open>net/uio.h\<close>.  \<open>Transport\<close>: \<open>netinet/udp.c\<close>, \<open>netinet/tcp.c\<close>.
  \<^item> \<open>Af_Inet\<close>: \<open>netinet/af_inet.c\<close>.  \<open>Socket_List\<close>, \<open>Socket\<close>: \<open>net/socket.c\<close>.
  \<^item> \<open>Dhcp_Options\<close>, \<open>Dhcp\<close>, \<open>Dhcp_Request\<close>, \<open>Dhcp_Reply\<close>, \<open>Ipconfig\<close>: \<open>net/ipconfig.c\<close>.
  \<^item> \<open>Stack\<close>: the calls through the two tables, \<open>network_init\<close>, and a packet through all layers.
  \<^item> \<open>Recv_Safe\<close>: what the stack does with arbitrary received bytes.  \<open>Datagram\<close>: a datagram from \<open>sendto\<close> to the
    handler of another host.  \<open>Dhcp_Exchange\<close>: the exchange with a server, and without one.
  \<^item> \<open>Host_Driver\<close>, \<open>Host\<close>, \<open>Host_Run\<close>: a whole host, over all histories: what its operations leave alone, its
    invariant, and the operations in any order.

  \<^bold>\<open>State.\<close>  The state is a record that grows with the layers: \<open>nb_world\<close> (buffers, queues and the heap),
  \<open>dev_world\<close> (devices and hardware), \<open>tab_world\<close> (handler tables), \<open>ip_world\<close> (addresses, ARP entry),
  \<open>sock_world\<close> (sockets), \<open>dhcp_world\<close> (the exchange).  Every operation is a function on the records that extend
  its own, so it is used as it is in the layers above.  A pointer to a buffer is a value of \<open>nbp\<close> (null, a buffer,
  or a queue head cast to a buffer), and a pointer into the bytes of a buffer is an offset.  Where the code adds a length to such a
  pointer before it compares it (\<open>put_net_buff\<close>, \<open>dhcp_parse\<close>) the sum is taken as the 16-bit address that it is (\<open>ptr_at\<close>, \<open>head_at\<close>; \<open>place\<close>
  gives the address of the memory of each buffer), so it can wrap around.  Headers are read
  and written in the bytes of the buffer at the offsets of the packed structs, in the byte order of the AVR.  Every
  integer has its width.  Undefined behaviour and endless loops of the code are values: \<open>Fault\<close> with
  \<open>Null_deref\<close>, \<open>Dangling\<close>, \<open>Out_of_bounds\<close>, \<open>Bad_free\<close>, \<open>Uninit\<close> or \<open>Hang\<close>.

  \<^bold>\<open>What is a parameter\<close>, because it is not part of the sources: the byte swaps of \<open>defines.h\<close>
  (\<open>swaps_ok\<close> states what they do), the drivers (the functions of \<open>struct net_dev_ops_s\<close>, in the record
  \<open>platform\<close>, with \<open>tx_driver\<close>, \<open>tx_exact\<close>, \<open>life_driver\<close> and \<open>host_driver\<close> as what the code relies on; under
  \<open>host_driver\<close> a frame that arrives during a transmission is delivered after it, as an operation of its own), the interrupts that
  run between two rounds of a busy-wait loop and, in \<open>dhcp\<close>, between any two steps that use the variables shared with them, of which the building of a request is one (\<open>isr\<close>, with \<open>dhcp_net\<close>
  for a network with a DHCP server and \<open>dhcp_silent\<close> for one without), the outcome of \<open>malloc\<close> (\<open>mallocs\<close>), the
  contents and the place of fresh memory (\<open>junk\<close>, \<open>place\<close>), \<open>rand\<close> (\<open>rands\<close>), the handlers of the application, and what the
  program memory holds at an address where \<open>shutdown\<close> reads RAM instead.

  \<^bold>\<open>Fuel.\<close>  Loops that wait for the hardware take fuel; with too little they return \<open>Fault Out_of_fuel\<close>, never a
  result.  The theorems say how much is enough: for a driver that becomes ready within \<open>K\<close> polls, \<open>2 * Suc K\<close>
  for a frame; the length of a queue plus one for \<open>nb_queue_clear\<close>; six rounds for \<open>dhcp\<close>
  without an answer, two when a server answers within the \<open>F_CPU / 4\<close> polls of a time-out; depth 2 for the nested handlers.  The checksum, the options and the ports need none.

  \<^bold>\<open>What the lemmas show.\<close>
  \<^item> Data: the checksum is that of RFC 1071 and detects every corrupted byte; addresses, headers, ARP packets,
    datagrams and DHCP options are read back as they were written.
  \<^item> Structures: the queues implement a FIFO (locale \<open>fifo\<close>), the handler tables a finite map (locale
    \<open>handler_table\<close>), the list of sockets a list without duplicates (locale \<open>registry\<close>).  Each locale is
    interpreted on the model of the code, and the properties use its facts.
  \<^item> State machines: the life cycle of a device and the life of the sockets, by induction over all sequences of
    calls; the DHCP exchange, for every behaviour of the network (with the late reply that makes \<open>dhcp\<close> return 0 without an
    acknowledgement), its success when a server answers, and the six requests after which it gives up without one.
  \<^item> Ownership: a typing discipline on the buffer operations with preservation and progress; typed programs neither
    fault nor lose a buffer.
  \<^item> Memory safety: whatever bytes are received, the handlers run without a fault when the headers, and the message of
    an ICMP packet, lie in the buffer; the code does not check this, and a lemma gives the packets that pass its checks
    and are read out of bounds.
  \<^item> A whole host: frames with arbitrary contents, interrupts and the calls of an application in any order
    (\<open>host_op\<close>, \<open>host_step\<close>), used as \<open>op_ok\<close> says, never fault and keep an invariant of the buffers, the sockets,
    the device and the hardware; each operation is shown to leave the rest of the state alone (\<open>host_kept\<close>).  \<open>op_ok\<close> asks
    of a frame what the code does not check, and of the application that its pointers are live, its data not longer than a
    datagram, and its protocols suited to the types of its sockets.
  \<^item> Handlers: exact functional specifications of \<open>arp_recv\<close>, \<open>ip_recv\<close>, \<open>icmp_recv\<close>, \<open>dhcp_recv\<close>, of the
    sending of datagrams and requests, and of the interface of sockets, with every refusal.
  \<^item> Compositions: address resolution between two hosts, a datagram from \<open>sendto\<close> on one host to the
    handler of an application on another, and a ping through all layers.
  \<^item> Where the code departs from what its comments say, a lemma states what it does, for instance for the
    order of bytes in \<open>bind\<close>, the length test of \<open>ip_recv\<close>, and buffers that are lost.

  \<^bold>\<open>Not modelled.\<close>  Text printed on the console by \<open>ipconfig.c\<close>.  The functions that the sources leave as
  stubs (\<open>tcp_send_msg\<close>, \<open>accept\<close>, \<open>connect\<close>, \<open>listen\<close>, \<open>recvfrom\<close>) are modelled as the stubs they are.  A
  write through a null pointer is a fault; on the AVR it changes a register.  The constants of the headers that no
  code uses have no counterpart.
\<close>

end
